(* ===== verification/Prelude.thy ===== *)
theory Prelude
  imports Main "HOL-Library.Word"
begin

text \<open>
  Shared vocabulary of the development: the machine types of the C sources, byte-level
  slices and in-place updates of buffers, little-endian and big-endian encodings of words, and the
  codec interface that the on-disk structures implement.
\<close>

unbundle bit_operations_syntax

subsection \<open>Machine types\<close>

type_synonym byte = "8 word"
type_synonym u8 = "8 word"
type_synonym u16 = "16 word"
type_synonym u32 = "32 word"
type_synonym u64 = "64 word"

named_theorems buf_simps \<open>rewriting of slices and in-place updates of byte buffers\<close>
named_theorems layout_defs \<open>sizes and offsets of the on-disk structures\<close>

text \<open>C's integer division and remainder truncate towards zero.\<close>

definition tdiv :: "int \<Rightarrow> int \<Rightarrow> int" where
  "tdiv a b = sgn a * sgn b * (\<bar>a\<bar> div \<bar>b\<bar>)"

definition tmod :: "int \<Rightarrow> int \<Rightarrow> int" where
  "tmod a b = a - b * tdiv a b"

lemma tdiv_tmod: "a = b * tdiv a b + tmod a b"
  by (simp add: tmod_def)

lemma tdiv_pos: "0 \<le> a \<Longrightarrow> 0 < b \<Longrightarrow> tdiv a b = a div b"
  by (auto simp: tdiv_def sgn_if)

subsection \<open>Results\<close>

text \<open>Sequencing of computations that may end with an error.\<close>

definition rbind :: "'e + 'a \<Rightarrow> ('a \<Rightarrow> 'e + 'b) \<Rightarrow> 'e + 'b" where
  "rbind r k = (case r of Inl e \<Rightarrow> Inl e | Inr x \<Rightarrow> k x)"

lemma rbind_simps [simp]: "rbind (Inl e) k = Inl e" "rbind (Inr x) k = k x"
  by (simp_all add: rbind_def)

lemma rbind_Inr: "rbind r k = Inr y \<longleftrightarrow> (\<exists>x. r = Inr x \<and> k x = Inr y)"
  by (cases r) simp_all

lemma rbind_Inl: "rbind r k = Inl e \<longleftrightarrow> r = Inl e \<or> (\<exists>x. r = Inr x \<and> k x = Inl e)"
  by (cases r) simp_all

lemma rbind_assoc: "rbind (rbind r f) g = rbind r (\<lambda>x. rbind (f x) g)"
  by (cases r) simp_all

lemma rbind_cong [fundef_cong]:
  "r = r' \<Longrightarrow> (\<And>x. r' = Inr x \<Longrightarrow> k x = k' x) \<Longrightarrow> rbind r k = rbind r' k'"
  by (cases r') simp_all

subsection \<open>Slices and in-place updates\<close>

definition bslice :: "nat \<Rightarrow> nat \<Rightarrow> 'a list \<Rightarrow> 'a list" where
  "bslice off n xs = take n (drop off xs)"

definition blit :: "nat \<Rightarrow> 'a list \<Rightarrow> 'a list \<Rightarrow> 'a list" where
  "blit off ys xs = take off xs @ ys @ drop (off + length ys) xs"

lemma length_concat_const: "\<forall>x \<in> set xs. length (f x) = n \<Longrightarrow> length (concat (map f xs)) = n * length xs"
  by (induction xs) auto

lemma length_bslice [simp]: "length (bslice off n xs) = min n (length xs - off)"
  by (simp add: bslice_def)

lemma length_blit [simp]:
  "off + length ys \<le> length xs \<Longrightarrow> length (blit off ys xs) = length xs"
  by (simp add: blit_def)

lemma blit_Nil [simp]: "blit off [] xs = xs"
  by (simp add: blit_def)

lemma bslice_0 [simp]: "bslice off 0 xs = []"
  by (simp add: bslice_def)

lemma bslice_all: "n = length xs \<Longrightarrow> bslice 0 n xs = xs"
  by (simp add: bslice_def)

lemma nth_bslice [simp]: "i < n \<Longrightarrow> off + n \<le> length xs \<Longrightarrow> bslice off n xs ! i = xs ! (off + i)"
  by (simp add: bslice_def)

lemma nth_blit:
  assumes "off + length ys \<le> length xs" and "i < length xs"
  shows "blit off ys xs ! i =
    (if off \<le> i \<and> i < off + length ys then ys ! (i - off) else xs ! i)"
  using assms by (auto simp: blit_def nth_append)

lemma nth_blit_outside:
  "off + length ys \<le> length xs \<Longrightarrow> i < off \<or> off + length ys \<le> i \<Longrightarrow> blit off ys xs ! i = xs ! i"
  by (auto simp: blit_def nth_append)

lemma bslice_blit_same [buf_simps]:
  "off + length ys \<le> length xs \<Longrightarrow> n = length ys \<Longrightarrow> bslice off n (blit off ys xs) = ys"
  by (simp add: bslice_def blit_def)

lemma bslice_blit_before [buf_simps]:
  "off + length ys \<le> length xs \<Longrightarrow> a + n \<le> off \<Longrightarrow> bslice a n (blit off ys xs) = bslice a n xs"
  by (intro nth_equalityI) (auto simp: nth_blit)

lemma bslice_blit_after [buf_simps]:
  "off + length ys \<le> length xs \<Longrightarrow> off + length ys \<le> a \<Longrightarrow>
    bslice a n (blit off ys xs) = bslice a n xs"
  by (simp add: bslice_def blit_def)

lemma bslice_blit_within [buf_simps]:
  assumes "off + length ys \<le> length xs" and "off \<le> a" and "a + n \<le> off + length ys"
  shows "bslice a n (blit off ys xs) = bslice (a - off) n ys"
  using assms by (intro nth_equalityI) (auto simp: nth_blit)

lemma blit_overwrite [buf_simps]:
  "off + length ys \<le> length xs \<Longrightarrow> length zs = length ys \<Longrightarrow>
    blit off zs (blit off ys xs) = blit off zs xs"
  by (simp add: blit_def)

lemma blit_commute:
  assumes "a + length ys \<le> b" and "b + length zs \<le> length xs"
  shows "blit a ys (blit b zs xs) = blit b zs (blit a ys xs)"
  using assms by (intro nth_equalityI) (auto simp: nth_blit)

lemma blit_bslice_id [buf_simps]:
  "off + n \<le> length xs \<Longrightarrow> blit off (bslice off n xs) xs = xs"
  by (intro nth_equalityI) (auto simp: nth_blit)

lemma bslice_join:
  "b = a + n \<Longrightarrow> bslice a n xs @ bslice b m xs = bslice a (n + m) xs"
  by (metis bslice_def take_add drop_drop add.commute)

lemma bslice_join_append:
  "b = a + n \<Longrightarrow> bslice a n xs @ bslice b m xs @ r = bslice a (n + m) xs @ r"
  by (simp add: bslice_join flip: append_assoc)

lemma bslice_append_left [buf_simps]:
  "a + n \<le> length xs \<Longrightarrow> bslice a n (xs @ ys) = bslice a n xs"
  by (simp add: bslice_def)

lemma bslice_append_right [buf_simps]:
  "length xs \<le> a \<Longrightarrow> bslice a n (xs @ ys) = bslice (a - length xs) n ys"
  by (simp add: bslice_def)

lemma bslice_Cons [buf_simps]: "0 < a \<Longrightarrow> bslice a n (x # xs) = bslice (a - 1) n xs"
  by (simp add: bslice_def drop_Cons')

lemma bslice_bslice [buf_simps]:
  "b + m \<le> n \<Longrightarrow> bslice b m (bslice a n xs) = bslice (a + b) m xs"
  by (simp add: bslice_def drop_take add.commute min_absorb1)

subsection \<open>Words and their bytes\<close>

definition le_bytes :: "nat \<Rightarrow> 'a::len word \<Rightarrow> byte list" where
  "le_bytes n w = map (\<lambda>i. ucast (drop_bit (8 * i) w)) [0..<n]"

fun le_word :: "byte list \<Rightarrow> 'a::len word" where
  "le_word [] = 0"
| "le_word (b # bs) = ucast b OR push_bit 8 (le_word bs)"

lemma length_le_bytes [simp]: "length (le_bytes n w) = n"
  by (simp add: le_bytes_def)

lemma bit_le_word:
  "bit (le_word bs :: 'a::len word) i \<longleftrightarrow>
     i < LENGTH('a) \<and> i < 8 * length bs \<and> bit (bs ! (i div 8)) (i mod 8)"
proof (induction bs arbitrary: i)
  case Nil
  then show ?case by simp
next
  case (Cons b bs)
  show ?case
  proof (cases "i < 8")
    case True
    then show ?thesis by (auto simp: bit_simps)
  next
    case False
    then have i: "i div 8 = Suc ((i - 8) div 8)" "i mod 8 = (i - 8) mod 8"
      by (auto simp: le_div_geq le_mod_geq)
    from False show ?thesis
      by (auto simp: bit_simps Cons.IH i) (auto dest!: bit_imp_le_length)
  qed
qed

lemma bit_le_bytes:
  "i < n \<Longrightarrow> bit (le_bytes n w ! i) j \<longleftrightarrow> j < 8 \<and> bit w (8 * i + j)"
  by (auto simp: le_bytes_def bit_simps dest: bit_imp_le_length)

lemma le_word_le_bytes:
  "le_word (le_bytes n w) = take_bit (8 * n) (w :: 'a::len word)"
  by (rule bit_word_eqI) (auto simp: bit_le_word bit_le_bytes bit_simps less_mult_imp_div_less mult.commute)

lemma le_word_le_bytes_full [simp]:
  "LENGTH('a) \<le> 8 * n \<Longrightarrow> le_word (le_bytes n w) = (w :: 'a::len word)"
  by (simp add: le_word_le_bytes take_bit_word_eq_self)

lemma le_bytes_le_word [simp]:
  assumes "8 * length bs \<le> LENGTH('a)" and "n = length bs"
  shows "le_bytes n (le_word bs :: 'a::len word) = bs"
proof (rule nth_equalityI)
  fix i assume "i < length (le_bytes n (le_word bs :: 'a word))"
  with assms have i: "i < length bs" by simp
  show "le_bytes n (le_word bs :: 'a word) ! i = bs ! i"
  proof (rule bit_word_eqI)
    fix j assume "j < LENGTH(8)"
    then have "(8 * i + j) div 8 = i" "(8 * i + j) mod 8 = j" "8 * i + j < 8 * length bs"
      using i by auto
    with i assms show "bit (le_bytes n (le_word bs :: 'a word) ! i) j = bit (bs ! i) j"
      using \<open>j < LENGTH(8)\<close> by (simp add: bit_le_bytes bit_le_word)
  qed
qed (use assms in simp)

subsection \<open>Exclusive-or sums\<close>

definition xor_sum :: "byte list \<Rightarrow> byte" where
  "xor_sum bs = foldl (\<lambda>c b. c XOR b) 0 bs"

lemma foldl_xor: "foldl (\<lambda>c b. c XOR b) a bs = a XOR foldl (\<lambda>c b. c XOR b) 0 (bs :: byte list)"
proof (induction bs arbitrary: a)
  case (Cons b bs)
  then show ?case by (metis foldl_Cons xor.assoc xor.left_neutral)
qed simp

lemma xor_sum_Nil [simp]: "xor_sum [] = 0"
  by (simp add: xor_sum_def)

lemma xor_sum_Cons [simp]: "xor_sum (b # bs) = b XOR xor_sum bs"
  unfolding xor_sum_def by (subst foldl_Cons) (simp, rule foldl_xor)

lemma xor_sum_append [simp]: "xor_sum (xs @ ys) = xor_sum xs XOR xor_sum ys"
  by (induction xs) (simp_all add: xor.assoc)

subsection \<open>The codec interface of the on-disk structures\<close>

text \<open>
  A structure that the tools read from and write to the device has a fixed size, an encoding
  (the C object representation) and a decoding; storing and loading at an offset of the device
  are in-place updates and slices of the device's bytes.
\<close>

locale codec =
  fixes enc :: "'a \<Rightarrow> byte list"
    and dec :: "byte list \<Rightarrow> 'a"
    and wf :: "'a \<Rightarrow> bool"
    and sz :: nat
  assumes enc_length: "wf x \<Longrightarrow> length (enc x) = sz"
    and dec_enc: "wf x \<Longrightarrow> dec (enc x) = x"
    and enc_dec: "length bs = sz \<Longrightarrow> enc (dec bs) = bs"
    and wf_dec: "length bs = sz \<Longrightarrow> wf (dec bs)"
begin

lemma load_store:
  "wf x \<Longrightarrow> off + sz \<le> length d \<Longrightarrow> dec (bslice off sz (blit off (enc x) d)) = x"
  by (simp add: enc_length dec_enc bslice_blit_same)

lemma store_load:
  "off + sz \<le> length d \<Longrightarrow> blit off (enc (dec (bslice off sz d))) d = d"
  by (simp add: enc_dec blit_bslice_id)

lemma store_store:
  "wf x \<Longrightarrow> wf y \<Longrightarrow> off + sz \<le> length d \<Longrightarrow>
    blit off (enc y) (blit off (enc x) d) = blit off (enc y) d"
  by (simp add: enc_length blit_overwrite)

lemma load_store_elsewhere:
  "wf x \<Longrightarrow> off + sz \<le> length d \<Longrightarrow> a + n \<le> off \<or> off + sz \<le> a \<Longrightarrow>
    bslice a n (blit off (enc x) d) = bslice a n d"
  by (auto simp: enc_length bslice_blit_before bslice_blit_after)

lemma enc_inj: "wf x \<Longrightarrow> wf y \<Longrightarrow> enc x = enc y \<Longrightarrow> x = y"
  by (metis dec_enc)

end

interpretation le16: codec "le_bytes 2" "le_word :: byte list \<Rightarrow> u16" "\<lambda>_. True" 2
  by unfold_locales simp_all

interpretation le32: codec "le_bytes 4" "le_word :: byte list \<Rightarrow> u32" "\<lambda>_. True" 4
  by unfold_locales simp_all

end
