(* ===== verification/CString.thy ===== *)
theory CString
  imports Prelude
begin

text \<open>
  The C library's string functions that the sources call, on C strings written as HOL strings
  (the characters before the terminating zero): \<open>isspace\<close>, \<open>isdigit\<close>, \<open>strrchr\<close>, \<open>strstr\<close>,
  \<open>strcmp\<close>, \<open>strncmp\<close>, and decimal conversion as \<open>strtol\<close>, \<open>atoi\<close> and \<open>sscanf("%d")\<close> do it.
\<close>

subsection \<open>Characters\<close>

definition isspace_c :: "char \<Rightarrow> bool" where
  "isspace_c c \<longleftrightarrow> c = CHR '' '' \<or> (9 \<le> (of_char c :: nat) \<and> (of_char c :: nat) \<le> 13)"

definition isdigit_c :: "char \<Rightarrow> bool" where
  "isdigit_c c \<longleftrightarrow> 48 \<le> (of_char c :: nat) \<and> (of_char c :: nat) \<le> 57"

definition digit_val :: "char \<Rightarrow> int" where
  "digit_val c = int (of_char c) - 48"

text \<open>The C string that a byte buffer holds.\<close>

definition cstr :: "byte list \<Rightarrow> string" where
  "cstr bs = map (\<lambda>b. char_of (unat b)) (takeWhile (\<lambda>b. b \<noteq> 0) bs)"

subsection \<open>Searching and comparing\<close>

fun strrchr :: "string \<Rightarrow> char \<Rightarrow> string option" where
  "strrchr [] c = None"
| "strrchr (x # xs) c =
     (case strrchr xs c of Some r \<Rightarrow> Some r | None \<Rightarrow> if x = c then Some (x # xs) else None)"

fun is_prefix :: "'a list \<Rightarrow> 'a list \<Rightarrow> bool" where
  "is_prefix [] ys = True"
| "is_prefix (x # xs) [] = False"
| "is_prefix (x # xs) (y # ys) = (x = y \<and> is_prefix xs ys)"

fun strstr :: "string \<Rightarrow> string \<Rightarrow> bool" where
  "strstr [] n = (n = [])"
| "strstr (x # xs) n = (is_prefix n (x # xs) \<or> strstr xs n)"

definition strncmp_eq :: "string \<Rightarrow> string \<Rightarrow> nat \<Rightarrow> bool" where
  "strncmp_eq a b n \<longleftrightarrow> take n a = take n b"

text \<open>The sign of \<open>strcmp\<close>: lexicographic on unsigned character codes.\<close>

fun strcmp :: "string \<Rightarrow> string \<Rightarrow> int" where
  "strcmp [] [] = 0"
| "strcmp [] (y # ys) = - int (of_char y)"
| "strcmp (x # xs) [] = int (of_char x)"
| "strcmp (x # xs) (y # ys) =
     (if x = y then strcmp xs ys else int (of_char x) - int (of_char y))"

lemma is_prefix_iff: "is_prefix xs ys \<longleftrightarrow> (\<exists>zs. ys = xs @ zs)"
  by (induction xs ys rule: is_prefix.induct) auto

lemma strstr_iff: "strstr h n \<longleftrightarrow> (\<exists>a b. h = a @ n @ b)"
proof (induction h n rule: strstr.induct)
  case (2 x xs n)
  show ?case
    by (simp add: 2 is_prefix_iff) (metis append_Cons append_Nil list.exhaust list.inject)
qed simp

lemma strrchr_None: "strrchr s c = None \<longleftrightarrow> c \<notin> set s"
  by (induction s) (auto split: option.splits)

lemma strrchr_Some:
  "strrchr s c = Some r \<longleftrightarrow> (\<exists>a b. s = a @ c # b \<and> r = c # b \<and> c \<notin> set b)"
proof (induction s arbitrary: r)
  case (Cons x xs)
  show ?case
  proof (cases "strrchr xs c")
    case None
    then have "c \<notin> set xs" by (simp add: strrchr_None)
    with None show ?thesis
      by (auto simp: Cons_eq_append_conv)
  next
    case (Some r')
    then obtain a b where ab: "xs = a @ c # b" "r' = c # b" "c \<notin> set b"
      using Cons.IH by blast
    show ?thesis
    proof
      assume "strrchr (x # xs) c = Some r"
      with Some ab show "\<exists>a b. x # xs = a @ c # b \<and> r = c # b \<and> c \<notin> set b"
        by (intro exI [of _ "x # a"] exI [of _ b]) simp
    next
      assume "\<exists>a b. x # xs = a @ c # b \<and> r = c # b \<and> c \<notin> set b"
      then obtain a' b' where "x # xs = a' @ c # b'" "r = c # b'" "c \<notin> set b'" by blast
      with ab show "strrchr (x # xs) c = Some r"
        using Some by (cases a') (auto simp: append_eq_Cons_conv append_eq_append_conv2 Cons_eq_append_conv)
    qed
  qed
qed simp

lemma of_char_pos: "CHR 0x00 \<noteq> c \<Longrightarrow> 0 < (of_char c :: nat)"
  by (cases c) (auto simp: of_char_def)

lemma strcmp_0:
  "CHR 0x00 \<notin> set a \<Longrightarrow> CHR 0x00 \<notin> set b \<Longrightarrow> strcmp a b = 0 \<longleftrightarrow> a = b"
  by (induction a b rule: strcmp.induct) (auto simp: of_char_pos)

subsection \<open>Decimal conversion\<close>

fun digits :: "int \<Rightarrow> string \<Rightarrow> int \<times> string" where
  "digits acc [] = (acc, [])"
| "digits acc (c # cs) =
     (if isdigit_c c then digits (10 * acc + digit_val c) cs else (acc, c # cs))"

definition strip_sign :: "string \<Rightarrow> bool \<times> string" where
  "strip_sign s = (case s of
       [] \<Rightarrow> (False, [])
     | c # cs \<Rightarrow> if c = CHR ''-'' then (True, cs) else if c = CHR ''+'' then (False, cs) else (False, s))"

text \<open>
  \<open>strtol(s, &e, 10)\<close> before the result is fitted to the machine type: the value and the rest of
  the string \<open>e\<close> points to; \<open>None\<close> when there is no digit to convert (the library then returns 0
  and leaves \<open>e = s\<close>).
\<close>

definition strtol10 :: "string \<Rightarrow> (int \<times> string) option" where
  "strtol10 s = (case strip_sign (dropWhile isspace_c s) of (neg, t) \<Rightarrow>
     (case t of [] \<Rightarrow> None
      | c # _ \<Rightarrow> if isdigit_c c
                then (case digits 0 t of (v, r) \<Rightarrow> Some (if neg then - v else v, r))
                else None))"

text \<open>\<open>long\<close> and \<open>int\<close> are 32 bits wide (the tools are built with \<open>-m32\<close>): out-of-range values saturate.\<close>

definition clamp32 :: "int \<Rightarrow> int" where
  "clamp32 v = max (- (2 ^ 31)) (min (2 ^ 31 - 1) v)"

definition clamp64 :: "int \<Rightarrow> int" where
  "clamp64 v = max (- (2 ^ 63)) (min (2 ^ 63 - 1) v)"

definition atoi :: "string \<Rightarrow> int" where
  "atoi s = (case strtol10 s of None \<Rightarrow> 0 | Some (v, _) \<Rightarrow> clamp32 v)"

definition sscanf_d :: "string \<Rightarrow> int option" where
  "sscanf_d s = map_option (\<lambda>(v, _). clamp32 v) (strtol10 s)"

lemma clamp32_bounds: "- (2 ^ 31) \<le> clamp32 v \<and> clamp32 v < 2 ^ 31"
  by (simp add: clamp32_def)

lemma clamp32_id: "- (2 ^ 31) \<le> v \<Longrightarrow> v < 2 ^ 31 \<Longrightarrow> clamp32 v = v"
  by (simp add: clamp32_def)

lemma digits_append:
  "\<forall>c \<in> set ds. isdigit_c c \<Longrightarrow> digits acc (ds @ r) = digits (fst (digits acc ds)) r"
  by (induction ds arbitrary: acc) auto

lemma digits_nonneg: "0 \<le> acc \<Longrightarrow> 0 \<le> fst (digits acc s)"
  by (induction s arbitrary: acc) (auto simp: isdigit_c_def digit_val_def)

subsection \<open>Printing\<close>

text \<open>\<open>printf("%d")\<close> and \<open>printf("%lld")\<close>: the decimal numeral of an integer.\<close>

definition digit_char :: "nat \<Rightarrow> char" where
  "digit_char d = char_of (48 + d)"

fun show_nat :: "nat \<Rightarrow> string" where
  "show_nat n = (if n < 10 then [digit_char n] else show_nat (n div 10) @ [digit_char (n mod 10)])"

declare show_nat.simps [simp del]

definition show_int :: "int \<Rightarrow> string" where
  "show_int i = (if i < 0 then CHR ''-'' # show_nat (nat (- i)) else show_nat (nat i))"

lemma digit_char_simps:
  "d < 10 \<Longrightarrow> isdigit_c (digit_char d)" "d < 10 \<Longrightarrow> digit_val (digit_char d) = int d"
  by (simp_all add: isdigit_c_def digit_char_def digit_val_def)

lemma digit_chars:
  "map digit_char [0, 1, 2, 3, 4, 5, 6, 7, 8, 9] = ''0123456789''"
  by code_simp

lemma isdigit_not_special: "isdigit_c c \<Longrightarrow> \<not> isspace_c c \<and> c \<noteq> CHR ''-'' \<and> c \<noteq> CHR ''+''"
  by (auto simp: isdigit_c_def isspace_c_def)

lemma show_nat_digits: "show_nat n \<noteq> [] \<and> (\<forall>c\<in>set (show_nat n). isdigit_c c)"
proof (induction n rule: show_nat.induct)
  case (1 n)
  then show ?case by (cases "n < 10") (auto simp: show_nat.simps [of n] digit_char_simps)
qed

lemma digits_snoc:
  "\<forall>c\<in>set ds. isdigit_c c \<Longrightarrow> isdigit_c c \<Longrightarrow> digits acc (ds @ [c]) = (10 * fst (digits acc ds) + digit_val c, [])"
  by (induction ds arbitrary: acc) auto

lemma digits_show_nat: "digits 0 (show_nat n) = (int n, [])"
proof (induction n rule: show_nat.induct)
  case (1 n)
  show ?case
  proof (cases "n < 10")
    case True
    then show ?thesis by (subst show_nat.simps) (simp add: digit_char_simps)
  next
    case False
    then show ?thesis
      using 1 show_nat_digits [of "n div 10"]
      by (subst show_nat.simps) (simp add: digits_snoc digit_char_simps zdiv_int zmod_int)
  qed
qed

lemma strtol10_show_int: "strtol10 (show_int i) = Some (i, [])"
proof -
  have nat: "case show_nat n of [] \<Rightarrow> False | c # _ \<Rightarrow> isdigit_c c" for n
    using show_nat_digits [of n] by (cases "show_nat n") auto
  have neg: "\<not> isspace_c CHR ''-''" by (simp add: isspace_c_def)
  show ?thesis
  proof (cases "i < 0")
    case True
    then show ?thesis
      using nat [of "nat (- i)"] digits_show_nat [of "nat (- i)"] neg
      by (auto simp: strtol10_def show_int_def strip_sign_def split: list.splits)
  next
    case False
    obtain c cs where c: "show_nat (nat i) = c # cs" "isdigit_c c"
      using nat [of "nat i"] by (auto split: list.splits)
    with False isdigit_not_special [OF c(2)] digits_show_nat [of "nat i"] show ?thesis
      by (simp add: strtol10_def show_int_def strip_sign_def)
  qed
qed

text \<open>Two's complement at 64 bits.\<close>

definition wrap64 :: "int \<Rightarrow> int" where
  "wrap64 v = (v + 2 ^ 63) mod 2 ^ 64 - 2 ^ 63"

definition in64 :: "int \<Rightarrow> bool" where
  "in64 v \<longleftrightarrow> - (2 ^ 63) \<le> v \<and> v < 2 ^ 63"

lemma in64_wrap64 [simp]: "in64 (wrap64 v)"
  by (simp add: in64_def wrap64_def pos_mod_bound [of "2 ^ 64 :: int" "v + 2 ^ 63", simplified])

lemma wrap64_id: "in64 v \<Longrightarrow> wrap64 v = v"
  by (simp add: in64_def wrap64_def)

lemma in64_clamp64 [simp]: "in64 (clamp64 v)"
  by (simp add: in64_def clamp64_def)

lemma clamp64_id: "in64 v \<Longrightarrow> clamp64 v = v"
  by (simp add: in64_def clamp64_def)

end
