(* ===== verification/Posix.thy ===== *)
theory Posix
  imports CString
begin

text \<open>
  The system interface the flashing tools run on: one block device (the eMMC, 
  \<open>/dev/mmcblk0\<close>), plain files, and the calls \<open>open\<close>, \<open>lseek\<close>, \<open>read\<close>, \<open>write\<close>, \<open>close\<close>.
  Every call that the kernel may refuse asks the environment for its outcome, so a theorem that
  does not restrict \<open>env\<close> holds for every pattern of failures and short transfers.
\<close>

subsection \<open>Programs\<close>

text \<open>
  A run ends with a value, leaves the process through \<open>exit\<close> or \<open>abort\<close>, or does something
  the C standard leaves undefined (reported as a fault).
\<close>

datatype fault = OutOfBounds | DivByZero | NullDeref

datatype 'a run = Ret 'a | Exit int | Abort | Fault fault

datatype outcome = Ok | Fail | Short nat

text \<open>Programs over a state, with sequencing that stops at the first result that is not a value.\<close>

type_synonym ('a, 's) prog = "'s \<Rightarrow> 'a run \<times> 's"

definition ret :: "'a \<Rightarrow> ('a, 's) prog" where
  "ret x w = (Ret x, w)"

definition exit_with :: "int \<Rightarrow> ('a, 's) prog" where
  "exit_with c w = (Exit c, w)"

definition crash :: "fault \<Rightarrow> ('a, 's) prog" where
  "crash f w = (Fault f, w)"

definition bnd :: "('a, 's) prog \<Rightarrow> ('a \<Rightarrow> ('b, 's) prog) \<Rightarrow> ('b, 's) prog" where
  "bnd m k w = (case m w of
       (Ret x, w') \<Rightarrow> k x w'
     | (Exit c, w') \<Rightarrow> (Exit c, w')
     | (Abort, w') \<Rightarrow> (Abort, w')
     | (Fault f, w') \<Rightarrow> (Fault f, w'))"

record world =
  dev :: "byte list"
  env :: "nat \<Rightarrow> outcome"
  calls :: nat
  nfds :: nat
  files :: "string \<Rightarrow> byte list option"
  erase_size :: "byte list"
  osnib :: "byte list"

type_synonym 'a io = "('a, world) prog"

text \<open>Ask the environment how the next fallible call ends.\<close>

definition ask :: "outcome io" where
  "ask w = (Ret (env w (calls w)), w\<lparr>calls := Suc (calls w)\<rparr>)"

subsection \<open>Calls on the block device\<close>

text \<open>
  A descriptor is modelled by the file offset of its open file description; the world counts the
  descriptors that are open. \<open>None\<close> is the return value -1.
\<close>

definition open_fd :: "nat option io" where
  "open_fd = bnd ask (\<lambda>out. case out of
       Fail \<Rightarrow> ret None
     | _ \<Rightarrow> (\<lambda>w. (Ret (Some 0), w\<lparr>nfds := Suc (nfds w)\<rparr>)))"

definition close_fd :: "unit io" where
  "close_fd w = (Ret (), w\<lparr>nfds := nfds w - 1\<rparr>)"

text \<open>
  \<open>lseek(fd, off, SEEK_SET)\<close> on a block device accepts offsets from 0 to the device size and
  otherwise fails and leaves the offset where it was. The callers ignore its result, so only the
  new offset is returned.
\<close>

definition lseek_dev :: "nat \<Rightarrow> int \<Rightarrow> nat io" where
  "lseek_dev h off w =
     (Ret (if 0 \<le> off \<and> off \<le> int (length (dev w)) then nat off else h), w)"

text \<open>\<open>read\<close> returns the bytes it transferred (\<open>None\<close>: -1) and the advanced descriptor.\<close>

definition transfer :: "outcome \<Rightarrow> nat \<Rightarrow> nat" where
  "transfer out n = (case out of Short k \<Rightarrow> min k n | _ \<Rightarrow> n)"

definition read_dev :: "nat \<Rightarrow> nat \<Rightarrow> (byte list option \<times> nat) io" where
  "read_dev h n = bnd ask (\<lambda>out w.
     (case out of
        Fail \<Rightarrow> (Ret (None, h), w)
      | _ \<Rightarrow> (let bs = bslice h (transfer out n) (dev w)
              in (Ret (Some bs, h + length bs), w))))"

lemma transfer_le: "transfer out n \<le> n"
  by (simp add: transfer_def split: outcome.split)

text \<open>
  \<open>write\<close> returns the number of bytes it stored, -1 when it fails; a block device does not grow,
  so a transfer stops at its end and one that starts there fails (\<open>ENOSPC\<close>).
\<close>

definition write_dev :: "nat \<Rightarrow> byte list \<Rightarrow> (int \<times> nat) io" where
  "write_dev h bs = bnd ask (\<lambda>out w.
     (if out = Fail \<or> (bs \<noteq> [] \<and> length (dev w) \<le> h) then (Ret (-1, h), w)
      else (let n = transfer out (min (length bs) (length (dev w) - h))
            in (Ret (int n, h + n), w\<lparr>dev := blit h (take n bs) (dev w)\<rparr>))))"

subsection \<open>Plain files and the sysfs attribute\<close>

text \<open>
  \<open>fopen\<close>, \<open>fstat\<close>, \<open>calloc\<close> and \<open>fread\<close> as the tools use them to load a whole image: 
  the bytes of the file when all four succeed. A partly failed load tells how far it came, since the callers
  close the stream on some paths only.
\<close>

datatype load = NoOpen | NoStat | NoMem | ShortRead | Loaded "byte list"

definition load_file :: "string \<Rightarrow> load io" where
  "load_file path = bnd ask (\<lambda>o1 w. case (o1, files w path) of
       (Fail, _) \<Rightarrow> (Ret NoOpen, w)
     | (_, None) \<Rightarrow> (Ret NoOpen, w)
     | (_, Some bs) \<Rightarrow>
         bnd ask (\<lambda>o2. if o2 = Fail then ret NoStat
         else bnd ask (\<lambda>o3. if o3 = Fail then ret NoMem
         else bnd ask (\<lambda>o4. if o4 = Fail \<or> transfer o4 (length bs) < length bs then ret ShortRead
         else ret (Loaded bs)))) (w\<lparr>nfds := Suc (nfds w)\<rparr>))"

text \<open>\<open>read(fd, buf, n)\<close> on the sysfs attribute \<open>erase_size\<close> of the eMMC host.\<close>

definition read_erase_size :: "nat \<Rightarrow> byte list option io" where
  "read_erase_size n = bnd ask (\<lambda>out w.
     (Ret (if out = Fail then None else Some (take (transfer out n) (erase_size w))), w))"

subsection \<open>Reasoning about programs\<close>

named_theorems io_simps \<open>symbolic execution of programs\<close>

lemma bnd_ret [simp, io_simps]: "bnd (ret x) k w = k x w"
  by (simp add: bnd_def ret_def)

lemma bnd_exit [simp, io_simps]: "bnd (exit_with c) k w = (Exit c, w)"
  by (simp add: bnd_def exit_with_def)

lemma bnd_crash [simp, io_simps]: "bnd (crash f) k w = (Fault f, w)"
  by (simp add: bnd_def crash_def)

lemma bnd_assoc: "bnd (bnd m f) g = bnd m (\<lambda>x. bnd (f x) g)"
  by (rule ext) (simp add: bnd_def split: prod.split run.split)

lemma bnd_eq_Ret:
  "bnd m k w = (Ret y, w'') \<longleftrightarrow> (\<exists>x w'. m w = (Ret x, w') \<and> k x w' = (Ret y, w''))"
  by (auto simp: bnd_def split: prod.splits run.splits)

lemma ret_apply [io_simps]: "ret x w = (Ret x, w)"
  by (simp add: ret_def)

lemma exit_apply [io_simps]: "exit_with c w = (Exit c, w)"
  by (simp add: exit_with_def)

lemma crash_apply [io_simps]: "crash f w = (Fault f, w)"
  by (simp add: crash_def)

lemma bnd_Ret_step: "m w = (Ret x, w') \<Longrightarrow> bnd m k w = k x w'"
  by (simp add: bnd_def)

subsection \<open>A reliable environment\<close>

text \<open>The environment in which no call fails and every transfer is complete.\<close>

definition reliable :: "world \<Rightarrow> bool" where
  "reliable w \<longleftrightarrow> (\<forall>n. env w n = Ok)"

lemma reliable_update [simp]:
  "reliable (w\<lparr>dev := d\<rparr>) = reliable w"
  "reliable (w\<lparr>nfds := n\<rparr>) = reliable w" "reliable (w\<lparr>osnib := b\<rparr>) = reliable w"
  "reliable (w\<lparr>calls := c\<rparr>) = reliable w"
  by (simp_all add: reliable_def)

lemma reliable_env [simp]: "reliable w \<Longrightarrow> env w n = Ok"
  by (simp add: reliable_def)

lemma open_fd_reliable [io_simps]:
  "reliable w \<Longrightarrow> open_fd w = (Ret (Some 0), w\<lparr>calls := Suc (calls w), nfds := Suc (nfds w)\<rparr>)"
  by (simp add: open_fd_def bnd_def ask_def)

lemma close_fd_apply [io_simps]: "close_fd w = (Ret (), w\<lparr>nfds := nfds w - 1\<rparr>)"
  by (simp add: close_fd_def)

lemma lseek_dev_in [io_simps]:
  "0 \<le> off \<Longrightarrow> off \<le> int (length (dev w)) \<Longrightarrow> lseek_dev h off w = (Ret (nat off), w)"
  by (simp add: lseek_dev_def)

lemma lseek_dev_out [io_simps]:
  "\<not> (0 \<le> off \<and> off \<le> int (length (dev w))) \<Longrightarrow> lseek_dev h off w = (Ret h, w)"
  by (auto simp: lseek_dev_def)

lemma read_dev_reliable [io_simps]:
  "reliable w \<Longrightarrow> read_dev h n w =
    (Ret (Some (bslice h n (dev w)), h + min n (length (dev w) - h)), w\<lparr>calls := Suc (calls w)\<rparr>)"
  by (simp add: read_dev_def bnd_def ask_def transfer_def Let_def)

lemma write_dev_reliable [io_simps]:
  "reliable w \<Longrightarrow> bs \<noteq> [] \<Longrightarrow> h + length bs \<le> length (dev w) \<Longrightarrow>
    write_dev h bs w = (Ret (int (length bs), h + length bs), w\<lparr>calls := Suc (calls w), dev := blit h bs (dev w)\<rparr>)"
  by (cases bs) (auto simp: write_dev_def bnd_def ask_def transfer_def Let_def)

lemma load_file_reliable [io_simps]:
  "reliable w \<Longrightarrow> load_file path w = (case files w path of
       None \<Rightarrow> (Ret NoOpen, w\<lparr>calls := calls w + 1\<rparr>)
     | Some bs \<Rightarrow> (Ret (Loaded bs), w\<lparr>calls := calls w + 4, nfds := Suc (nfds w)\<rparr>))"
  by (simp add: load_file_def bnd_def ask_def transfer_def ret_def split: option.split)

lemma read_erase_size_reliable [io_simps]:
  "reliable w \<Longrightarrow> read_erase_size n w = (Ret (Some (take n (erase_size w))), w\<lparr>calls := Suc (calls w)\<rparr>)"
  by (simp add: read_erase_size_def bnd_def ask_def transfer_def)

subsection \<open>Relations that every program keeps\<close>

text \<open>
  A reflexive and transitive relation between the worlds before and after each device call relates
  the worlds before and after every program built from them, whatever the environment does.
\<close>

locale kept =
  fixes R :: "world \<Rightarrow> world \<Rightarrow> bool"
  assumes R_refl: "R w w"
    and R_trans: "R w v \<Longrightarrow> R v u \<Longrightarrow> R w u"
    and R_tick: "R w (w\<lparr>calls := c\<rparr>)"
    and R_nfds: "R w (w\<lparr>nfds := n\<rparr>)"
    and R_osnib: "R w (w\<lparr>osnib := b\<rparr>)"
    and R_dev: "h + length bs \<le> length (dev w) \<Longrightarrow> R w (w\<lparr>dev := blit h bs (dev w)\<rparr>)"
begin

definition keeps :: "'a io \<Rightarrow> bool" where
  "keeps m \<longleftrightarrow> (\<forall>w. R w (snd (m w)))"

named_theorems keeps_intros

lemma keepsD: "keeps m \<Longrightarrow> R w (snd (m w))"
  by (simp add: keeps_def)

lemma keeps_ret [keeps_intros]: "keeps (ret x)"
  by (simp add: keeps_def ret_def R_refl)

lemma keeps_exit [keeps_intros]: "keeps (exit_with c)"
  by (simp add: keeps_def exit_with_def R_refl)

lemma keeps_crash [keeps_intros]: "keeps (crash f)"
  by (simp add: keeps_def crash_def R_refl)

lemma keeps_bnd [keeps_intros]:
  assumes "keeps m" and "\<And>x. keeps (k x)"
  shows "keeps (bnd m k)"
  unfolding keeps_def
proof
  fix w
  have m: "R w (snd (m w))" using assms(1) by (rule keepsD)
  show "R w (snd (bnd m k w))"
  proof (cases "m w")
    case (Pair r v)
    with m have v: "R w v" by simp
    show ?thesis
    proof (cases r)
      case (Ret x)
      have "R v (snd (k x v))" using assms(2) by (rule keepsD)
      with v Pair Ret show ?thesis by (auto simp: bnd_def intro: R_trans)
    qed (use Pair v in \<open>auto simp: bnd_def\<close>)
  qed
qed

lemma keeps_ask [keeps_intros]: "keeps ask"
  by (simp add: keeps_def ask_def R_tick)

lemma keeps_if [keeps_intros]: "keeps a \<Longrightarrow> keeps b \<Longrightarrow> keeps (if c then a else b)"
  by simp

lemma keeps_case_option [keeps_intros]:
  "keeps m \<Longrightarrow> (\<And>x. keeps (k x)) \<Longrightarrow> keeps (case y of None \<Rightarrow> m | Some x \<Rightarrow> k x)"
  by (simp split: option.split)

lemma keeps_case_prod [keeps_intros]:
  "(\<And>x y. keeps (k x y)) \<Longrightarrow> keeps (case p of (x, y) \<Rightarrow> k x y)"
  by (simp split: prod.split)

lemma keeps_case_sum [keeps_intros]:
  "(\<And>x. keeps (k x)) \<Longrightarrow> (\<And>y. keeps (k' y)) \<Longrightarrow> keeps (case s of Inl x \<Rightarrow> k x | Inr y \<Rightarrow> k' y)"
  by (simp split: sum.split)

lemma keeps_case_load [keeps_intros]:
  "keeps m0 \<Longrightarrow> keeps m1 \<Longrightarrow> keeps m2 \<Longrightarrow> keeps m3 \<Longrightarrow> (\<And>bs. keeps (k bs)) \<Longrightarrow> keeps (case l of
    NoOpen \<Rightarrow> m0 | NoStat \<Rightarrow> m1 | NoMem \<Rightarrow> m2 | ShortRead \<Rightarrow> m3 | Loaded bs \<Rightarrow> k bs)"
  by (simp split: load.split)

lemma keeps_open [keeps_intros]: "keeps open_fd"
  unfolding open_fd_def
  by (intro keeps_intros) (auto simp: keeps_def R_nfds R_refl ret_def split: outcome.split)

lemma keeps_close [keeps_intros]: "keeps close_fd"
  by (simp add: keeps_def close_fd_def R_nfds)

lemma keeps_lseek [keeps_intros]: "keeps (lseek_dev h off)"
  by (simp add: keeps_def lseek_dev_def R_refl)

lemma keeps_read [keeps_intros]: "keeps (read_dev h n)"
  unfolding read_dev_def
  by (intro keeps_intros) (auto simp: keeps_def R_refl Let_def split: outcome.split)

lemma keeps_read_erase_size [keeps_intros]: "keeps (read_erase_size n)"
  unfolding read_erase_size_def
  by (intro keeps_intros) (auto simp: keeps_def R_refl)

lemma keeps_load_file [keeps_intros]: "keeps (load_file path)"
proof -
  have tail: "keeps (bnd ask (\<lambda>o2. if o2 = Fail then ret NoStat
         else bnd ask (\<lambda>o3. if o3 = Fail then ret NoMem
         else bnd ask (\<lambda>o4. if o4 = Fail \<or> transfer o4 (length bs) < length bs then ret ShortRead
         else ret (Loaded bs)))))" for bs
    by (intro keeps_intros)
  show ?thesis
    unfolding load_file_def
    by (intro keeps_intros)
      (auto simp: keeps_def R_refl split: outcome.split option.split
        intro: R_trans [OF R_nfds keepsD [OF tail]])
qed

lemma keeps_write [keeps_intros]: "keeps (write_dev h bs)"
  unfolding write_dev_def
proof (intro keeps_bnd keeps_ask)
  fix out
  have stored: "R w (w\<lparr>dev := blit h (take (transfer out (min (length bs) (length (dev w) - h))) bs) (dev w)\<rparr>)"
    if "bs \<noteq> [] \<longrightarrow> h < length (dev w)" for w
  proof (cases "bs = []")
    case True
    then show ?thesis by (simp add: R_refl)
  next
    case False
    with that have "h + length (take (transfer out (min (length bs) (length (dev w) - h))) bs) \<le> length (dev w)"
      using transfer_le [of out "min (length bs) (length (dev w) - h)"] by auto
    then show ?thesis by (rule R_dev)
  qed
  show "keeps (\<lambda>w. if out = Fail \<or> bs \<noteq> [] \<and> length (dev w) \<le> h then (Ret (- 1, h), w)
      else let n = transfer out (min (length bs) (length (dev w) - h))
           in (Ret (int n, h + n), w\<lparr>dev := blit h (take n bs) (dev w)\<rparr>))"
    by (auto simp: keeps_def Let_def R_refl intro!: stored)
qed

end

text \<open>Three such relations: the device keeps its size, the file system and the environment are constant.\<close>

definition same_size :: "world \<Rightarrow> world \<Rightarrow> bool" where
  "same_size w v \<longleftrightarrow> length (dev v) = length (dev w)"

definition same_files :: "world \<Rightarrow> world \<Rightarrow> bool" where
  "same_files w v \<longleftrightarrow> files v = files w \<and> env v = env w \<and> erase_size v = erase_size w"

interpretation size_kept: kept same_size
  by unfold_locales (simp_all add: same_size_def)

interpretation files_kept: kept same_files
  by unfold_locales (simp_all add: same_files_def)

subsection \<open>Descriptor accounting\<close>

text \<open>
  \<open>fd_spec a b m\<close>: started with \<open>a\<close> descriptors above some base, a run of \<open>m\<close> that returns leaves \<open>b\<close>
  of them open, whatever the environment does.
\<close>

definition fd_spec :: "nat \<Rightarrow> nat \<Rightarrow> 'a io \<Rightarrow> bool" where
  "fd_spec a b m \<longleftrightarrow> (\<forall>n w r w'. nfds w = n + a \<longrightarrow> m w = (Ret r, w') \<longrightarrow> nfds w' = n + b)"

named_theorems fd_intros \<open>descriptor accounting of programs\<close>

lemma fd_specD: "fd_spec a b m \<Longrightarrow> m w = (Ret r, w') \<Longrightarrow> nfds w = n + a \<Longrightarrow> nfds w' = n + b"
  unfolding fd_spec_def by blast

lemma fd_ret [fd_intros]: "fd_spec a a (ret x)"
  by (simp add: fd_spec_def ret_def)

lemma fd_exit [fd_intros]: "fd_spec a b (exit_with c)"
  by (simp add: fd_spec_def exit_with_def)

lemma fd_crash [fd_intros]: "fd_spec a b (crash f)"
  by (simp add: fd_spec_def crash_def)

lemma fd_bnd_count:
  assumes m: "\<And>w x v. m w = (Ret x, v) \<Longrightarrow> nfds v = nfds w + d x"
    and k: "\<And>x. fd_spec (a + d x) b (k x)"
  shows "fd_spec a b (bnd m k)"
  unfolding fd_spec_def bnd_eq_Ret
proof (intro allI impI, elim exE conjE)
  fix n w r w' x v
  assume n: "nfds w = n + a" and x: "m w = (Ret x, v)" and r: "k x v = (Ret r, w')"
  have "nfds v = n + (a + d x)" using m [OF x] n by simp
  with fd_specD [OF k r] show "nfds w' = n + b" by simp
qed

lemma fd_bnd:
  assumes "fd_spec a b m" and "\<And>x. fd_spec b c (k x)"
  shows "fd_spec a c (bnd m k)"
  unfolding fd_spec_def bnd_eq_Ret
proof (intro allI impI, elim exE conjE)
  fix n w r w' x v
  assume n: "nfds w = n + a" and x: "m w = (Ret x, v)" and r: "k x v = (Ret r, w')"
  have "nfds v = n + b" by (rule fd_specD [OF assms(1) x n])
  then show "nfds w' = n + c" by (rule fd_specD [OF assms(2) r])
qed

lemma fd_if [fd_intros]: "fd_spec a b m \<Longrightarrow> fd_spec a b m' \<Longrightarrow> fd_spec a b (if c then m else m')"
  by simp

lemma fd_bnd_if [fd_intros]:
  "fd_spec a b (bnd m k) \<Longrightarrow> fd_spec a b (bnd m' k) \<Longrightarrow> fd_spec a b (bnd (if c then m else m') k)"
  by simp

lemma fd_ask [fd_intros]: "(\<And>x. fd_spec a b (k x)) \<Longrightarrow> fd_spec a b (bnd ask k)"
  by (rule fd_bnd_count [where d = "\<lambda>_. 0"]) (auto simp: ask_def)

lemma fd_close_fd: "fd_spec (Suc a) a close_fd"
  by (auto simp: fd_spec_def close_fd_def)

lemmas fd_close [fd_intros] = fd_bnd [OF fd_close_fd]

lemma fd_lseek [fd_intros]: "(\<And>x. fd_spec a b (k x)) \<Longrightarrow> fd_spec a b (bnd (lseek_dev h off) k)"
  by (rule fd_bnd_count [where d = "\<lambda>_. 0"]) (auto simp: lseek_dev_def)

lemma fd_read [fd_intros]: "(\<And>x. fd_spec a b (k x)) \<Longrightarrow> fd_spec a b (bnd (read_dev h n) k)"
  by (rule fd_bnd_count [where d = "\<lambda>_. 0"])
    (auto simp: read_dev_def bnd_def ask_def Let_def split: outcome.splits)

lemma fd_write [fd_intros]: "(\<And>x. fd_spec a b (k x)) \<Longrightarrow> fd_spec a b (bnd (write_dev h bs) k)"
  by (rule fd_bnd_count [where d = "\<lambda>_. 0"])
    (auto simp: write_dev_def bnd_def ask_def Let_def split: if_splits)

lemma fd_read_erase_size [fd_intros]:
  "(\<And>x. fd_spec a b (k x)) \<Longrightarrow> fd_spec a b (bnd (read_erase_size n) k)"
  by (rule fd_bnd_count [where d = "\<lambda>_. 0"]) (auto simp: read_erase_size_def bnd_def ask_def)

lemma fd_case_option [fd_intros]:
  "fd_spec a b m \<Longrightarrow> (\<And>x. fd_spec a b (k x)) \<Longrightarrow> fd_spec a b (case y of None \<Rightarrow> m | Some x \<Rightarrow> k x)"
  by (simp split: option.split)

lemma fd_case_prod [fd_intros]:
  "(\<And>x y. fd_spec a b (k x y)) \<Longrightarrow> fd_spec a b (case p of (x, y) \<Rightarrow> k x y)"
  by (simp split: prod.split)

lemma fd_open [fd_intros]:
  assumes "fd_spec a b m" and "\<And>h. fd_spec (Suc a) b (k h)"
  shows "fd_spec a b (bnd open_fd (\<lambda>fd. case fd of None \<Rightarrow> m | Some h \<Rightarrow> k h))"
proof (rule fd_bnd_count [where d = "\<lambda>x. case x of None \<Rightarrow> 0 | Some _ \<Rightarrow> 1"])
  show "open_fd w = (Ret x, v) \<Longrightarrow> nfds v = nfds w + (case x of None \<Rightarrow> 0 | Some _ \<Rightarrow> 1)" for w x v
    by (cases "env w (calls w)") (auto simp: open_fd_def bnd_def ask_def ret_def)
qed (use assms in \<open>simp split: option.split\<close>)

lemma fd_load [fd_intros]:
  assumes "fd_spec a b m0" and "fd_spec (Suc a) b m1" and "fd_spec (Suc a) b m2"
    and "fd_spec (Suc a) b m3" and "\<And>bs. fd_spec (Suc a) b (k bs)"
  shows "fd_spec a b (bnd (load_file path) (\<lambda>l. case l of
    NoOpen \<Rightarrow> m0 | NoStat \<Rightarrow> m1 | NoMem \<Rightarrow> m2 | ShortRead \<Rightarrow> m3 | Loaded bs \<Rightarrow> k bs))"
proof (rule fd_bnd_count [where d = "\<lambda>l. if l = NoOpen then 0 else 1"])
  show "load_file path w = (Ret x, v) \<Longrightarrow> nfds v = nfds w + (if x = NoOpen then 0 else 1)" for w x v
    by (cases "env w (calls w)"; cases "files w path")
      (auto simp: load_file_def bnd_def ask_def ret_def split: if_splits)
qed (use assms in \<open>simp split: load.split\<close>)

end
