(* ===== verification/Osip_Layout.thy ===== *)
theory Osip_Layout
  imports Prelude
begin

text \<open>
  The structures of \<^verbatim>\<open>flash_stitched/manage_device.h\<close>: the operating system image identifier
  \<open>struct OSII\<close> and the operating system image profile \<open>struct OSIP_header\<close> with its seven
  identifiers, their object representations (little endian, no padding: every field is naturally
  aligned), and the constants of \<^verbatim>\<open>flash_stitched/osip.h\<close> that place them on the device.
\<close>

subsection \<open>Structures\<close>

record OSII =
  os_rev_minor :: u16
  os_rev_major :: u16
  logical_start_block :: u32
  ddr_load_address :: u32
  entery_point :: u32
  size_of_os_image :: u32
  attribute :: u8
  reserved :: "u8 list"

record OSIP_header =
  sig :: u32
  intel_reserved :: u8
  header_rev_minor :: u8
  header_rev_major :: u8
  header_checksum :: u8
  num_pointers :: u8
  num_images :: u8
  header_size :: u16
  hdr_reserved :: "u32 list"
  desc :: "OSII list"

subsection \<open>Constants of osip.h\<close>

definition BACKUP_LOC :: nat where [layout_defs]: "BACKUP_LOC = 0xE0"
definition OSIP_PREAMBLE :: nat where [layout_defs]: "OSIP_PREAMBLE = 0x20"
definition OSIP_SIG :: u32 where "OSIP_SIG = 0x24534f24"
definition POS :: int where "POS = 1"
definition OSII_TOTAL :: nat where [layout_defs]: "OSII_TOTAL = 7"
definition STITCHED_IMAGE_PAGE_SIZE :: nat where [layout_defs]: "STITCHED_IMAGE_PAGE_SIZE = 512"
definition STITCHED_IMAGE_BLOCK_SIZE :: nat where [layout_defs]: "STITCHED_IMAGE_BLOCK_SIZE = 512"
definition RR_SIGNED_MOS :: byte where "RR_SIGNED_MOS = 0"

definition sizeof_OSII :: nat where [layout_defs]: "sizeof_OSII = 24"
definition sizeof_OSIP :: nat where [layout_defs]: "sizeof_OSIP = 200"

subsection \<open>Object representations\<close>

definition wf_OSII :: "OSII \<Rightarrow> bool" where
  "wf_OSII r \<longleftrightarrow> length (reserved r) = 3"

definition enc_OSII :: "OSII \<Rightarrow> byte list" where
  "enc_OSII r = le_bytes 2 (os_rev_minor r) @ le_bytes 2 (os_rev_major r)
     @ le_bytes 4 (logical_start_block r) @ le_bytes 4 (ddr_load_address r)
     @ le_bytes 4 (entery_point r) @ le_bytes 4 (size_of_os_image r)
     @ [attribute r] @ reserved r"

definition dec_OSII :: "byte list \<Rightarrow> OSII" where
  "dec_OSII bs = \<lparr>os_rev_minor = le_word (bslice 0 2 bs), os_rev_major = le_word (bslice 2 2 bs),
     logical_start_block = le_word (bslice 4 4 bs), ddr_load_address = le_word (bslice 8 4 bs),
     entery_point = le_word (bslice 12 4 bs), size_of_os_image = le_word (bslice 16 4 bs),
     attribute = le_word (bslice 20 1 bs), reserved = bslice 21 3 bs\<rparr>"

definition wf_OSIP :: "OSIP_header \<Rightarrow> bool" where
  "wf_OSIP h \<longleftrightarrow> length (hdr_reserved h) = 5 \<and> length (desc h) = OSII_TOTAL \<and> list_all wf_OSII (desc h)"

definition enc_pre :: "OSIP_header \<Rightarrow> byte list" where
  "enc_pre h = le_bytes 4 (sig h) @ [intel_reserved h, header_rev_minor h, header_rev_major h,
     header_checksum h, num_pointers h, num_images h] @ le_bytes 2 (header_size h)
     @ concat (map (le_bytes 4) (hdr_reserved h))"

definition enc_OSIP :: "OSIP_header \<Rightarrow> byte list" where
  "enc_OSIP h = enc_pre h @ concat (map enc_OSII (desc h))"

definition dec_OSIP :: "byte list \<Rightarrow> OSIP_header" where
  "dec_OSIP bs = \<lparr>sig = le_word (bslice 0 4 bs), intel_reserved = le_word (bslice 4 1 bs),
     header_rev_minor = le_word (bslice 5 1 bs), header_rev_major = le_word (bslice 6 1 bs),
     header_checksum = le_word (bslice 7 1 bs), num_pointers = le_word (bslice 8 1 bs),
     num_images = le_word (bslice 9 1 bs), header_size = le_word (bslice 10 2 bs),
     hdr_reserved = map (\<lambda>i. le_word (bslice (12 + 4 * i) 4 bs)) [0..<5],
     desc = map (\<lambda>i. dec_OSII (bslice (32 + 24 * i) 24 bs)) [0..<7]\<rparr>"

text \<open>The image of \<open>memset(&osip, 0, sizeof(osip))\<close>, and of \<open>memset\<close> with another byte.\<close>

definition memset_OSIP :: "byte \<Rightarrow> OSIP_header" where
  "memset_OSIP b = dec_OSIP (replicate sizeof_OSIP b)"

definition memset_OSII :: "byte \<Rightarrow> OSII" where
  "memset_OSII b = dec_OSII (replicate sizeof_OSII b)"

subsection \<open>Round trips\<close>

lemma le_word_single [simp]: "le_word [b] = (b :: byte)"
  by simp

lemma length_enc_OSII [simp]: "wf_OSII r \<Longrightarrow> length (enc_OSII r) = 24"
  by (simp add: enc_OSII_def wf_OSII_def)

lemma wf_dec_OSII [simp]: "length bs = 24 \<Longrightarrow> wf_OSII (dec_OSII bs)"
  by (simp add: dec_OSII_def wf_OSII_def)

lemma dec_enc_OSII: "wf_OSII r \<Longrightarrow> dec_OSII (enc_OSII r) = r"
  by (simp add: dec_OSII_def enc_OSII_def wf_OSII_def bslice_def)

lemma le_bytes_bslice:
  "8 * n \<le> LENGTH('a) \<Longrightarrow> a + n \<le> length bs \<Longrightarrow>
    le_bytes n (le_word (bslice a n bs) :: 'a::len word) = bslice a n bs"
  by simp

lemma le_byte_Cons:
  "a < length bs \<Longrightarrow> (le_word (bslice a (Suc 0) bs) :: byte) # r = bslice a (Suc 0) bs @ r"
  by (simp add: bslice_def take_Suc_conv_app_nth Cons_nth_drop_Suc [symmetric])

lemmas bslice_collect = le_byte_Cons bslice_join bslice_join_append bslice_all

lemma enc_dec_OSII: "length bs = 24 \<Longrightarrow> enc_OSII (dec_OSII bs) = bs"
  unfolding enc_OSII_def dec_OSII_def
  by (simp add: bslice_collect)

interpretation osii: codec enc_OSII dec_OSII wf_OSII sizeof_OSII
  by unfold_locales (simp_all add: sizeof_OSII_def dec_enc_OSII enc_dec_OSII)

lemma bslice_concat_const:
  assumes "\<forall>x \<in> set xs. length (f x) = n" and "i < length xs"
  shows "bslice (n * i) n (concat (map f xs)) = f (xs ! i)"
  using assms
proof (induction xs arbitrary: i)
  case (Cons x xs)
  then show ?case
    by (cases i) (auto simp: bslice_def)
qed simp

lemma length_enc_pre [simp]: "wf_OSIP h \<Longrightarrow> length (enc_pre h) = 32"
  using length_concat_const [of "hdr_reserved h" "le_bytes 4" 4] by (simp add: enc_pre_def wf_OSIP_def)

lemma length_enc_desc: "wf_OSIP h \<Longrightarrow> length (concat (map enc_OSII (desc h))) = 168"
  using length_concat_const [of "desc h" enc_OSII 24] by (simp add: wf_OSIP_def list_all_iff layout_defs)

lemma length_enc_OSIP [simp]: "wf_OSIP h \<Longrightarrow> length (enc_OSIP h) = 200"
  by (simp add: enc_OSIP_def length_enc_desc)

lemma bslice_enc_desc:
  "wf_OSIP h \<Longrightarrow> i < 7 \<Longrightarrow> bslice (32 + 24 * i) 24 (enc_OSIP h) = enc_OSII (desc h ! i)"
  using bslice_concat_const [of "desc h" enc_OSII 24 i]
  by (simp add: enc_OSIP_def bslice_append_right wf_OSIP_def list_all_iff layout_defs)

lemma wf_dec_OSIP [simp]: "length bs = 200 \<Longrightarrow> wf_OSIP (dec_OSIP bs)"
  by (auto simp: dec_OSIP_def wf_OSIP_def layout_defs list_all_iff)

lemma dec_enc_pre:
  assumes "wf_OSIP h"
  shows "le_word (bslice 0 4 (enc_OSIP h)) = sig h"
    and "le_word (bslice 4 (Suc 0) (enc_OSIP h)) = intel_reserved h"
    and "le_word (bslice 5 (Suc 0) (enc_OSIP h)) = header_rev_minor h"
    and "le_word (bslice 6 (Suc 0) (enc_OSIP h)) = header_rev_major h"
    and "le_word (bslice 7 (Suc 0) (enc_OSIP h)) = header_checksum h"
    and "le_word (bslice 8 (Suc 0) (enc_OSIP h)) = num_pointers h"
    and "le_word (bslice 9 (Suc 0) (enc_OSIP h)) = num_images h"
    and "le_word (bslice 10 2 (enc_OSIP h)) = header_size h"
    and "i < 5 \<Longrightarrow> le_word (bslice (12 + 4 * i) 4 (enc_OSIP h)) = hdr_reserved h ! i"
proof -
  have len: "length (hdr_reserved h) = 5" using assms by (simp add: wf_OSIP_def)
  show "i < 5 \<Longrightarrow> le_word (bslice (12 + 4 * i) 4 (enc_OSIP h)) = hdr_reserved h ! i"
    using bslice_concat_const [of "hdr_reserved h" "le_bytes 4" 4 i] len
      length_concat_const [of "hdr_reserved h" "le_bytes 4" 4]
    by (simp add: enc_OSIP_def enc_pre_def buf_simps)
qed (simp_all add: enc_OSIP_def enc_pre_def bslice_def)

lemma dec_enc_OSIP: "wf_OSIP h \<Longrightarrow> dec_OSIP (enc_OSIP h) = h"
proof -
  assume wf: "wf_OSIP h"
  have "map (\<lambda>i. dec_OSII (bslice (32 + 24 * i) 24 (enc_OSIP h))) [0..<7] = desc h"
    using wf by (intro nth_equalityI) (auto simp: wf_OSIP_def bslice_enc_desc wf list_all_length layout_defs dec_enc_OSII)
  moreover have "map (\<lambda>i. le_word (bslice (12 + 4 * i) 4 (enc_OSIP h))) [0..<5] = hdr_reserved h"
    using wf by (intro nth_equalityI) (auto simp: wf_OSIP_def dec_enc_pre(9) wf)
  ultimately show ?thesis
    unfolding dec_OSIP_def using wf by (simp add: dec_enc_pre)
qed

lemma concat_bslices:
  "off + n * k \<le> length bs \<Longrightarrow>
    concat (map (\<lambda>i. bslice (off + n * i) n bs) [0..<k]) = bslice off (n * k) bs"
proof (induction k)
  case (Suc k)
  then show ?case by (simp add: bslice_join algebra_simps)
qed simp

lemma enc_dec_OSIP: "length bs = 200 \<Longrightarrow> enc_OSIP (dec_OSIP bs) = bs"
proof -
  assume len: "length bs = 200"
  have "map enc_OSII (desc (dec_OSIP bs)) = map (\<lambda>i. bslice (32 + 24 * i) 24 bs) [0..<7]"
    using len by (auto simp: dec_OSIP_def enc_dec_OSII)
  then have "concat (map enc_OSII (desc (dec_OSIP bs))) = bslice 32 168 bs"
    using concat_bslices [of 32 24 7 bs] len by simp
  moreover have "map (le_bytes 4) (hdr_reserved (dec_OSIP bs)) = map (\<lambda>i. bslice (12 + 4 * i) 4 bs) [0..<5]"
    using len by (auto simp: dec_OSIP_def)
  then have "concat (map (le_bytes 4) (hdr_reserved (dec_OSIP bs))) = bslice 12 20 bs"
    using concat_bslices [of 12 4 5 bs] len by simp
  ultimately show ?thesis
    using len unfolding enc_OSIP_def enc_pre_def
    by (simp add: dec_OSIP_def [of bs] bslice_collect del: map_map)
qed

interpretation osip: codec enc_OSIP dec_OSIP wf_OSIP sizeof_OSIP
  by unfold_locales (simp_all add: sizeof_OSIP_def dec_enc_OSIP enc_dec_OSIP)

end
