(* ===== verification/Manage_Device.thy ===== *)
theory Manage_Device
  imports Posix Osip_Layout
begin

text \<open>
  \<^verbatim>\<open>flash_stitched/manage_device.c\<close>: reading and writing the OSIP header of the eMMC, cracking a
  stitched image, invalidating and restoring the payload record, and flashing a payload image.
  Diagnostic output is not part of the state; the memory that the dumps read is, since reading past a
  structure is a fault.
\<close>

subsection \<open>Page and block size\<close>

definition KBYTES :: int where "KBYTES = 1024"
definition PAYLOAD_OSII_REC :: nat where "PAYLOAD_OSII_REC = 0"
definition POS_OSII_REC :: nat where "POS_OSII_REC = 1"
definition MMC_PAGES_PER_BLOCK :: int where "MMC_PAGES_PER_BLOCK = 1"

text \<open>A fixed-size buffer cleared by \<open>memset\<close> and then filled by a read that may be short.\<close>

definition overlay :: "nat \<Rightarrow> byte list \<Rightarrow> byte list" where
  "overlay n bs = bs @ replicate (n - length bs) 0"

definition get_page_size :: "int io" where
  "get_page_size = bnd open_fd (\<lambda>fd. case fd of None \<Rightarrow> ret (-1) | Some _ \<Rightarrow>
     bnd (read_erase_size 16) (\<lambda>r. case r of
       None \<Rightarrow> bnd close_fd (\<lambda>_. ret (-1))
     | Some bs \<Rightarrow>
         (let buf = overlay 16 bs in
          if 0 \<notin> set buf then crash OutOfBounds
          else (case sscanf_d (cstr buf) of
              None \<Rightarrow> bnd close_fd (\<lambda>_. ret (-1))
            | Some mmc_page_size \<Rightarrow> bnd close_fd (\<lambda>_. ret (tdiv mmc_page_size KBYTES))))))"

definition get_block_size :: "int io" where
  "get_block_size = bnd get_page_size (\<lambda>mmc_page_size. ret (mmc_page_size * MMC_PAGES_PER_BLOCK))"

subsection \<open>Dumps\<close>

fun dump_descs :: "OSII list \<Rightarrow> nat list \<Rightarrow> unit io" where
  "dump_descs ds [] = ret ()"
| "dump_descs ds (i # is) = (if i < length ds then dump_descs ds is else crash OutOfBounds)"

definition dump_osip_header :: "OSIP_header \<Rightarrow> unit io" where
  "dump_osip_header osip = dump_descs (desc osip) [0..<unat (num_pointers osip)]"

text \<open>The offset passed to \<open>lseek\<close>: an unsigned product converted to the 32-bit signed \<open>off_t\<close>.\<close>

definition dev_offset :: "u32 \<Rightarrow> int \<Rightarrow> int" where
  "dev_offset lba block = sint (lba * word_of_int block)"

definition DUMP_BUFFER :: nat where "DUMP_BUFFER = 8192 + 1024"

fun dump_pages :: "u32 \<Rightarrow> int \<Rightarrow> int \<Rightarrow> nat \<Rightarrow> unit io" where
  "dump_pages lba blocksize pagesize 0 = ret ()"
| "dump_pages lba blocksize pagesize (Suc n) =
     bnd open_fd (\<lambda>fd. case fd of None \<Rightarrow> ret () | Some h \<Rightarrow>
     bnd (lseek_dev h (dev_offset lba blocksize)) (\<lambda>h.
     bnd (read_dev h DUMP_BUFFER) (\<lambda>(r, _).
       if (case r of None \<Rightarrow> False | Some bs \<Rightarrow> length bs < DUMP_BUFFER)
       then bnd close_fd (\<lambda>_. ret ())
       else bnd close_fd (\<lambda>_.
         if int DUMP_BUFFER < tdiv pagesize 16 * 16 then crash OutOfBounds
         else dump_pages lba blocksize pagesize n))))"

definition dump_OS_page :: "OSIP_header \<Rightarrow> nat \<Rightarrow> nat \<Rightarrow> unit io" where
  "dump_OS_page osip os_index numpages =
     bnd get_page_size (\<lambda>pagesize. bnd get_block_size (\<lambda>blocksize.
       if os_index < length (desc osip)
       then dump_pages (logical_start_block (desc osip ! os_index)) blocksize pagesize numpages
       else crash OutOfBounds))"

subsection \<open>The OSIP header on the device\<close>

text \<open>The header structure is the callee's out-parameter: it is returned beside the result.\<close>

definition read_OSIP :: "(int \<times> OSIP_header) io" where
  "read_OSIP = bnd get_block_size (\<lambda>_. bnd open_fd (\<lambda>fd. case fd of
       None \<Rightarrow> ret (-1, memset_OSIP 0)
     | Some h \<Rightarrow> bnd (lseek_dev h 0) (\<lambda>h.
         bnd (read_dev h sizeof_OSIP) (\<lambda>(r, _). case r of
           None \<Rightarrow> bnd close_fd (\<lambda>_. ret (-1, memset_OSIP 0))
         | Some bs \<Rightarrow> bnd close_fd (\<lambda>_.
             (let osip = dec_OSIP (overlay sizeof_OSIP bs)
              in bnd (dump_osip_header osip) (\<lambda>_. ret (1, osip))))))))"

text \<open>The checksum loop reads \<open>header_size\<close> bytes of the structure, one at a time.\<close>

fun checksum_from :: "byte list \<Rightarrow> nat \<Rightarrow> byte \<Rightarrow> byte option" where
  "checksum_from buf 0 checksum = Some checksum"
| "checksum_from [] (Suc n) checksum = None"
| "checksum_from (b # buf) (Suc n) checksum = checksum_from buf n (checksum XOR b)"

definition write_OSIP :: "OSIP_header \<Rightarrow> (int \<times> OSIP_header) io" where
  "write_OSIP osip0 =
     (let osip1 = osip0\<lparr>header_checksum := 0\<rparr> in
      case checksum_from (enc_OSIP osip1) (unat (header_size osip1)) 0 of
        None \<Rightarrow> crash OutOfBounds
      | Some checksum \<Rightarrow>
         (let osip = osip1\<lparr>header_checksum := checksum\<rparr> in
          bnd get_block_size (\<lambda>_. bnd open_fd (\<lambda>fd. case fd of
            None \<Rightarrow> ret (-1, osip)
          | Some h \<Rightarrow> bnd (lseek_dev h 0) (\<lambda>h.
              bnd (write_dev h (enc_OSIP osip)) (\<lambda>(n, _).
                if n < 0 then bnd close_fd (\<lambda>_. ret (-1, osip))
                else bnd close_fd (\<lambda>_. bnd (dump_osip_header osip) (\<lambda>_. ret (1, osip)))))))))"

subsection \<open>Cracking a stitched image\<close>

text \<open>
  The image is a byte buffer (\<open>None\<close>: a null pointer); the two out-pointers are offsets into it:
  the first identifier of the header and the blob behind the first block.
\<close>

definition crack_stitched_image :: "byte list option \<Rightarrow> (nat \<times> nat) option io" where
  "crack_stitched_image data = (case data of
       None \<Rightarrow> ret None
     | Some bs \<Rightarrow>
         if length bs \<le> 9 then crash OutOfBounds
         else if bs ! 9 \<noteq> 1 then ret None
         else ret (Some (OSIP_PREAMBLE, STITCHED_IMAGE_BLOCK_SIZE)))"

subsection \<open>Invalidating and restoring the payload record\<close>

definition invalidate_OSII :: "OSII \<Rightarrow> OSII" where
  "invalidate_OSII r = (memset_OSII 0)\<lparr>logical_start_block := logical_start_block r,
     size_of_os_image := size_of_os_image r, attribute := attribute r\<rparr>"

definition invalidate_osip_record :: "nat \<Rightarrow> int io" where
  "invalidate_osip_record i = bnd read_OSIP (\<lambda>(r, osip).
     if r < 0 then ret (-1)
     else if OSII_TOTAL \<le> i then crash OutOfBounds
     else bnd (write_OSIP (osip\<lparr>desc := (desc osip)[i := invalidate_OSII (desc osip ! i)]\<rparr>)) (\<lambda>(r, _).
       if r < 0 then ret (-1) else ret 0))"

definition invalidate_payload_osip_record :: "int io" where
  "invalidate_payload_osip_record = invalidate_osip_record PAYLOAD_OSII_REC"

definition restore_payload_osip_record :: "int io" where
  "restore_payload_osip_record = bnd read_OSIP (\<lambda>(r, osip).
     if r < 0 then ret (-1)
     else (let payload = (desc osip ! PAYLOAD_OSII_REC)
              \<lparr>ddr_load_address := ddr_load_address (desc osip ! POS_OSII_REC),
               entery_point := entery_point (desc osip ! POS_OSII_REC)\<rparr>
           in bnd (write_OSIP (osip\<lparr>desc := (desc osip)[PAYLOAD_OSII_REC := payload]\<rparr>)) (\<lambda>(r, _).
                if r < 0 then ret (-1) else ret 0)))"

subsection \<open>Flashing a payload image\<close>

text \<open>
  The result of \<open>write\<close> is compared with an unsigned sz, so it is converted first: -1 becomes
  the largest unsigned value.
\<close>

definition short_write :: "int \<Rightarrow> u32 \<Rightarrow> bool" where
  "short_write n sz \<longleftrightarrow> word_of_int n < sz"

definition write_blob :: "byte list \<Rightarrow> nat \<Rightarrow> u32 \<Rightarrow> u32 \<Rightarrow> int \<Rightarrow> int io" where
  "write_blob data blob sz lba block_size =
     bnd open_fd (\<lambda>fd. case fd of None \<Rightarrow> ret (-1) | Some h \<Rightarrow>
     bnd (lseek_dev h (dev_offset lba block_size)) (\<lambda>h.
       (let len = sz - of_nat STITCHED_IMAGE_BLOCK_SIZE in
        if length data < blob + unat len then crash OutOfBounds
        else bnd (write_dev h (bslice blob (unat len) data)) (\<lambda>(n, _).
          if short_write n len then bnd close_fd (\<lambda>_. ret (-1))
          else bnd close_fd (\<lambda>_. ret 0)))))"

definition write_payload_os_image :: "byte list \<Rightarrow> u32 \<Rightarrow> int io" where
  "write_payload_os_image data sz =
     bnd get_block_size (\<lambda>block_size. bnd get_page_size (\<lambda>page_size.
     if block_size < 0 then ret (-1) else
     bnd (crack_stitched_image (Some data)) (\<lambda>cracked. case cracked of None \<Rightarrow> ret (-1) | Some (rec, blob) \<Rightarrow>
     if length data < rec + 20 then crash OutOfBounds else
     (let osii = dec_OSII (bslice rec sizeof_OSII data) in
      if size_of_os_image osii * of_nat STITCHED_IMAGE_PAGE_SIZE \<noteq> sz - of_nat STITCHED_IMAGE_BLOCK_SIZE
      then ret (-1) else
      if length data < rec + sizeof_OSII then crash OutOfBounds else
      bnd read_OSIP (\<lambda>(r, osip). if r < 0 then ret (-1) else
      (let payload_lba = logical_start_block (desc osip ! PAYLOAD_OSII_REC);
           pos_lba = logical_start_block (desc osip ! POS_OSII_REC);
           pos = (desc osip ! POS_OSII_REC)\<lparr>logical_start_block := min payload_lba pos_lba\<rparr>;
           osii = osii\<lparr>logical_start_block := max payload_lba pos_lba\<rparr>
       in if page_size = 0 then crash DivByZero else
       (let osii = osii\<lparr>size_of_os_image :=
              (size_of_os_image osii * of_nat STITCHED_IMAGE_PAGE_SIZE) div word_of_int page_size\<rparr>;
            osip = osip\<lparr>num_images := 1, desc := (desc osip)[POS_OSII_REC := pos, PAYLOAD_OSII_REC := osii]\<rparr>
        in bnd (write_OSIP osip) (\<lambda>_.
           write_blob data blob sz (logical_start_block osii) block_size))))))))"

definition write_payload_os_image_file :: "string \<Rightarrow> int io" where
  "write_payload_os_image_file fwBinFile = bnd (load_file fwBinFile) (\<lambda>l. case l of
       NoOpen \<Rightarrow> ret (-1)
     | NoStat \<Rightarrow> bnd close_fd (\<lambda>_. ret (-1))
     | NoMem \<Rightarrow> bnd close_fd (\<lambda>_. ret (-1))
     | ShortRead \<Rightarrow> bnd close_fd (\<lambda>_. ret (-1))
     | Loaded fwFileData \<Rightarrow> write_payload_os_image fwFileData (of_nat (length fwFileData)))"

subsection \<open>The reads of the dumps\<close>

lemma dump_descs_upto:
  "dump_descs ds [i..<n] w = (if n \<le> length ds \<or> n \<le> i then (Ret (), w) else (Fault OutOfBounds, w))"
proof (induction "n - i" arbitrary: i)
  case 0
  then show ?case by (simp add: ret_def)
next
  case (Suc k)
  then have "[i..<n] = i # [Suc i..<n]" by (simp add: upt_conv_Cons)
  with Suc show ?case by (auto simp: crash_def)
qed

lemma dump_osip_header_apply [io_simps]:
  "wf_OSIP osip \<Longrightarrow> dump_osip_header osip w =
    (if unat (num_pointers osip) \<le> 7 then (Ret (), w) else (Fault OutOfBounds, w))"
  by (simp add: dump_osip_header_def dump_descs_upto wf_OSIP_def layout_defs)

subsection \<open>The checksum\<close>

lemma checksum_from_eq:
  "checksum_from buf n c = (if n \<le> length buf then Some (c XOR xor_sum (take n buf)) else None)"
  by (induction buf n c rule: checksum_from.induct) (auto simp: xor.assoc)

text \<open>The header as \<open>write_OSIP\<close> stores it: the checksum byte replaced by the computed one.\<close>

definition stamp :: "OSIP_header \<Rightarrow> OSIP_header" where
  "stamp osip = osip\<lparr>header_checksum :=
     xor_sum (take (unat (header_size osip)) (enc_OSIP (osip\<lparr>header_checksum := 0\<rparr>)))\<rparr>"

lemma stamp_simps [simp]:
  "sig (stamp h) = sig h" "desc (stamp h) = desc h" "num_images (stamp h) = num_images h"
  "num_pointers (stamp h) = num_pointers h" "header_size (stamp h) = header_size h"
  "wf_OSIP (stamp h) = wf_OSIP h"
  by (simp_all add: stamp_def wf_OSIP_def)

lemma stamp_stamp [simp]: "stamp (stamp h) = stamp h"
  by (simp add: stamp_def)

lemma enc_OSIP_checksum:
  "wf_OSIP h \<Longrightarrow> enc_OSIP (h\<lparr>header_checksum := c\<rparr>) = (enc_OSIP h)[7 := c]"
  by (simp add: enc_OSIP_def enc_pre_def list_update_append numeral_eq_Suc le_bytes_def)

lemma xor_cancel_left: "b XOR (b XOR y) = (y :: byte)"
  by (simp flip: xor.assoc)

lemma xor_sum_update:
  "i < length bs \<Longrightarrow> xor_sum (bs[i := c]) = xor_sum bs XOR (bs ! i) XOR c"
proof (induction bs arbitrary: i)
  case (Cons b bs)
  then show ?case
    by (cases i) (simp_all add: xor_cancel_left xor.assoc xor.commute xor.left_commute)
qed simp

lemma stamp_checksum_zero:
  assumes "wf_OSIP h" and "8 \<le> unat (header_size h)" and "unat (header_size h) \<le> 200"
  shows "xor_sum (take (unat (header_size h)) (enc_OSIP (stamp h))) = 0"
proof -
  let ?n = "unat (header_size h)"
  let ?z = "h\<lparr>header_checksum := 0\<rparr>"
  have wf: "wf_OSIP ?z" using assms(1) by (simp add: wf_OSIP_def)
  have "le_word (bslice 7 (Suc 0) (enc_OSIP ?z)) = (0 :: byte)"
    using dec_enc_pre(5) [OF wf] by simp
  then have z: "enc_OSIP ?z ! 7 = 0"
    using wf by (simp add: bslice_def take_Suc_conv_app_nth hd_drop_conv_nth)
  have "enc_OSIP (stamp h) = (enc_OSIP ?z)[7 := xor_sum (take ?n (enc_OSIP ?z))]"
    using enc_OSIP_checksum [OF wf, of "xor_sum (take ?n (enc_OSIP ?z))"] by (simp add: stamp_def)
  then have "take ?n (enc_OSIP (stamp h)) = (take ?n (enc_OSIP ?z))[7 := xor_sum (take ?n (enc_OSIP ?z))]"
    by (simp add: take_update_swap)
  then show ?thesis
    using assms wf z by (simp add: xor_sum_update)
qed

subsection \<open>Closed forms in a reliable environment\<close>

text \<open>
  The sysfs attribute is a zero-terminated string within the 16-byte buffer; then the page size is
  its decimal value in KiB (-1 when it does not start with a number).
\<close>

definition sysfs_ok :: "world \<Rightarrow> bool" where
  "sysfs_ok w \<longleftrightarrow> 0 \<in> set (overlay 16 (take 16 (erase_size w)))"

definition page_size_of :: "world \<Rightarrow> int" where
  "page_size_of w = (case sscanf_d (cstr (overlay 16 (take 16 (erase_size w)))) of
     None \<Rightarrow> -1 | Some v \<Rightarrow> tdiv v KBYTES)"

lemma sysfs_ok_update [simp]:
  "sysfs_ok (w\<lparr>dev := d\<rparr>) = sysfs_ok w" "sysfs_ok (w\<lparr>calls := c\<rparr>) = sysfs_ok w"
  "sysfs_ok (w\<lparr>nfds := n\<rparr>) = sysfs_ok w" "sysfs_ok (w\<lparr>osnib := b\<rparr>) = sysfs_ok w"
  "page_size_of (w\<lparr>dev := d\<rparr>) = page_size_of w" "page_size_of (w\<lparr>calls := c\<rparr>) = page_size_of w"
  "page_size_of (w\<lparr>nfds := n\<rparr>) = page_size_of w" "page_size_of (w\<lparr>osnib := b\<rparr>) = page_size_of w"
  by (simp_all add: sysfs_ok_def page_size_of_def)

lemma get_page_size_reliable [io_simps]:
  "reliable w \<Longrightarrow> sysfs_ok w \<Longrightarrow> get_page_size w = (Ret (page_size_of w), w\<lparr>calls := calls w + 2\<rparr>)"
  by (simp add: get_page_size_def bnd_def io_simps sysfs_ok_def page_size_of_def Let_def split: option.split)

lemma get_block_size_reliable [io_simps]:
  "reliable w \<Longrightarrow> sysfs_ok w \<Longrightarrow> get_block_size w = (Ret (page_size_of w), w\<lparr>calls := calls w + 2\<rparr>)"
  by (simp add: get_block_size_def bnd_def io_simps MMC_PAGES_PER_BLOCK_def)

lemma overlay_full [simp]: "length bs = n \<Longrightarrow> overlay n bs = bs"
  by (simp add: overlay_def)

text \<open>The header the device holds at its start, and the well-formedness it has as a decoded structure.\<close>

definition osip_at :: "nat \<Rightarrow> world \<Rightarrow> OSIP_header" where
  "osip_at off w = dec_OSIP (bslice off sizeof_OSIP (dev w))"

lemma wf_osip_at [simp]: "off + 200 \<le> length (dev w) \<Longrightarrow> wf_OSIP (osip_at off w)"
  by (simp add: osip_at_def layout_defs)

lemma osip_at_calls [simp]:
  "osip_at off (w\<lparr>calls := c\<rparr>) = osip_at off w" "osip_at off (w\<lparr>nfds := n\<rparr>) = osip_at off w"
  "osip_at off (w\<lparr>osnib := b\<rparr>) = osip_at off w"
  by (simp_all add: osip_at_def)

lemma add_4_Suc: "n + 4 = Suc (Suc (Suc (Suc n)))"
  by simp

lemma read_OSIP_reliable [io_simps]:
  assumes "reliable w" "sysfs_ok w" "200 \<le> length (dev w)"
  shows "read_OSIP w =
    (if unat (num_pointers (osip_at 0 w)) \<le> 7 then (Ret (1, osip_at 0 w), w\<lparr>calls := calls w + 4\<rparr>)
     else (Fault OutOfBounds, w\<lparr>calls := calls w + 4\<rparr>))"
proof -
  have "wf_OSIP (osip_at 0 w)" using assms by simp
  then show ?thesis
    using assms by (simp add: read_OSIP_def bnd_def io_simps osip_at_def layout_defs Let_def add_4_Suc)
qed

lemma write_OSIP_reliable [io_simps]:
  assumes "reliable w" "sysfs_ok w" "200 \<le> length (dev w)" "wf_OSIP h"
    and "unat (header_size h) \<le> 200"
  shows "write_OSIP h w =
    (if unat (num_pointers h) \<le> 7
     then (Ret (1, stamp h), w\<lparr>calls := calls w + 4, dev := blit 0 (enc_OSIP (stamp h)) (dev w)\<rparr>)
     else (Fault OutOfBounds, w\<lparr>calls := calls w + 4, dev := blit 0 (enc_OSIP (stamp h)) (dev w)\<rparr>))"
proof -
  have wf: "wf_OSIP (stamp h)" "wf_OSIP (h\<lparr>header_checksum := 0\<rparr>)"
    using assms by (simp, simp add: wf_OSIP_def)
  have ne: "enc_OSIP (stamp h) \<noteq> []"
    using wf(1) length_enc_OSIP by fastforce
  have "checksum_from (enc_OSIP (h\<lparr>header_checksum := 0\<rparr>)) (unat (header_size h)) 0 =
      Some (header_checksum (stamp h))"
    using assms wf by (simp add: checksum_from_eq stamp_def)
  moreover have "h\<lparr>header_checksum := header_checksum (stamp h)\<rparr> = stamp h"
    by (simp add: stamp_def)
  ultimately show ?thesis
    using assms wf ne by (simp add: write_OSIP_def bnd_def io_simps Let_def add_4_Suc)
qed

lemma write_OSIP_overrun:
  "wf_OSIP h \<Longrightarrow> 200 < unat (header_size h) \<Longrightarrow> write_OSIP h w = (Fault OutOfBounds, w)"
  using length_enc_OSIP [of "h\<lparr>header_checksum := 0\<rparr>"]
  by (simp add: write_OSIP_def checksum_from_eq wf_OSIP_def crash_def Let_def)

subsection \<open>Every environment: descriptors and device size\<close>

lemma fd_get_page_size: "fd_spec a a get_page_size"
  unfolding get_page_size_def Let_def by (intro fd_intros)

lemmas fd_get_page_size_bnd [fd_intros] = fd_bnd [OF fd_get_page_size]

lemma fd_get_block_size: "fd_spec a a get_block_size"
  unfolding get_block_size_def by (intro fd_intros)

lemmas fd_get_block_size_bnd [fd_intros] = fd_bnd [OF fd_get_block_size]

lemma fd_dump_osip_header: "fd_spec a a (dump_osip_header osip)"
proof -
  have "fd_spec a a (dump_descs ds is)" for ds "is"
    by (induction ds "is" rule: dump_descs.induct) (auto intro: fd_intros)
  then show ?thesis by (simp add: dump_osip_header_def)
qed

lemmas fd_dump_osip_header_bnd [fd_intros] = fd_bnd [OF fd_dump_osip_header]

lemma fd_read_OSIP: "fd_spec a a read_OSIP"
  unfolding read_OSIP_def Let_def by (intro fd_intros)

lemma fd_write_OSIP: "fd_spec a a (write_OSIP osip)"
  unfolding write_OSIP_def Let_def by (intro fd_intros)

lemmas fd_OSIP_bnd [fd_intros] = fd_bnd [OF fd_read_OSIP] fd_bnd [OF fd_write_OSIP]

lemma fd_crack: "fd_spec a a (crack_stitched_image data)"
  unfolding crack_stitched_image_def by (intro fd_intros)

lemmas fd_crack_bnd [fd_intros] = fd_bnd [OF fd_crack]

lemma fd_write_blob [fd_intros]: "fd_spec a a (write_blob data blob sz lba block_size)"
  unfolding write_blob_def Let_def by (intro fd_intros)

lemma fd_write_payload_os_image: "fd_spec a a (write_payload_os_image data sz)"
  unfolding write_payload_os_image_def Let_def by (intro fd_intros)

lemma fd_invalidate_osip_record: "fd_spec a a (invalidate_osip_record i)"
  unfolding invalidate_osip_record_def by (intro fd_intros)

lemma fd_restore_payload_osip_record: "fd_spec a a restore_payload_osip_record"
  unfolding restore_payload_osip_record_def Let_def by (intro fd_intros)

context kept
begin

lemma keeps_get_page_size [keeps_intros]: "keeps get_page_size"
  unfolding get_page_size_def Let_def by (intro keeps_intros)

lemma keeps_get_block_size [keeps_intros]: "keeps get_block_size"
  unfolding get_block_size_def by (intro keeps_intros)

lemma keeps_dump_osip_header [keeps_intros]: "keeps (dump_osip_header osip)"
proof -
  have "keeps (dump_descs ds is)" for ds "is"
    by (induction ds "is" rule: dump_descs.induct) (auto intro: keeps_intros)
  then show ?thesis by (simp add: dump_osip_header_def)
qed

lemma keeps_dump_OS_page: "keeps (dump_OS_page osip i n)"
proof -
  have "keeps (dump_pages lba blocksize pagesize n)" for lba blocksize pagesize
    by (induction n) (auto intro!: keeps_intros)
  then show ?thesis unfolding dump_OS_page_def by (intro keeps_intros)
qed

lemma keeps_read_OSIP [keeps_intros]: "keeps read_OSIP"
  unfolding read_OSIP_def Let_def by (intro keeps_intros)

lemma keeps_write_OSIP [keeps_intros]: "keeps (write_OSIP osip)"
  unfolding write_OSIP_def Let_def by (intro keeps_intros)

lemma keeps_crack [keeps_intros]: "keeps (crack_stitched_image data)"
  unfolding crack_stitched_image_def by (intro keeps_intros)

lemma keeps_write_blob [keeps_intros]: "keeps (write_blob data blob sz lba block_size)"
  unfolding write_blob_def Let_def by (intro keeps_intros)

lemma keeps_write_payload_os_image [keeps_intros]: "keeps (write_payload_os_image data sz)"
  unfolding write_payload_os_image_def Let_def by (intro keeps_intros)

lemma keeps_write_payload_os_image_file: "keeps (write_payload_os_image_file path)"
  unfolding write_payload_os_image_file_def by (intro keeps_intros)

lemma keeps_invalidate_osip_record: "keeps (invalidate_osip_record i)"
  unfolding invalidate_osip_record_def by (intro keeps_intros)

lemma keeps_restore_payload_osip_record: "keeps restore_payload_osip_record"
  unfolding restore_payload_osip_record_def Let_def by (intro keeps_intros)

end

end
