(* ===== verification/Samples.thy ===== *)
theory Samples
  imports Manage_Device
begin

text \<open>
  A small concrete device: a header with seven identifiers in the first sector, a backup area and
  three more sectors, in an environment where every call succeeds. The witnesses of the properties
  run on it.
\<close>

definition sample_OSII :: "u8 \<Rightarrow> u32 \<Rightarrow> OSII" where
  "sample_OSII a lba = \<lparr>os_rev_minor = 1, os_rev_major = 2, logical_start_block = lba,
     ddr_load_address = 0x1100000, entery_point = 0x1101000, size_of_os_image = 1, attribute = a,
     reserved = [0, 0, 0]\<rparr>"

definition sample_header :: OSIP_header where
  "sample_header = stamp \<lparr>sig = OSIP_SIG, intel_reserved = 0, header_rev_minor = 0, header_rev_major = 1,
     header_checksum = 0, num_pointers = 2, num_images = 1, header_size = 80,
     hdr_reserved = [0, 0, 0, 0, 0],
     desc = [sample_OSII 0 2, sample_OSII 1 3, sample_OSII 2 4, sample_OSII 3 0x400000,
       sample_OSII 4 0, sample_OSII 5 0, sample_OSII 6 0]\<rparr>"

definition sample_world :: "byte list \<Rightarrow> world" where
  "sample_world backup = \<lparr>dev = enc_OSIP sample_header @ replicate 24 0 @ backup @ replicate 1624 0,
     env = (\<lambda>_. Ok), calls = 0, nfds = 0, files = (\<lambda>_. None), erase_size = [53, 50, 52, 50, 56, 56, 10],
     osnib = []\<rparr>"

lemma sample_header_simps [simp]:
  "sig sample_header = OSIP_SIG" "num_pointers sample_header = 2" "header_size sample_header = 80"
  "num_images sample_header = 1" "wf_OSIP sample_header" "stamp sample_header = sample_header"
  "desc sample_header = [sample_OSII 0 2, sample_OSII 1 3, sample_OSII 2 4, sample_OSII 3 0x400000,
       sample_OSII 4 0, sample_OSII 5 0, sample_OSII 6 0]"
  unfolding sample_header_def stamp_stamp stamp_simps
  by (simp_all add: wf_OSIP_def wf_OSII_def sample_OSII_def layout_defs)

lemma sample_OSII_simps [simp]:
  "attribute (sample_OSII a lba) = a" "logical_start_block (sample_OSII a lba) = lba"
  "size_of_os_image (sample_OSII a lba) = 1"
  by (simp_all add: sample_OSII_def)

lemma sample_world_simps [simp]:
  "reliable (sample_world b)" "sysfs_ok (sample_world b)" "calls (sample_world b) = 0"
  "nfds (sample_world b) = 0" "osnib (sample_world b) = []" "page_size_of (sample_world b) = 512"
  "length b = 200 \<Longrightarrow> length (dev (sample_world b)) = 2048"
proof -
  have "sscanf_d (cstr (overlay 16 (take 16 [53, 50, 52, 50, 56, 56, 10]))) = Some 524288"
    by code_simp
  then show "page_size_of (sample_world b) = 512"
    by (simp add: page_size_of_def sample_world_def KBYTES_def tdiv_def)
qed (simp_all add: sample_world_def reliable_def sysfs_ok_def overlay_def)

lemma osip_at_sample [simp]:
  "length b = 200 \<Longrightarrow> osip_at 0 (sample_world b) = sample_header"
  "length b = 200 \<Longrightarrow> osip_at BACKUP_LOC (sample_world b) = dec_OSIP b"
  by (simp_all add: osip_at_def sample_world_def layout_defs bslice_append_left bslice_append_right
    bslice_all dec_enc_OSIP)

end
