(* ===== verification/Osip_Utils.thy ===== *)
theory Osip_Utils
  imports Samples
begin

text \<open>
  \<^verbatim>\<open>flash_stitched/osip_utils.c\<close>: the handlers behind the command line of \<open>update_osip\<close>. They keep a
  backup copy of the OSIP header in the first sector of the eMMC, update or invalidate
  identifiers, restore the backup, and flash a stitched image and verify it by reading it back.
\<close>

subsection \<open>Page and block size\<close>

definition MMC_PAGE_SIZE :: int where "MMC_PAGE_SIZE = 512"

definition osip_get_page_size :: int where
  "osip_get_page_size = MMC_PAGE_SIZE"

definition osip_get_block_size :: int where
  "osip_get_block_size = osip_get_page_size * MMC_PAGES_PER_BLOCK"

definition R_START :: int where "R_START = 0"
definition R_BCK :: int where "R_BCK = 1"

subsection \<open>Verifying a flashed image\<close>

text \<open>
  The loop over whole blocks either ends the function (\<open>Inl\<close>) or goes on with the descriptor and the
  rest of the image (\<open>Inr\<close>). A mismatch returns without closing the descriptor. The start block is an \<open>int\<close> here, so its product with 512 is a signed
  one; where it does not fit, C leaves the result open, and the model has the low 32 bits that a 32-bit multiplication leaves.
\<close>

fun check_blocks :: "nat \<Rightarrow> nat \<Rightarrow> byte list \<Rightarrow> (int + nat \<times> byte list) io" where
  "check_blocks 0 h blob = ret (Inr (h, blob))"
| "check_blocks (Suc n) h blob =
     bnd (read_dev h STITCHED_IMAGE_BLOCK_SIZE) (\<lambda>(r, h'). case r of
       None \<Rightarrow> bnd close_fd (\<lambda>_. ret (Inl (-1)))
     | Some buff \<Rightarrow>
         if length buff < STITCHED_IMAGE_BLOCK_SIZE then bnd close_fd (\<lambda>_. ret (Inl (-1)))
         else if length blob < STITCHED_IMAGE_BLOCK_SIZE then crash OutOfBounds
         else if take STITCHED_IMAGE_BLOCK_SIZE blob \<noteq> buff then ret (Inl (-1))
         else check_blocks n h' (drop STITCHED_IMAGE_BLOCK_SIZE blob))"

definition check_image_valid :: "u32 \<Rightarrow> byte list \<Rightarrow> u32 \<Rightarrow> int io" where
  "check_image_valid sz blob lba =
     (let block_num = int (unat sz div STITCHED_IMAGE_BLOCK_SIZE) - 1;
          residue_bytes = unat sz mod STITCHED_IMAGE_BLOCK_SIZE
      in bnd open_fd (\<lambda>fd. case fd of None \<Rightarrow> ret (-1) | Some h \<Rightarrow>
         bnd (lseek_dev h (dev_offset lba (int STITCHED_IMAGE_PAGE_SIZE))) (\<lambda>h.
         bnd (check_blocks (nat block_num) h blob) (\<lambda>res. case res of
           Inl code \<Rightarrow> ret code
         | Inr (h, blob) \<Rightarrow>
             if residue_bytes \<noteq> 0
             then bnd (read_dev h residue_bytes) (\<lambda>(r, _). case r of
                 None \<Rightarrow> bnd close_fd (\<lambda>_. ret (-1))
               | Some buff \<Rightarrow>
                   if length buff < residue_bytes then bnd close_fd (\<lambda>_. ret (-1))
                   else if length blob < residue_bytes then crash OutOfBounds
                   else if take residue_bytes blob \<noteq> buff then ret (-1)
                   else bnd close_fd (\<lambda>_. ret 0))
             else bnd close_fd (\<lambda>_. ret 0)))))"

subsection \<open>Reading a header\<close>

definition read_OSIP_loc :: "int \<Rightarrow> bool \<Rightarrow> (int \<times> OSIP_header) io" where
  "read_OSIP_loc location dump = bnd open_fd (\<lambda>fd. case fd of
       None \<Rightarrow> ret (-1, memset_OSIP 0)
     | Some h \<Rightarrow> bnd (lseek_dev h (if location \<noteq> 0 then int BACKUP_LOC else 0)) (\<lambda>h.
         bnd (read_dev h sizeof_OSIP) (\<lambda>(r, _). case r of
           None \<Rightarrow> bnd close_fd (\<lambda>_. ret (-1, memset_OSIP 0))
         | Some bs \<Rightarrow> bnd close_fd (\<lambda>_.
             (let osip = dec_OSIP (overlay sizeof_OSIP bs)
              in if dump \<and> sig osip = OSIP_SIG
                 then bnd (dump_osip_header osip) (\<lambda>_. ret (0, osip))
                 else ret (0, osip))))))"

subsection \<open>Entries\<close>

definition entry_offset :: "nat \<Rightarrow> int \<Rightarrow> int" where
  "entry_offset base update_number =
     sint (of_nat (base + OSIP_PREAMBLE) + of_nat sizeof_OSII * word_of_int update_number :: u32)"

definition write_OSII_entry :: "OSII \<Rightarrow> int \<Rightarrow> int \<Rightarrow> int io" where
  "write_OSII_entry upd_osii update_number location =
     bnd open_fd (\<lambda>fd. case fd of None \<Rightarrow> ret (-1) | Some h \<Rightarrow>
     bnd (if location = R_START then lseek_dev h (entry_offset 0 update_number)
          else lseek_dev h (entry_offset BACKUP_LOC update_number)) (\<lambda>h.
     bnd (write_dev h (enc_OSII upd_osii)) (\<lambda>(n, _).
       if n < 0 then bnd close_fd (\<lambda>_. ret (-1))
       else bnd close_fd (\<lambda>_. ret 0))))"

definition remove_backup_OSII :: "int \<Rightarrow> int io" where
  "remove_backup_OSII update_number =
     bnd open_fd (\<lambda>fd. case fd of None \<Rightarrow> ret (-1) | Some h \<Rightarrow>
     bnd (lseek_dev h (entry_offset BACKUP_LOC update_number)) (\<lambda>h.
     bnd (write_dev h (enc_OSII (memset_OSII 0xDD))) (\<lambda>(n, _).
       if n < 0 then bnd close_fd (\<lambda>_. ret (-1))
       else bnd close_fd (\<lambda>_. ret 0))))"

subsection \<open>Backup and restore\<close>

definition write_backup :: "OSIP_header \<Rightarrow> int io" where
  "write_backup osip =
     bnd open_fd (\<lambda>fd. case fd of None \<Rightarrow> ret (-1) | Some h \<Rightarrow>
     bnd (lseek_dev h (int BACKUP_LOC)) (\<lambda>h.
     bnd (write_dev h (enc_OSIP osip)) (\<lambda>(n, _).
       if n < 0 then bnd close_fd (\<lambda>_. ret (-1))
       else bnd close_fd (\<lambda>_. ret 0))))"

definition backup_handle :: "OSIP_header \<Rightarrow> int io" where
  "backup_handle osip = bnd (write_backup osip) (\<lambda>r.
     if r < 0 then ret (-1)
     else bnd (read_OSIP_loc R_BCK True) (\<lambda>_. ret 0))"

text \<open>
  The reboot reason goes to the SCU through an \<open>ioctl\<close> on the IPC device; the model logs
  the requests the driver receives.
\<close>

definition ioctl_write_rr :: "byte \<Rightarrow> unit io" where
  "ioctl_write_rr rbt_reason w = (Ret (), w\<lparr>osnib := osnib w @ [rbt_reason]\<rparr>)"

definition restore_handle :: "int io" where
  "restore_handle = bnd (read_OSIP_loc R_BCK True) (\<lambda>(r, bck_osip).
     if r < 0 then ret (-1)
     else if sig bck_osip \<noteq> OSIP_SIG then ret (-1)
     else bnd (write_OSIP bck_osip) (\<lambda>(r, _).
       if r < 0 then ret (-1)
       else bnd (write_backup (memset_OSIP 0)) (\<lambda>r.
         if r < 0 then ret (-1)
         else bnd open_fd (\<lambda>devfd. case devfd of
             None \<Rightarrow> ret 0
           | Some _ \<Rightarrow> bnd (ioctl_write_rr RR_SIGNED_MOS) (\<lambda>_. bnd close_fd (\<lambda>_. ret 0))))))"

definition restore_payload_osii_entry :: "int io" where
  "restore_payload_osii_entry = restore_handle"

subsection \<open>Update and invalidate\<close>

text \<open>A field of the request that is all ones leaves the field of the stored identifier as it is.\<close>

definition merge_OSII :: "OSII \<Rightarrow> OSII \<Rightarrow> OSII" where
  "merge_OSII osii upd_osii = upd_osii\<lparr>
     os_rev_major := (if os_rev_major osii \<noteq> 0xffff then os_rev_major osii else os_rev_major upd_osii),
     os_rev_minor := (if os_rev_minor osii \<noteq> 0xffff then os_rev_minor osii else os_rev_minor upd_osii),
     logical_start_block := (if logical_start_block osii \<noteq> 0xffffffff then logical_start_block osii
       else logical_start_block upd_osii),
     ddr_load_address := (if ddr_load_address osii \<noteq> 0xffffffff then ddr_load_address osii
       else ddr_load_address upd_osii),
     entery_point := (if entery_point osii \<noteq> 0xffffffff then entery_point osii else entery_point upd_osii),
     size_of_os_image := (if size_of_os_image osii \<noteq> 0xffffffff then size_of_os_image osii
       else size_of_os_image upd_osii),
     attribute := (if attribute osii \<noteq> 0xff then attribute osii else attribute upd_osii)\<rparr>"

text \<open>Access to \<open>desc[i]\<close> for a signed index.\<close>

definition in_desc :: "int \<Rightarrow> bool" where
  "in_desc i \<longleftrightarrow> 0 \<le> i \<and> i < int OSII_TOTAL"

definition update_handle :: "OSII \<Rightarrow> int \<Rightarrow> int io" where
  "update_handle osii update_number = bnd ask (\<lambda>malloc.
     if malloc = Fail then crash NullDeref
     else bnd (read_OSIP_loc R_START False) (\<lambda>(_, osip).
     if \<not> in_desc update_number then crash OutOfBounds
     else (let i = nat update_number;
               upd_osii = merge_OSII osii (desc osip ! i)
           in bnd (write_OSIP (osip\<lparr>desc := (desc osip)[i := upd_osii]\<rparr>)) (\<lambda>(r, _).
              if r < 0 then ret (-1)
              else bnd (read_OSIP_loc R_START True) (\<lambda>_. ret 0)))))"

text \<open>The first identifier with the attribute, if any.\<close>

fun find_attribute :: "OSII list \<Rightarrow> int \<Rightarrow> nat option" where
  "find_attribute [] v = None"
| "find_attribute (d # ds) v =
     (if v = uint (attribute d) then Some 0 else map_option Suc (find_attribute ds v))"

fun invalidate_values :: "int list \<Rightarrow> OSII list \<Rightarrow> OSII list option" where
  "invalidate_values [] ds = Some ds"
| "invalidate_values (v # vs) ds = (case find_attribute ds v of
       None \<Rightarrow> None
     | Some j \<Rightarrow> invalidate_values vs (ds[j := invalidate_OSII (ds ! j)]))"

definition invalidate_handle :: "int list \<Rightarrow> int io" where
  "invalidate_handle inval_values = bnd (read_OSIP_loc R_START False) (\<lambda>(r, osip).
     if r < 0 then ret (-1)
     else (case invalidate_values inval_values (desc osip) of
         None \<Rightarrow> ret (-1)
       | Some ds \<Rightarrow> bnd (write_OSIP (osip\<lparr>desc := ds\<rparr>)) (\<lambda>(r, _).
           if r < 0 then ret (-1) else ret 0)))"

subsection \<open>Flashing a stitched image\<close>

definition write_stitch_image :: "byte list \<Rightarrow> u32 \<Rightarrow> int \<Rightarrow> int io" where
  "write_stitch_image data sz update_number =
     (let block_size = osip_get_block_size; page_size = osip_get_page_size in
      if block_size < 0 then ret (-1) else
      bnd (crack_stitched_image (Some data)) (\<lambda>cracked. case cracked of None \<Rightarrow> ret (-1) | Some (rec, blob) \<Rightarrow>
      if length data < rec + 20 then crash OutOfBounds else
      (let osii = dec_OSII (bslice rec sizeof_OSII data) in
       if size_of_os_image osii * of_nat STITCHED_IMAGE_PAGE_SIZE \<noteq> sz - of_nat STITCHED_IMAGE_BLOCK_SIZE
       then ret (-1) else
       bnd (read_OSIP_loc R_START False) (\<lambda>(r, osip). if r < 0 then ret (-1) else
       if \<not> in_desc update_number \<or> length data < rec + sizeof_OSII then crash OutOfBounds else
       (let i = nat update_number;
            osii = osii\<lparr>logical_start_block := logical_start_block (desc osip ! i),
              size_of_os_image :=
                (size_of_os_image osii * of_nat STITCHED_IMAGE_PAGE_SIZE) div word_of_int page_size\<rparr>;
            osip = osip\<lparr>num_images := 1, desc := (desc osip)[i := osii]\<rparr>
        in bnd (if update_number = POS then bnd (write_OSIP osip) (\<lambda>(_, osip). ret osip) else ret osip) (\<lambda>osip.
           bnd (read_OSIP_loc R_BCK False) (\<lambda>(_, bck_osip).
           bnd (if sig bck_osip \<noteq> OSIP_SIG then bnd (write_OSIP osip) (\<lambda>_. ret ())
                else bnd (write_OSII_entry osii update_number R_BCK) (\<lambda>_. ret ())) (\<lambda>_.
           bnd (write_blob data blob sz (logical_start_block osii) block_size) (\<lambda>r.
             if r < 0 then ret (-1)
             else check_image_valid sz (drop blob data) (logical_start_block osii))))))))))"

definition FILE_EXT :: string where "FILE_EXT = ''.bin''"

definition flash_stitch_image :: "string \<Rightarrow> int \<Rightarrow> int io" where
  "flash_stitch_image argv update_number = (case strrchr argv CHR ''.'' of
       None \<Rightarrow> exit_with 1
     | Some tempPtr \<Rightarrow>
         if \<not> strncmp_eq tempPtr FILE_EXT (length FILE_EXT) then exit_with 1
         else bnd (load_file argv) (\<lambda>l. case l of
             NoOpen \<Rightarrow> exit_with 1
           | NoStat \<Rightarrow> bnd close_fd (\<lambda>_. exit_with 1)
           | NoMem \<Rightarrow> bnd close_fd (\<lambda>_. exit_with 1)
           | ShortRead \<Rightarrow> bnd close_fd (\<lambda>_. exit_with 1)
           | Loaded fwFileData \<Rightarrow>
               write_stitch_image fwFileData (of_nat (length fwFileData)) update_number))"

definition flash_payload_os_image :: "string \<Rightarrow> int io" where
  "flash_payload_os_image img = flash_stitch_image img 0"

subsection \<open>Every environment: descriptors, device size, files\<close>

lemma fd_read_OSIP_loc: "fd_spec a a (read_OSIP_loc location dump)"
  unfolding read_OSIP_loc_def Let_def by (intro fd_intros)

lemma fd_write_backup: "fd_spec a a (write_backup osip)"
  unfolding write_backup_def by (intro fd_intros)

lemma fd_write_OSII_entry: "fd_spec a a (write_OSII_entry osii n location)"
  unfolding write_OSII_entry_def by (intro fd_intros)

lemma fd_remove_backup_OSII: "fd_spec a a (remove_backup_OSII n)"
  unfolding remove_backup_OSII_def by (intro fd_intros)

lemma fd_ioctl: "fd_spec a a (ioctl_write_rr r)"
  by (auto simp: fd_spec_def ioctl_write_rr_def)

lemmas fd_osip_utils_bnd [fd_intros] =
  fd_bnd [OF fd_read_OSIP_loc] fd_bnd [OF fd_write_backup] fd_bnd [OF fd_write_OSII_entry]
  fd_bnd [OF fd_ioctl]

lemma fd_backup_handle: "fd_spec a a (backup_handle osip)"
  unfolding backup_handle_def by (intro fd_intros)

lemma fd_restore_handle: "fd_spec a a restore_handle"
  unfolding restore_handle_def by (intro fd_intros)

lemma fd_update_handle: "fd_spec a a (update_handle osii n)"
  unfolding update_handle_def Let_def by (intro fd_intros)

lemma fd_invalidate_handle: "fd_spec a a (invalidate_handle vs)"
  unfolding invalidate_handle_def by (intro fd_intros)

context kept
begin

lemma keeps_check_image_valid [keeps_intros]: "keeps (check_image_valid sz blob lba)"
proof -
  have "keeps (check_blocks n h blob)" for n h blob
    by (induction n arbitrary: h blob) (auto intro!: keeps_intros)
  then show ?thesis
    unfolding check_image_valid_def Let_def by (intro keeps_intros)
qed

lemma keeps_read_OSIP_loc [keeps_intros]: "keeps (read_OSIP_loc location dump)"
  unfolding read_OSIP_loc_def Let_def by (intro keeps_intros)

lemma keeps_write_OSII_entry [keeps_intros]: "keeps (write_OSII_entry osii n location)"
  unfolding write_OSII_entry_def by (intro keeps_intros)

lemma keeps_remove_backup_OSII [keeps_intros]: "keeps (remove_backup_OSII n)"
  unfolding remove_backup_OSII_def by (intro keeps_intros)

lemma keeps_write_backup [keeps_intros]: "keeps (write_backup osip)"
  unfolding write_backup_def by (intro keeps_intros)

lemma keeps_backup_handle [keeps_intros]: "keeps (backup_handle osip)"
  unfolding backup_handle_def by (intro keeps_intros)

lemma keeps_ioctl [keeps_intros]: "keeps (ioctl_write_rr r)"
  by (simp add: keeps_def ioctl_write_rr_def R_osnib)

lemma keeps_restore_handle [keeps_intros]: "keeps restore_handle"
  unfolding restore_handle_def by (intro keeps_intros)

lemma keeps_update_handle [keeps_intros]: "keeps (update_handle osii n)"
  unfolding update_handle_def Let_def by (intro keeps_intros)

lemma keeps_invalidate_handle [keeps_intros]: "keeps (invalidate_handle vs)"
  unfolding invalidate_handle_def by (intro keeps_intros)

lemma keeps_write_stitch_image [keeps_intros]: "keeps (write_stitch_image data sz n)"
  unfolding write_stitch_image_def Let_def by (intro keeps_intros)

lemma keeps_flash_stitch_image [keeps_intros]: "keeps (flash_stitch_image argv n)"
  unfolding flash_stitch_image_def by (intro keeps_intros)

end

subsection \<open>Closed forms in a reliable environment\<close>

text \<open>A device that holds at least its first sector, where both headers live.\<close>

definition disk_ok :: "world \<Rightarrow> bool" where
  "disk_ok w \<longleftrightarrow> reliable w \<and> sysfs_ok w \<and> 512 \<le> length (dev w)"

lemma disk_okD:
  assumes "disk_ok w"
  shows "reliable w" "sysfs_ok w" "512 \<le> length (dev w)"
  using assms by (simp_all add: disk_ok_def)

lemma disk_ok_update [simp]:
  "disk_ok (w\<lparr>calls := c\<rparr>) = disk_ok w" "disk_ok (w\<lparr>nfds := n\<rparr>) = disk_ok w"
  "disk_ok (w\<lparr>osnib := b\<rparr>) = disk_ok w"
  "disk_ok (w\<lparr>calls := c, nfds := n\<rparr>) = disk_ok w"
  "disk_ok (w\<lparr>calls := c, dev := d\<rparr>) = disk_ok (w\<lparr>dev := d\<rparr>)"
  by (simp_all add: disk_ok_def)

lemma disk_ok_blit [simp]:
  "off + length bs \<le> length (dev w) \<Longrightarrow> disk_ok (w\<lparr>dev := blit off bs (dev w)\<rparr>) = disk_ok w"
  by (simp add: disk_ok_def)

definition loc_off :: "int \<Rightarrow> nat" where
  "loc_off location = (if location \<noteq> 0 then BACKUP_LOC else 0)"

lemma loc_off_simps [simp]: "loc_off R_START = 0" "loc_off R_BCK = BACKUP_LOC"
  by (simp_all add: loc_off_def R_START_def R_BCK_def)

lemma read_OSIP_loc_reliable [io_simps]:
  assumes "disk_ok w"
  shows "read_OSIP_loc location dump w =
    (if dump \<and> sig (osip_at (loc_off location) w) = OSIP_SIG
        \<and> 7 < unat (num_pointers (osip_at (loc_off location) w))
     then (Fault OutOfBounds, w\<lparr>calls := calls w + 2\<rparr>)
     else (Ret (0, osip_at (loc_off location) w), w\<lparr>calls := calls w + 2\<rparr>))"
proof -
  note d = disk_okD [OF assms]
  have wf: "wf_OSIP (osip_at (loc_off location) w)"
    using d by (simp add: loc_off_def BACKUP_LOC_def)
  have "loc_off location + 200 \<le> length (dev w)"
    using d by (simp add: loc_off_def BACKUP_LOC_def)
  then show ?thesis
    using d wf unfolding read_OSIP_loc_def
    by (auto simp: bnd_def io_simps osip_at_def loc_off_def layout_defs Let_def)
qed

lemma enc_OSIP_not_Nil: "wf_OSIP h \<Longrightarrow> enc_OSIP h \<noteq> []"
  using length_enc_OSIP by fastforce

lemma enc_OSII_not_Nil: "wf_OSII r \<Longrightarrow> enc_OSII r \<noteq> []"
  using length_enc_OSII by fastforce

lemma write_backup_reliable [io_simps]:
  assumes "disk_ok w" and "wf_OSIP h"
  shows "write_backup h w =
    (Ret 0, w\<lparr>calls := calls w + 2, dev := blit BACKUP_LOC (enc_OSIP h) (dev w)\<rparr>)"
  using disk_okD [OF assms(1)] assms(2) enc_OSIP_not_Nil [OF assms(2)]
  by (simp add: write_backup_def bnd_def io_simps layout_defs)

lemma osip_at_blit_same:
  "wf_OSIP h \<Longrightarrow> off + 200 \<le> length (dev w) \<Longrightarrow> osip_at off (w\<lparr>dev := blit off (enc_OSIP h) (dev w)\<rparr>) = h"
  using osip.load_store [of h off "dev w"] by (simp add: osip_at_def sizeof_OSIP_def)

lemma osip_at_blit_other:
  "off + length bs \<le> length (dev w) \<Longrightarrow> a + 200 \<le> off \<or> off + length bs \<le> a \<Longrightarrow>
    osip_at a (w\<lparr>dev := blit off bs (dev w)\<rparr>) = osip_at a w"
  by (auto simp: osip_at_def sizeof_OSIP_def bslice_blit_before bslice_blit_after)

lemma osip_at_dev: "osip_at off (w\<lparr>calls := c, dev := d\<rparr>) = osip_at off (w\<lparr>dev := d\<rparr>)"
  by (simp add: osip_at_def)

lemma backup_handle_reliable [io_simps]:
  assumes "disk_ok w" and "wf_OSIP h" and "sig h = OSIP_SIG \<longrightarrow> unat (num_pointers h) \<le> 7"
  shows "backup_handle h w =
    (Ret 0, w\<lparr>calls := calls w + 4, dev := blit BACKUP_LOC (enc_OSIP h) (dev w)\<rparr>)"
proof -
  let ?w = "w\<lparr>calls := calls w + 2, dev := blit BACKUP_LOC (enc_OSIP h) (dev w)\<rparr>"
  have len: "BACKUP_LOC + 200 \<le> length (dev w)"
    using disk_okD(3) [OF assms(1)] by (simp add: BACKUP_LOC_def)
  have "disk_ok ?w" using assms len by simp
  moreover have "osip_at BACKUP_LOC ?w = h"
    using osip_at_blit_same [OF assms(2) len] by (simp add: osip_at_dev)
  ultimately show ?thesis
    using assms unfolding backup_handle_def bnd_def
    by (auto simp: io_simps add_4_Suc)
qed

lemma memset_OSIP_enc: "enc_OSIP (memset_OSIP b) = replicate 200 b" "wf_OSIP (memset_OSIP b)"
  by (simp_all add: memset_OSIP_def sizeof_OSIP_def enc_dec_OSIP)

text \<open>A header whose dump and checksum stay inside the structure.\<close>

definition sane_OSIP :: "OSIP_header \<Rightarrow> bool" where
  "sane_OSIP h \<longleftrightarrow> wf_OSIP h \<and> unat (num_pointers h) \<le> 7 \<and> unat (header_size h) \<le> 200"

lemma sane_OSIPD:
  assumes "sane_OSIP h"
  shows "wf_OSIP h" "unat (num_pointers h) \<le> 7" "unat (header_size h) \<le> 200"
  using assms by (simp_all add: sane_OSIP_def)

lemma list_all_update: "list_all P xs \<Longrightarrow> P x \<Longrightarrow> list_all P (xs[i := x])"
  by (induction xs arbitrary: i) (auto split: nat.split)

lemma sane_desc:
  "sane_OSIP h \<Longrightarrow> wf_OSII r \<Longrightarrow> sane_OSIP (h\<lparr>desc := (desc h)[i := r]\<rparr>)"
  "sane_OSIP h \<Longrightarrow> wf_OSII r \<Longrightarrow> sane_OSIP (h\<lparr>num_images := k, desc := (desc h)[i := r]\<rparr>)"
  by (auto simp: sane_OSIP_def wf_OSIP_def list_all_update)

lemma wf_desc_nth: "wf_OSIP h \<Longrightarrow> i < 7 \<Longrightarrow> wf_OSII (desc h ! i)"
  by (simp add: wf_OSIP_def list_all_length layout_defs)

lemma wf_invalidate_OSII [simp]: "wf_OSII (invalidate_OSII r)"
  by (simp add: invalidate_OSII_def memset_OSII_def wf_OSII_def dec_OSII_def layout_defs)

lemma invalidate_OSII_simps [simp]:
  "attribute (invalidate_OSII r) = attribute r" "invalidate_OSII (invalidate_OSII r) = invalidate_OSII r"
  by (simp_all add: invalidate_OSII_def)

lemma find_attribute_Some:
  "find_attribute ds v = Some j \<longleftrightarrow>
    j < length ds \<and> v = uint (attribute (ds ! j)) \<and> (\<forall>i<j. v \<noteq> uint (attribute (ds ! i)))"
proof (induction ds arbitrary: j)
  case (Cons d ds)
  then show ?case by (cases j) (auto simp: All_less_Suc2)
qed simp

lemma find_attribute_None: "find_attribute ds v = None \<longleftrightarrow> (\<forall>d\<in>set ds. v \<noteq> uint (attribute d))"
  by (induction ds) auto

lemma find_attribute_cong:
  "map attribute ds = map attribute ds' \<Longrightarrow> find_attribute ds v = find_attribute ds' v"
proof (induction ds arbitrary: ds')
  case (Cons d ds)
  then obtain e es where "ds' = e # es" "attribute e = attribute d" "map attribute ds = map attribute es"
    by (cases ds') auto
  with Cons.IH [of es] show ?case by simp
qed simp

lemma map_attribute_update: "map attribute (ds[j := invalidate_OSII (ds ! j)]) = map attribute ds"
  by (induction ds arbitrary: j) (auto split: nat.split)

lemma invalidate_values_spec:
  "invalidate_values vs ds =
    (if \<forall>v\<in>set vs. find_attribute ds v \<noteq> None
     then Some (map (\<lambda>j. if \<exists>v\<in>set vs. find_attribute ds v = Some j then invalidate_OSII (ds ! j) else ds ! j)
       [0..<length ds])
     else None)"
proof (induction vs arbitrary: ds)
  case Nil
  then show ?case by (simp add: map_nth)
next
  case (Cons v vs)
  show ?case
  proof (cases "find_attribute ds v")
    case (Some j)
    let ?ds = "ds[j := invalidate_OSII (ds ! j)]"
    have f: "find_attribute ?ds u = find_attribute ds u" for u
      by (rule find_attribute_cong) (rule map_attribute_update)
    have j: "j < length ds" using Some by (simp add: find_attribute_Some)
    show ?thesis using Some j by (auto simp: Cons f nth_list_update)
  qed simp
qed

lemma wf_invalidate_values:
  "invalidate_values vs ds = Some ds' \<Longrightarrow> list_all wf_OSII ds \<Longrightarrow> length ds' = length ds \<and> list_all wf_OSII ds'"
  by (auto simp: invalidate_values_spec list_all_length split: if_splits)

lemma sane_invalidate:
  "sane_OSIP h \<Longrightarrow> invalidate_values vs (desc h) = Some ds \<Longrightarrow> sane_OSIP (h\<lparr>desc := ds\<rparr>)"
  using wf_invalidate_values [of vs "desc h" ds] by (simp add: sane_OSIP_def wf_OSIP_def)

lemma wf_merge_OSII [simp]: "wf_OSII (merge_OSII osii r) = wf_OSII r"
  by (simp add: merge_OSII_def wf_OSII_def)

lemma write_OSIP_disk [io_simps]:
  assumes "disk_ok w" and "sane_OSIP h"
  shows "write_OSIP h w =
    (Ret (1, stamp h), w\<lparr>calls := calls w + 4, dev := blit 0 (enc_OSIP (stamp h)) (dev w)\<rparr>)"
  using disk_okD [OF assms(1)] sane_OSIPD [OF assms(2)] by (simp add: write_OSIP_reliable)

lemma restore_handle_reliable [io_simps]:
  assumes "disk_ok w" and "sane_OSIP (osip_at BACKUP_LOC w)" and "sig (osip_at BACKUP_LOC w) = OSIP_SIG"
  shows "restore_handle w = (Ret 0, w\<lparr>calls := calls w + 9,
    dev := blit BACKUP_LOC (replicate 200 0) (blit 0 (enc_OSIP (stamp (osip_at BACKUP_LOC w))) (dev w)),
    osnib := osnib w @ [RR_SIGNED_MOS]\<rparr>)"
proof -
  let ?h = "osip_at BACKUP_LOC w"
  let ?w = "w\<lparr>calls := calls w + 6, dev := blit 0 (enc_OSIP (stamp ?h)) (dev w)\<rparr>"
  note d = disk_okD [OF assms(1)] and s = sane_OSIPD [OF assms(2)]
  have w: "disk_ok ?w" using assms(1) d s by simp
  have 1: "read_OSIP_loc R_BCK True w = (Ret (0, ?h), w\<lparr>calls := calls w + 2\<rparr>)"
    using assms s by (simp add: io_simps)
  have 2: "write_OSIP ?h (w\<lparr>calls := calls w + 2\<rparr>) = (Ret (1, stamp ?h), ?w)"
    using assms by (simp add: io_simps)
  have 3: "write_backup (memset_OSIP 0) ?w = (Ret 0, ?w\<lparr>calls := calls w + 8,
      dev := blit BACKUP_LOC (replicate 200 0) (dev ?w)\<rparr>)"
    using w by (simp add: io_simps memset_OSIP_enc)
  show ?thesis
    using 1 2 3 d assms(3)
    by (simp add: restore_handle_def bnd_def io_simps ioctl_write_rr_def)
qed

lemma restore_handle_refuses:
  assumes "disk_ok w" and "sig (osip_at BACKUP_LOC w) \<noteq> OSIP_SIG"
  shows "restore_handle w = (Ret (-1), w\<lparr>calls := calls w + 2\<rparr>)"
  using assms by (simp add: restore_handle_def bnd_def io_simps)

lemma invalidate_handle_reliable [io_simps]:
  assumes "disk_ok w" and "sane_OSIP (osip_at 0 w)"
    and "invalidate_values vs (desc (osip_at 0 w)) = Some ds"
  shows "invalidate_handle vs w = (Ret 0, w\<lparr>calls := calls w + 6,
    dev := blit 0 (enc_OSIP (stamp ((osip_at 0 w)\<lparr>desc := ds\<rparr>))) (dev w)\<rparr>)"
  using assms sane_invalidate [OF assms(2,3)] by (simp add: invalidate_handle_def bnd_def io_simps)

lemma update_handle_reliable [io_simps]:
  assumes "disk_ok w" and "sane_OSIP (osip_at 0 w)" and "in_desc k"
  shows "update_handle osii k w = (Ret 0, w\<lparr>calls := calls w + 9,
    dev := blit 0 (enc_OSIP (stamp ((osip_at 0 w)\<lparr>desc := (desc (osip_at 0 w))
      [nat k := merge_OSII osii (desc (osip_at 0 w) ! nat k)]\<rparr>))) (dev w)\<rparr>)"
proof -
  let ?h = "(osip_at 0 w)\<lparr>desc := (desc (osip_at 0 w))[nat k := merge_OSII osii (desc (osip_at 0 w) ! nat k)]\<rparr>"
  let ?w = "w\<lparr>calls := calls w + 7, dev := blit 0 (enc_OSIP (stamp ?h)) (dev w)\<rparr>"
  note d = disk_okD [OF assms(1)]
  have "nat k < 7" using assms(3) by (auto simp: in_desc_def layout_defs)
  then have h: "sane_OSIP ?h"
    using assms(2) by (intro sane_desc) (auto simp: wf_desc_nth dest: sane_OSIPD)
  then have wf: "wf_OSIP (stamp ?h)" by (auto dest: sane_OSIPD)
  have w: "disk_ok ?w" using assms(1) d wf by simp
  have "osip_at 0 ?w = stamp ?h"
    using osip_at_blit_same [OF wf, of 0 w] d by (simp add: osip_at_dev)
  then have 4: "read_OSIP_loc R_START True ?w = (Ret (0, stamp ?h), ?w\<lparr>calls := calls w + 9\<rparr>)"
    using w sane_OSIPD [OF h] by (simp add: read_OSIP_loc_reliable)
  have 1: "ask w = (Ret Ok, w\<lparr>calls := calls w + 1\<rparr>)"
    using d by (simp add: ask_def)
  have 2: "read_OSIP_loc R_START False (w\<lparr>calls := calls w + 1\<rparr>) = (Ret (0, osip_at 0 w), w\<lparr>calls := calls w + 3\<rparr>)"
    using assms(1) by (simp add: read_OSIP_loc_reliable)
  have 3: "write_OSIP ?h (w\<lparr>calls := calls w + 3\<rparr>) = (Ret (1, stamp ?h), ?w)"
    using assms(1) h by (simp add: write_OSIP_disk)
  show ?thesis
    using assms(3) 1 2 3 4 by (simp add: update_handle_def Let_def bnd_def ret_apply)
qed

subsection \<open>Flashing in a reliable environment\<close>

text \<open>Where a freshly opened descriptor stands after \<open>lseek\<close>, whose failure is not checked.\<close>

definition seek_pos :: "world \<Rightarrow> int \<Rightarrow> nat" where
  "seek_pos w off = (if 0 \<le> off \<and> off \<le> int (length (dev w)) then nat off else 0)"

lemma lseek_dev_pos: "lseek_dev 0 off w = (Ret (seek_pos w off), w)"
  by (simp add: lseek_dev_def seek_pos_def)

lemma seek_pos_update [simp]:
  "seek_pos (w\<lparr>calls := c\<rparr>) off = seek_pos w off" "seek_pos (w\<lparr>nfds := c\<rparr>) off = seek_pos w off"
  "length d = length (dev w) \<Longrightarrow> seek_pos (w\<lparr>dev := d\<rparr>) off = seek_pos w off"
  by (simp_all add: seek_pos_def)

lemma short_write_full [simp]: "\<not> short_write (int (unat len)) len" "\<not> short_write (uint len) len"
  by (simp_all add: short_write_def)

lemma write_blob_reliable:
  assumes "reliable w" and len: "len = sz - 512" "len \<noteq> 0"
    and data: "blob + unat len \<le> length data"
    and p: "p = seek_pos w (dev_offset lba bs)" "p + unat len \<le> length (dev w)"
  shows "write_blob data blob sz lba bs w =
    (Ret 0, w\<lparr>calls := calls w + 2, dev := blit p (bslice blob (unat len) data) (dev w)\<rparr>)"
proof -
  have "0 < unat len" using len(2) by (simp add: unat_gt_0)
  then have ne: "bslice blob (unat len) data \<noteq> []"
    using data by (metis length_0_conv length_bslice not_gr_zero min_absorb1 add_le_imp_le_diff add.commute)
  show ?thesis
    using assms ne unfolding write_blob_def Let_def
    by (simp add: bnd_def io_simps lseek_dev_pos layout_defs short_write_full)
qed

lemma bslice_add: "bslice h (a + b) xs = bslice h a xs @ bslice (h + a) b xs"
  by (simp add: bslice_def take_add add.commute)

lemma check_blocks_reliable:
  assumes "reliable w" "h + 512 * n \<le> length (dev w)" "512 * n \<le> length blob"
  shows "\<exists>c. check_blocks n h blob w =
    (Ret (if bslice h (512 * n) (dev w) = take (512 * n) blob then Inr (h + 512 * n, drop (512 * n) blob) else Inl (-1)),
     w\<lparr>calls := c\<rparr>)"
  using assms
proof (induction n arbitrary: h blob w)
  case 0
  show ?case by (rule exI [of _ "calls w"]) (simp add: ret_def)
next
  case (Suc n)
  let ?w = "w\<lparr>calls := Suc (calls w)\<rparr>"
  have r: "read_dev h 512 w = (Ret (Some (bslice h 512 (dev w)), h + 512), ?w)"
    using Suc.prems by (simp add: read_dev_reliable)
  have split: "bslice h (512 * Suc n) (dev w) = take (512 * Suc n) blob \<longleftrightarrow>
      bslice h 512 (dev w) = take 512 blob \<and> bslice (h + 512) (512 * n) (dev w) = take (512 * n) (drop 512 blob)"
    using Suc.prems by (simp add: bslice_add take_add)
  obtain c where c: "check_blocks n (h + 512) (drop 512 blob) ?w =
      (Ret (if bslice (h + 512) (512 * n) (dev w) = take (512 * n) (drop 512 blob)
        then Inr (h + 512 + 512 * n, drop (512 * n) (drop 512 blob)) else Inl (-1)), w\<lparr>calls := c\<rparr>)"
  proof -
    have "reliable ?w" "h + 512 + 512 * n \<le> length (dev ?w)" "512 * n \<le> length (drop 512 blob)"
      using Suc.prems by simp_all
    from Suc.IH [OF this] show ?thesis using that by auto
  qed
  show ?case
  proof (cases "bslice h 512 (dev w) = take 512 blob")
    case True
    then show ?thesis
      using Suc.prems r c split by (intro exI [of _ c]) (simp add: bnd_def layout_defs add.commute)
  next
    case False
    then show ?thesis
      using Suc.prems r split by (intro exI [of _ "Suc (calls w)"]) (auto simp: bnd_def layout_defs ret_def)
  qed
qed

lemma check_image_valid_reliable:
  assumes "reliable w" and "512 \<le> unat sz" and len: "len = unat sz - 512"
    and p: "p = seek_pos w (dev_offset lba 512)" "p + len \<le> length (dev w)" "len \<le> length blob"
  shows "\<exists>c. check_image_valid sz blob lba w =
    (if bslice p len (dev w) = take len blob then (Ret 0, w\<lparr>calls := c\<rparr>)
     else (Ret (-1), w\<lparr>calls := c, nfds := Suc (nfds w)\<rparr>))"
proof -
  define n where "n = unat sz div 512 - 1"
  define r where "r = unat sz mod 512"
  have nr: "len = 512 * n + r" "nat (int (unat sz div 512) - 1) = n"
    using assms(2) unfolding n_def r_def len by (simp_all add: div_mult_mod_eq algebra_simps nat_diff_distrib)
  let ?w = "w\<lparr>calls := Suc (calls w), nfds := Suc (nfds w)\<rparr>"
  obtain c where c: "check_blocks n p blob ?w =
     (Ret (if bslice p (512 * n) (dev w) = take (512 * n) blob then Inr (p + 512 * n, drop (512 * n) blob) else Inl (-1)),
      ?w\<lparr>calls := c\<rparr>)"
    using check_blocks_reliable [of ?w p n blob] assms nr by auto
  have split: "bslice p len (dev w) = take len blob \<longleftrightarrow>
      bslice p (512 * n) (dev w) = take (512 * n) blob
      \<and> bslice (p + 512 * n) r (dev w) = take r (drop (512 * n) blob)"
    using p nr(1) by (simp add: bslice_add take_add)
  have read: "read_dev (p + 512 * n) r (?w\<lparr>calls := c\<rparr>) =
      (Ret (Some (bslice (p + 512 * n) r (dev w)), p + 512 * n + r), ?w\<lparr>calls := Suc c\<rparr>)"
    using assms(1) p nr(1) by (simp add: read_dev_reliable)
  have lens: "length (bslice (p + 512 * n) r (dev w)) = r" "\<not> length (drop (512 * n) blob) < r"
    using p nr(1) by simp_all
  have opened: "open_fd w = (Ret (Some 0), ?w)" using assms(1) by (rule open_fd_reliable)
  have run: "check_image_valid sz blob lba w =
    (if bslice p (512 * n) (dev w) \<noteq> take (512 * n) blob then (Ret (-1), w\<lparr>calls := c, nfds := Suc (nfds w)\<rparr>)
     else if r = 0 then (Ret 0, w\<lparr>calls := c\<rparr>)
     else if bslice (p + 512 * n) r (dev w) = take r (drop (512 * n) blob) then (Ret 0, w\<lparr>calls := Suc c\<rparr>)
     else (Ret (-1), w\<lparr>calls := Suc c, nfds := Suc (nfds w)\<rparr>))"
    using opened c read lens p(1) nr(2)
    by (auto simp: check_image_valid_def Let_def bnd_def lseek_dev_pos layout_defs r_def io_simps)
  show ?thesis
    unfolding run split by (auto simp: r_def)
qed

lemma sint_of_nat32: "n < 2 ^ 31 \<Longrightarrow> sint (of_nat n :: u32) = int n"
  by (simp add: signed_of_nat signed_take_bit_int_eq_self)

lemma entry_offset_eq:
  assumes "in_desc k" and "base \<le> 1000"
  shows "entry_offset base k = int (base + 32 + 24 * nat k)"
proof -
  have k: "0 \<le> k" "k < 7" using assms(1) by (simp_all add: in_desc_def layout_defs)
  then have "entry_offset base k = sint (of_nat (base + 32 + 24 * nat k) :: u32)"
    unfolding entry_offset_def layout_defs by (simp add: of_nat_nat algebra_simps)
  also have "\<dots> = int (base + 32 + 24 * nat k)"
    using k assms(2) by (intro sint_of_nat32) auto
  finally show ?thesis .
qed

lemma write_OSII_entry_reliable [io_simps]:
  assumes "disk_ok w" and "in_desc k" and "wf_OSII r"
  shows "write_OSII_entry r k location w = (Ret 0, w\<lparr>calls := calls w + 2,
    dev := blit ((if location = R_START then 0 else BACKUP_LOC) + 32 + 24 * nat k) (enc_OSII r) (dev w)\<rparr>)"
proof -
  have k: "0 \<le> k" "k < 7" using assms(2) by (simp_all add: in_desc_def layout_defs)
  show ?thesis
    using disk_okD [OF assms(1)] assms(2,3) k enc_OSII_not_Nil [OF assms(3)]
    by (simp add: write_OSII_entry_def bnd_def io_simps entry_offset_eq BACKUP_LOC_def nat_add_distrib nat_mult_distrib)
qed

lemma sane_stamp [simp]: "sane_OSIP (stamp h) = sane_OSIP h"
  by (simp add: sane_OSIP_def)

text \<open>The header sector after the two header writes of \<open>write_stitch_image\<close>.\<close>

definition flash_headers :: "world \<Rightarrow> int \<Rightarrow> OSIP_header \<Rightarrow> OSII \<Rightarrow> byte list" where
  "flash_headers w k h r =
     (let d = (if k = POS then blit 0 (enc_OSIP (stamp h)) (dev w) else dev w)
      in if sig (osip_at BACKUP_LOC w) \<noteq> OSIP_SIG then blit 0 (enc_OSIP (stamp h)) d
         else blit (BACKUP_LOC + 32 + 24 * nat k) (enc_OSII r) d)"

lemma flash_headers_reliable:
  assumes "disk_ok w" and "in_desc k" and "sane_OSIP h" and "wf_OSII r"
  shows "\<exists>c. bnd (if k = POS then bnd (write_OSIP h) (\<lambda>(_, osip). ret osip) else ret h) (\<lambda>osip.
     bnd (read_OSIP_loc R_BCK False) (\<lambda>(_, bck_osip).
     bnd (if sig bck_osip \<noteq> OSIP_SIG then bnd (write_OSIP osip) (\<lambda>_. ret ())
          else bnd (write_OSII_entry r k R_BCK) (\<lambda>_. ret ())) K)) w
   = K () (w\<lparr>calls := c, dev := flash_headers w k h r\<rparr>)"
proof -
  define d where "d = (if k = POS then blit 0 (enc_OSIP (stamp h)) (dev w) else dev w)"
  define h' where "h' = (if k = POS then stamp h else h)"
  have wf: "wf_OSIP (stamp h)" using assms(3) by (auto dest: sane_OSIPD)
  obtain c where 1: "(if k = POS then bnd (write_OSIP h) (\<lambda>(_, osip). ret osip) else ret h) w =
      (Ret h', w\<lparr>calls := c, dev := d\<rparr>)"
  proof (cases "k = POS")
    case True
    with assms that [of "calls w + 4"] show ?thesis by (simp add: bnd_def io_simps h'_def d_def)
  next
    case False
    with that [of "calls w"] show ?thesis by (simp add: io_simps h'_def d_def)
  qed
  let ?w = "w\<lparr>calls := c, dev := d\<rparr>"
  have w: "disk_ok ?w" using assms(1) disk_okD(3) [OF assms(1)] wf by (simp add: d_def)
  have bck: "osip_at BACKUP_LOC ?w = osip_at BACKUP_LOC w"
    using osip_at_blit_other [of 0 "enc_OSIP (stamp h)" w BACKUP_LOC] disk_okD(3) [OF assms(1)] wf
    by (simp add: d_def BACKUP_LOC_def osip_at_dev)
  have h': "sane_OSIP h'" "stamp h' = stamp h" using assms(3) by (simp_all add: h'_def)
  have 2: "read_OSIP_loc R_BCK False ?w = (Ret (0, osip_at BACKUP_LOC w), ?w\<lparr>calls := c + 2\<rparr>)"
    using w bck by (simp add: read_OSIP_loc_reliable)
  have 3: "write_OSIP h' (?w\<lparr>calls := c + 2\<rparr>) = (Ret (1, stamp h), ?w\<lparr>calls := c + 6, dev := blit 0 (enc_OSIP (stamp h)) d\<rparr>)"
    using w h' by (simp add: write_OSIP_disk)
  have 4: "write_OSII_entry r k R_BCK (?w\<lparr>calls := c + 2\<rparr>) =
      (Ret 0, ?w\<lparr>calls := c + 4, dev := blit (BACKUP_LOC + 32 + 24 * nat k) (enc_OSII r) d\<rparr>)"
    using w assms(2,4) by (simp add: write_OSII_entry_reliable R_START_def R_BCK_def)
  show ?thesis
    using 1 2 3 4 by (auto simp: bnd_def ret_apply flash_headers_def d_def [symmetric] Let_def)
qed

end
