(* ===== verification/Flashing.thy ===== *)
theory Flashing
  imports Osip_Utils
begin

text \<open>
  Flashing a stitched image (\<^verbatim>\<open>flash_stitched/osip_utils.c\<close>: \<open>write_stitch_image\<close>,
  \<open>check_image_valid\<close>): the closed form of a run in which no call fails, and what it stores where.
\<close>

subsection \<open>Stitched images\<close>

text \<open>
  A stitched image: one block with a header for one image, then \<open>n\<close> pages of payload. It fits the
  signed 32-bit size of a file.
\<close>

definition stitched :: "byte list \<Rightarrow> nat \<Rightarrow> bool" where
  "stitched data n \<longleftrightarrow> 0 < n \<and> length data = 512 * Suc n \<and> length data < 2 ^ 31 \<and> data ! 9 = 1
     \<and> size_of_os_image (dec_OSII (bslice 32 24 data)) = of_nat n"

definition flashed_OSII :: "byte list \<Rightarrow> OSII \<Rightarrow> OSII" where
  "flashed_OSII data r = (dec_OSII (bslice 32 24 data))\<lparr>logical_start_block := logical_start_block r\<rparr>"

definition flashed_header :: "byte list \<Rightarrow> nat \<Rightarrow> OSIP_header \<Rightarrow> OSIP_header" where
  "flashed_header data i h = h\<lparr>num_images := 1, desc := (desc h)[i := flashed_OSII data (desc h ! i)]\<rparr>"

lemma unat_of_nat32: "n < 2 ^ 32 \<Longrightarrow> unat (of_nat n :: u32) = n"
  by (simp add: unat_of_nat take_bit_nat_eq_self)

lemma stitched_sizes:
  assumes "stitched data n"
  shows "(of_nat (length data) - 512 :: u32) = of_nat (512 * n)"
    and "unat (of_nat (length data) :: u32) = 512 * Suc n" and "unat (of_nat (512 * n) :: u32) = 512 * n"
    and "(of_nat n * 512 :: u32) = of_nat (512 * n)" and "(of_nat n * 512 :: u32) div 512 = of_nat n"
    and "(of_nat (512 * n) :: u32) \<noteq> 0"
proof -
  have b: "512 * Suc n < 2 ^ 31" "length data = 512 * Suc n" "0 < n" using assms by (simp_all add: stitched_def)
  show "(of_nat (length data) - 512 :: u32) = of_nat (512 * n)" using b(2) by simp
  show "unat (of_nat (length data) :: u32) = 512 * Suc n" using unat_of_nat32 [of "length data"] b by simp
  show u: "unat (of_nat (512 * n) :: u32) = 512 * n" using b by (intro unat_of_nat32) simp
  show m: "(of_nat n * 512 :: u32) = of_nat (512 * n)" by (simp add: mult.commute)
  show "(of_nat n * 512 :: u32) div 512 = of_nat n"
  proof -
    have "unat (of_nat (512 * n) div 512 :: u32) = n" by (subst unat_div, subst u) simp
    then have "of_nat (unat (of_nat (512 * n) div 512 :: u32)) = (of_nat n :: u32)" by simp
    then show ?thesis unfolding m by (simp only: of_nat_unat ucast_id)
  qed
  show "(of_nat (512 * n) :: u32) \<noteq> 0" using u b(3) by (intro notI) simp
qed

lemma wf_flashed [simp]: "56 \<le> length data \<Longrightarrow> wf_OSII (flashed_OSII data r)"
  using wf_dec_OSII [of "bslice 32 24 data"] by (simp add: flashed_OSII_def wf_OSII_def)

lemma sane_flashed: "sane_OSIP h \<Longrightarrow> 56 \<le> length data \<Longrightarrow> sane_OSIP (flashed_header data i h)"
  unfolding flashed_header_def by (intro sane_desc) simp_all

lemma length_flash_headers:
  assumes "disk_ok w" "in_desc k" "sane_OSIP h" "wf_OSII r"
  shows "length (flash_headers w k h r) = length (dev w)"
  using disk_okD(3) [OF assms(1)] assms(2) sane_OSIPD(1) [OF assms(3)] assms(4)
  by (auto simp: flash_headers_def Let_def in_desc_def layout_defs)

lemma check_image_valid_ok:
  assumes "reliable w" "512 \<le> unat sz" "len = unat sz - 512" "p = seek_pos w (dev_offset lba 512)"
    "p + len \<le> length (dev w)" "len \<le> length blob" "bslice p len (dev w) = take len blob"
  shows "\<exists>c. check_image_valid sz blob lba w = (Ret 0, w\<lparr>calls := c\<rparr>)"
  using check_image_valid_reliable [OF assms(1-6)] assms(7) by simp

lemma flash_blob_reliable:
  assumes v: "reliable v" and data: "stitched data n"
    and p: "p = seek_pos v (dev_offset lba 512)" "p + 512 * n \<le> length (dev v)"
  shows "\<exists>c. bnd (write_blob data 512 (of_nat (length data)) lba 512) (\<lambda>m.
      if m < 0 then ret (-1) else check_image_valid (of_nat (length data)) (drop 512 data) lba) v =
    (Ret 0, v\<lparr>calls := c, dev := blit p (drop 512 data) (dev v)\<rparr>)"
proof -
  note sz = stitched_sizes [OF data]
  have len: "length data = 512 * Suc n" using data by (simp add: stitched_def)
  let ?v = "v\<lparr>calls := calls v + 2, dev := blit p (drop 512 data) (dev v)\<rparr>"
  have blob: "write_blob data 512 (of_nat (length data)) lba 512 v = (Ret 0, ?v)"
    using write_blob_reliable [of v "of_nat (512 * n)" "of_nat (length data)" 512 data p lba 512] v sz len p
    by (simp add: bslice_def)
  have "\<exists>c. check_image_valid (of_nat (length data)) (drop 512 data) lba ?v = (Ret 0, ?v\<lparr>calls := c\<rparr>)"
    by (rule check_image_valid_ok [of _ _ "512 * n" p]) (use v sz len p in \<open>simp_all add: bslice_blit_same\<close>)
  then obtain c where "check_image_valid (of_nat (length data)) (drop 512 data) lba ?v = (Ret 0, ?v\<lparr>calls := c\<rparr>)" ..
  with blob show ?thesis by (intro exI [of _ c]) (simp add: bnd_def)
qed

lemma write_stitch_image_reliable:
  assumes w: "disk_ok w" and s: "sane_OSIP (osip_at 0 w)" and k: "in_desc k" and data: "stitched data n"
    and r: "r = flashed_OSII data (desc (osip_at 0 w) ! nat k)"
    and p: "p = seek_pos w (dev_offset (logical_start_block r) 512)" "p + 512 * n \<le> length (dev w)"
  shows "\<exists>c. write_stitch_image data (of_nat (length data)) k w = (Ret 0, w\<lparr>calls := c,
     dev := blit p (drop 512 data) (flash_headers w k (flashed_header data (nat k) (osip_at 0 w)) r)\<rparr>)"
proof -
  note sz = stitched_sizes [OF data]
  have len: "length data = 512 * Suc n" "data ! 9 = 1" "56 \<le> length data"
    and size_n: "size_of_os_image (dec_OSII (bslice 32 24 data)) = of_nat n"
    using data by (auto simp: stitched_def)
  let ?h = "flashed_header data (nat k) (osip_at 0 w)"
  let ?d = "flash_headers w k ?h r"
  let ?w1 = "w\<lparr>calls := calls w + 2\<rparr>"
  let ?K = "\<lambda>_. bnd (write_blob data 512 (of_nat (length data)) (logical_start_block r) 512) (\<lambda>m.
      if m < 0 then ret (-1) else check_image_valid (of_nat (length data)) (drop 512 data) (logical_start_block r))"
  have wf: "sane_OSIP ?h" "wf_OSII r" using s len(3) r by (auto intro: sane_flashed)
  have w1: "disk_ok ?w1" "flash_headers ?w1 k ?h r = ?d" using w by (simp_all add: flash_headers_def)
  have l: "length ?d = length (dev w)" by (rule length_flash_headers [OF w k wf])
  obtain c where c: "bnd (if k = POS then bnd (write_OSIP ?h) (\<lambda>(_, osip). ret osip) else ret ?h) (\<lambda>osip.
     bnd (read_OSIP_loc R_BCK False) (\<lambda>(_, bck_osip).
     bnd (if sig bck_osip \<noteq> OSIP_SIG then bnd (write_OSIP osip) (\<lambda>_. ret ())
          else bnd (write_OSII_entry r k R_BCK) (\<lambda>_. ret ())) ?K)) ?w1
     = ?K () (w\<lparr>calls := c, dev := ?d\<rparr>)"
    using flash_headers_reliable [OF w1(1) k wf, unfolded w1(2), of ?K] by auto
  obtain c' where c': "?K () (w\<lparr>calls := c, dev := ?d\<rparr>) =
      (Ret 0, w\<lparr>calls := c, dev := ?d, calls := c', dev := blit p (drop 512 data) ?d\<rparr>)"
    using flash_blob_reliable [OF _ data, of "w\<lparr>calls := c, dev := ?d\<rparr>" p] disk_okD(1) [OF w] p l by auto
  have lba: "logical_start_block (desc (osip_at 0 w) ! nat k) = logical_start_block r"
    by (simp add: r flashed_OSII_def)
  have "(of_nat (length data) - 512 :: u32) div 512 = size_of_os_image (dec_OSII (bslice 32 24 data))"
    unfolding sz(1) sz(4) [symmetric] sz(5) size_n ..
  then have d: "(dec_OSII (bslice 32 24 data))\<lparr>logical_start_block := logical_start_block r,
      size_of_os_image := (of_nat (length data) - 512) div 512\<rparr> = r"
    by (simp add: r flashed_OSII_def)
  have h: "(osip_at 0 w)\<lparr>num_images := 1, desc := (desc (osip_at 0 w))[nat k := r]\<rparr> = ?h"
    by (simp add: flashed_header_def r)
  have crack: "crack_stitched_image (Some data) w = (Ret (Some (32, 512)), w)"
    using len by (simp add: crack_stitched_image_def layout_defs ret_def)
  have read: "read_OSIP_loc R_START False w = (Ret (0, osip_at 0 w), ?w1)"
    using w by (simp add: read_OSIP_loc_reliable)
  have ok: "\<not> length data < 52" "\<not> length data < 56"
      "size_of_os_image (dec_OSII (bslice 32 24 data)) * 512 = of_nat (length data) - 512"
    using len sz(1,4) size_n by simp_all
  have "write_stitch_image data (of_nat (length data)) k w = ?K () (w\<lparr>calls := c, dev := ?d\<rparr>)"
    unfolding c [symmetric] write_stitch_image_def osip_get_block_size_def osip_get_page_size_def
      MMC_PAGE_SIZE_def MMC_PAGES_PER_BLOCK_def Let_def layout_defs
    by (simp add: bnd_Ret_step [where m = "crack_stitched_image _", OF crack]
        bnd_Ret_step [where m = "read_OSIP_loc _ _", OF read] k ok d h lba
        cong del: if_weak_cong split del: if_split)
  also note c'
  finally show ?thesis by (intro exI [of _ c']) simp
qed

subsection \<open>Properties\<close>

lemma flash_headers_outside:
  assumes "disk_ok w" "in_desc k" "sane_OSIP h" "wf_OSII r" "512 \<le> j"
  shows "flash_headers w k h r ! j = dev w ! j"
proof -
  have "24 * nat k \<le> 144" using assms(2) by (auto simp: in_desc_def layout_defs)
  then show ?thesis
    using disk_okD(3) [OF assms(1)] assms(2,5) sane_OSIPD(1) [OF assms(3)] assms(4)
    by (auto simp: flash_headers_def Let_def in_desc_def layout_defs nth_blit_outside POS_def)
qed

lemma dev_offset_512:
  "512 * unat lba < 2 ^ 31 \<Longrightarrow> dev_offset lba 512 = int (512 * unat lba)"
proof -
  assume "512 * unat lba < 2 ^ 31"
  moreover have "lba * word_of_int 512 = (of_nat (512 * unat lba) :: u32)"
    by (simp add: mult.commute)
  ultimately show ?thesis unfolding dev_offset_def by (simp only: sint_of_nat32)
qed

lemma seek_pos_512:
  "512 * unat lba < 2 ^ 31 \<Longrightarrow> 512 * unat lba \<le> length (dev w) \<Longrightarrow> seek_pos w (dev_offset lba 512) = 512 * unat lba"
  unfolding seek_pos_def by (simp only: dev_offset_512 nat_int of_nat_0_le_iff of_nat_le_iff simp_thms if_True)

text \<open>
  C3: flashing a stitched image of \<open>n\<close> pages at an identifier whose start block lies behind the header sector and leaves room
  for the image succeeds (0); afterwards the payload stands at the start block, the device has its size, and
  no byte outside the header sector and the payload's place has changed.
\<close>

theorem flash_stores_payload:
  assumes "disk_ok w" and "sane_OSIP (osip_at 0 w)" and "in_desc k" and "stitched data n"
    and "off = 512 * unat (logical_start_block (desc (osip_at 0 w) ! nat k))"
    and "512 \<le> off" and "off < 2 ^ 31" and "off + 512 * n \<le> length (dev w)"
  shows "\<exists>c d. write_stitch_image data (of_nat (length data)) k w = (Ret 0, w\<lparr>calls := c, dev := d\<rparr>)
    \<and> bslice off (512 * n) d = drop 512 data \<and> length d = length (dev w)
    \<and> (\<forall>j. 512 \<le> j \<and> \<not> (off \<le> j \<and> j < off + 512 * n) \<longrightarrow> d ! j = dev w ! j)"
proof -
  define r where "r = flashed_OSII data (desc (osip_at 0 w) ! nat k)"
  let ?d = "flash_headers w k (flashed_header data (nat k) (osip_at 0 w)) r"
  have len: "length data = 512 * Suc n" "56 \<le> length data" using assms(4) by (auto simp: stitched_def)
  have wf: "sane_OSIP (flashed_header data (nat k) (osip_at 0 w))" "wf_OSII r"
    using assms(2) len by (auto simp: r_def intro: sane_flashed)
  have l: "length ?d = length (dev w)" by (rule length_flash_headers [OF assms(1,3) wf])
  have "off = seek_pos w (dev_offset (logical_start_block r) 512)"
    using assms(5,7,8) by (simp add: seek_pos_512 r_def flashed_OSII_def)
  from write_stitch_image_reliable [OF assms(1-4) r_def this assms(8)] obtain c where
    c: "write_stitch_image data (of_nat (length data)) k w = (Ret 0, w\<lparr>calls := c, dev := blit off (drop 512 data) ?d\<rparr>)"
    by blast
  have "blit off (drop 512 data) ?d ! j = dev w ! j" if "512 \<le> j" "\<not> (off \<le> j \<and> j < off + 512 * n)" for j
    using that l assms(8) len flash_headers_outside [OF assms(1,3) wf that(1)]
    by (subst nth_blit_outside) auto
  with c l len assms(8) show ?thesis
    by (intro exI [of _ c] exI [of _ "blit off (drop 512 data) ?d"]) (simp add: bslice_blit_same)
qed

definition sample_image :: "byte list" where
  "sample_image = replicate 9 0 @ [1] @ replicate 38 0 @ [1] @ replicate 975 0"

lemma stitched_sample:
  "length sample_image = 1024" "of_nat (length sample_image) = (1024 :: u32)" "stitched sample_image (Suc 0)"
proof -
  show l: "length sample_image = 1024" "of_nat (length sample_image) = (1024 :: u32)"
    by (simp_all add: sample_image_def)
  have "bslice 16 4 (bslice 32 24 sample_image) = [1, 0, 0, 0]"
    by (simp add: bslice_bslice sample_image_def bslice_def numeral_eq_Suc)
  then have "size_of_os_image (dec_OSII (bslice 32 24 sample_image)) = 1"
    by (simp add: dec_OSII_def)
  then show "stitched sample_image (Suc 0)"
    using l by (simp add: stitched_def sample_image_def nth_append)
qed

lemma disk_ok_sample [simp]: "length b = 200 \<Longrightarrow> disk_ok (sample_world b)"
  by (simp add: disk_ok_def)

lemma sane_sample [simp]: "sane_OSIP sample_header"
  by (simp add: sane_OSIP_def)

theorem flash_stores_payload_witness:
  "\<exists>c d. write_stitch_image sample_image 1024 0 (sample_world (replicate 200 0)) =
      (Ret 0, (sample_world (replicate 200 0))\<lparr>calls := c, dev := d\<rparr>)
    \<and> bslice 1024 512 d = drop 512 sample_image \<and> length d = 2048
    \<and> (\<forall>j. 512 \<le> j \<and> \<not> (1024 \<le> j \<and> j < 1536) \<longrightarrow> d ! j = dev (sample_world (replicate 200 0)) ! j)"
  using flash_stores_payload [of "sample_world (replicate 200 0)" 0 sample_image "Suc 0" 1024]
  by (simp add: stitched_sample in_desc_def layout_defs)

text \<open>
  C4: the result of \<open>lseek\<close> is not checked: with a start block whose byte offset is negative as a 32-bit
  \<open>off_t\<close> or lies behind the device, flashing still reports success (0), since the read-back has the same fault, and
  the payload replaces the first sectors of the device, the OSIP header included. (In the read-back the product is a signed one; a negative offset takes its low 32 bits,
  a start block behind the device needs no overflow.)
\<close>

theorem flash_seek_failure_overwrites_header:
  assumes "disk_ok w" and "sane_OSIP (osip_at 0 w)" and "in_desc k" and "stitched data n"
    and "off = dev_offset (logical_start_block (desc (osip_at 0 w) ! nat k)) 512"
    and "\<not> (0 \<le> off \<and> off \<le> int (length (dev w)))" and "512 * n \<le> length (dev w)"
  shows "\<exists>c d. write_stitch_image data (of_nat (length data)) k w = (Ret 0, w\<lparr>calls := c, dev := d\<rparr>)
    \<and> bslice 0 (512 * n) d = drop 512 data"
proof -
  define r where "r = flashed_OSII data (desc (osip_at 0 w) ! nat k)"
  let ?d = "flash_headers w k (flashed_header data (nat k) (osip_at 0 w)) r"
  have len: "length data = 512 * Suc n" "56 \<le> length data" using assms(4) by (auto simp: stitched_def)
  have l: "length ?d = length (dev w)"
    using assms(2) len by (intro length_flash_headers assms(1,3)) (auto simp: r_def intro: sane_flashed)
  have "0 = seek_pos w (dev_offset (logical_start_block r) 512)"
    using assms(5,6) by (auto simp: seek_pos_def r_def flashed_OSII_def)
  from write_stitch_image_reliable [OF assms(1-4) r_def this] assms(7) obtain c where
    "write_stitch_image data (of_nat (length data)) k w = (Ret 0, w\<lparr>calls := c, dev := blit 0 (drop 512 data) ?d\<rparr>)"
    by auto
  with l len assms(7) show ?thesis
    by (intro exI [of _ c] exI [of _ "blit 0 (drop 512 data) ?d"]) (simp add: bslice_blit_same)
qed

theorem flash_seek_failure_overwrites_header_witness:
  "\<exists>c d. write_stitch_image sample_image 1024 3 (sample_world (replicate 200 0)) =
      (Ret 0, (sample_world (replicate 200 0))\<lparr>calls := c, dev := d\<rparr>)
    \<and> bslice 0 512 d = drop 512 sample_image"
  using flash_seek_failure_overwrites_header [of "sample_world (replicate 200 0)" 3 sample_image "Suc 0" "- (2 ^ 31)"]
  by (simp add: stitched_sample in_desc_def layout_defs dev_offset_def)

text \<open>
  C5: the verification of a flashed image compares exactly the bytes behind the header block with the device: 0 when they
  agree, -1 otherwise. On a mismatch the descriptor stays open.
\<close>

theorem check_image_valid_decides:
  assumes "reliable w" and "512 \<le> unat sz" and "len = unat sz - 512"
    and "off = 512 * unat lba" and "off < 2 ^ 31" and "off + len \<le> length (dev w)" and "len \<le> length blob"
  shows "\<exists>c. check_image_valid sz blob lba w =
    (if bslice off len (dev w) = take len blob then (Ret 0, w\<lparr>calls := c\<rparr>)
     else (Ret (-1), w\<lparr>calls := c, nfds := Suc (nfds w)\<rparr>))"
  using assms by (intro check_image_valid_reliable) (simp_all add: seek_pos_512)

theorem check_image_valid_decides_witness:
  "\<exists>c. check_image_valid 1024 (drop 512 sample_image) 2 (sample_world (replicate 200 0)) =
    (if bslice 1024 512 (dev (sample_world (replicate 200 0))) = take 512 (drop 512 sample_image)
     then (Ret 0, (sample_world (replicate 200 0))\<lparr>calls := c\<rparr>)
     else (Ret (-1), (sample_world (replicate 200 0))\<lparr>calls := c, nfds := Suc (nfds (sample_world (replicate 200 0)))\<rparr>))"
  by (rule check_image_valid_decides) (simp_all add: stitched_sample)

end
