(* ===== verification/Update_Osip.thy ===== *)
theory Update_Osip
  imports Flashing
begin

text \<open>
  \<^verbatim>\<open>flash_stitched/update_osip.c\<close>: the command line tool. \<open>getopt_long\<close> belongs to the C library; its results,
  the option character and its argument, are the input of the model. The options are collected
  first and then handled in a fixed order: backup, restore, update, invalidate, check.
\<close>

subsection \<open>Options\<close>

record opts =
  backup_flag :: bool
  restore_flag :: bool
  update_flag :: bool
  inval_flag :: bool
  check_flag :: bool
  update_num :: int
  inval_values :: "int list"
  fwBinFile :: "string option"
  opt_osii :: OSII

definition no_opts :: opts where
  "no_opts = \<lparr>backup_flag = False, restore_flag = False, update_flag = False, inval_flag = False,
     check_flag = False, update_num = 0, inval_values = [], fwBinFile = None, opt_osii = memset_OSII 0xFF\<rparr>"

definition display_usage :: "'a io" where
  "display_usage = exit_with 1"

text \<open>The array \<open>inval_values\<close> has ten elements; the eleventh option writes past it.\<close>

definition INVAL_MAX :: nat where "INVAL_MAX = 10"

definition getopt_step :: "char \<Rightarrow> string \<Rightarrow> opts \<Rightarrow> opts io" where
  "getopt_step c optarg s =
     (if c = CHR 0x00 then ret s
      else if c = CHR ''b'' then ret (s\<lparr>backup_flag := True\<rparr>)
      else if c = CHR ''c'' then ret (s\<lparr>check_flag := True\<rparr>)
      else if c = CHR ''r'' then ret (s\<lparr>restore_flag := True\<rparr>)
      else if c = CHR ''i'' then
        if length (inval_values s) < INVAL_MAX
        then ret (s\<lparr>inval_flag := True, inval_values := inval_values s @ [atoi optarg]\<rparr>)
        else crash OutOfBounds
      else if c = CHR ''g'' then ret (s\<lparr>fwBinFile := Some optarg\<rparr>)
      else if c = CHR ''u'' then ret (s\<lparr>update_flag := True, update_num := atoi optarg\<rparr>)
      else if c = CHR ''m'' then ret (s\<lparr>opt_osii := (opt_osii s)\<lparr>os_rev_major := word_of_int (atoi optarg)\<rparr>\<rparr>)
      else if c = CHR ''n'' then ret (s\<lparr>opt_osii := (opt_osii s)\<lparr>os_rev_minor := word_of_int (atoi optarg)\<rparr>\<rparr>)
      else if c = CHR ''a'' then ret (s\<lparr>opt_osii := (opt_osii s)\<lparr>ddr_load_address := word_of_int (atoi optarg)\<rparr>\<rparr>)
      else if c = CHR ''e'' then ret (s\<lparr>opt_osii := (opt_osii s)\<lparr>entery_point := word_of_int (atoi optarg)\<rparr>\<rparr>)
      else if c = CHR ''l'' then ret (s\<lparr>opt_osii := (opt_osii s)\<lparr>logical_start_block := word_of_int (atoi optarg)\<rparr>\<rparr>)
      else if c = CHR ''s'' then ret (s\<lparr>opt_osii := (opt_osii s)\<lparr>size_of_os_image := word_of_int (atoi optarg)\<rparr>\<rparr>)
      else if c = CHR ''t'' then ret (s\<lparr>opt_osii := (opt_osii s)\<lparr>attribute := word_of_int (atoi optarg)\<rparr>\<rparr>)
      else if c = CHR ''h'' \<or> c = CHR ''?'' then display_usage
      else (\<lambda>w. (Abort, w)))"

fun getopt_loop :: "bool \<Rightarrow> (char \<times> string) list \<Rightarrow> opts \<Rightarrow> opts io" where
  "getopt_loop get_flag [] s = (if get_flag then ret s else display_usage)"
| "getopt_loop get_flag ((c, optarg) # cs) s = bnd (getopt_step c optarg s) (getopt_loop True cs)"

subsection \<open>Handling\<close>

definition early_terminated :: "'a io" where
  "early_terminated = exit_with (-1)"

text \<open>A call whose non-zero result jumps to \<open>error\<close>.\<close>

definition or_error :: "int io \<Rightarrow> unit io" where
  "or_error m = bnd m (\<lambda>r. if r \<noteq> 0 then early_terminated else ret ())"

definition main_handle :: "opts \<Rightarrow> unit io" where
  "main_handle s =
     bnd (if backup_flag s
          then bnd (read_OSIP_loc R_START True) (\<lambda>(r, ori_osip).
            if r \<noteq> 0 then early_terminated else or_error (backup_handle ori_osip))
          else ret ()) (\<lambda>_.
     bnd (if restore_flag s then or_error restore_handle else ret ()) (\<lambda>_.
     bnd (if update_flag s
          then bnd (case fwBinFile s of
              None \<Rightarrow> ret ()
            | Some img \<Rightarrow> or_error (flash_stitch_image img (update_num s))) (\<lambda>_.
            or_error (update_handle (opt_osii s) (update_num s)))
          else ret ()) (\<lambda>_.
     bnd (if inval_flag s
          then if \<not> backup_flag s then early_terminated else or_error (invalidate_handle (inval_values s))
          else ret ()) (\<lambda>_.
     bnd (if check_flag s
          then bnd (read_OSIP_loc R_START True) (\<lambda>(r, _). if r \<noteq> 0 then early_terminated
            else bnd (read_OSIP_loc R_BCK True) (\<lambda>(r, _). if r \<noteq> 0 then early_terminated else ret ()))
          else ret ()) (\<lambda>_. exit_with 0)))))"

definition update_osip_main :: "(char \<times> string) list \<Rightarrow> unit io" where
  "update_osip_main argv = bnd (getopt_loop False argv no_opts) main_handle"

subsection \<open>Collecting the options\<close>

lemma getopt_step_b [simp]: "getopt_step CHR ''b'' a s = ret (s\<lparr>backup_flag := True\<rparr>)"
  by (simp add: getopt_step_def)

lemma getopt_step_r [simp]: "getopt_step CHR ''r'' a s = ret (s\<lparr>restore_flag := True\<rparr>)"
  by (simp add: getopt_step_def)

lemma getopt_step_i [simp]: "getopt_step CHR ''i'' a s =
    (if length (inval_values s) < INVAL_MAX
     then ret (s\<lparr>inval_flag := True, inval_values := inval_values s @ [atoi a]\<rparr>) else crash OutOfBounds)"
  by (simp add: getopt_step_def)

lemma getopt_loop_i:
  "length (inval_values s) \<le> INVAL_MAX \<Longrightarrow> getopt_loop True (map (Pair CHR ''i'') as) s w =
    (if length (inval_values s) + length as \<le> INVAL_MAX
     then (Ret (s\<lparr>inval_flag := inval_flag s \<or> as \<noteq> [], inval_values := inval_values s @ map atoi as\<rparr>), w)
     else (Fault OutOfBounds, w))"
proof (induction as arbitrary: s)
  case Nil
  then show ?case by (simp add: ret_apply)
next
  case (Cons a as)
  show ?case
  proof (cases "length (inval_values s) < INVAL_MAX")
    case True
    then show ?thesis
      using Cons.IH [of "s\<lparr>inval_flag := True, inval_values := inval_values s @ [atoi a]\<rparr>"] by simp
  qed (use Cons.prems in simp)
qed

subsection \<open>Exit statuses\<close>

text \<open>A program that never ends the process with status 0.\<close>

definition no_success :: "'a io \<Rightarrow> bool" where
  "no_success m \<longleftrightarrow> (\<forall>w. fst (m w) \<noteq> Exit 0)"

named_theorems success_intros \<open>programs that do not end with status 0\<close>

lemma no_success_pure [success_intros]:
  "no_success (ret x)" "no_success (crash f)" "c \<noteq> 0 \<Longrightarrow> no_success (exit_with c)" "no_success ask" "no_success close_fd"
  "no_success (lseek_dev h off)" "no_success (ioctl_write_rr b)"
  by (simp_all add: no_success_def ret_def crash_def exit_with_def ask_def close_fd_def lseek_dev_def ioctl_write_rr_def)

lemma no_success_bnd [success_intros]:
  assumes "no_success m" and "\<And>x. no_success (k x)"
  shows "no_success (bnd m k)"
  unfolding no_success_def
proof
  fix w
  show "fst (bnd m k w) \<noteq> Exit 0"
  proof (cases "m w")
    case (Pair r v)
    then have "r \<noteq> Exit 0" using assms(1) by (auto simp: no_success_def dest: spec [of _ w])
    then show ?thesis using assms(2) Pair by (cases r) (simp_all add: bnd_def no_success_def)
  qed
qed

lemma no_success_split [success_intros]:
  "no_success a \<Longrightarrow> no_success b \<Longrightarrow> no_success (if c then a else b)"
  "no_success a \<Longrightarrow> (\<And>x. no_success (k x)) \<Longrightarrow> no_success (case y of None \<Rightarrow> a | Some x \<Rightarrow> k x)"
  "(\<And>x y. no_success (k' x y)) \<Longrightarrow> no_success (case p of (x, y) \<Rightarrow> k' x y)"
  "(\<And>x. no_success (l x)) \<Longrightarrow> (\<And>y. no_success (l' y)) \<Longrightarrow> no_success (case t of Inl x \<Rightarrow> l x | Inr y \<Rightarrow> l' y)"
  by (simp_all split: option.split prod.split sum.split)

lemma no_success_calls [success_intros]:
  "no_success open_fd" "no_success (read_dev h n)" "no_success (write_dev h bs)" "no_success (read_erase_size n)"
  "no_success (load_file path)"
  by (auto simp: no_success_def open_fd_def read_dev_def write_dev_def read_erase_size_def load_file_def bnd_def ask_def ret_def Let_def
      split: outcome.splits option.splits)

lemma no_success_dump [success_intros]: "no_success (dump_osip_header osip)"
proof -
  have "no_success (dump_descs ds is)" for ds "is"
    by (induction ds "is" rule: dump_descs.induct) (auto intro: success_intros)
  then show ?thesis by (simp add: dump_osip_header_def)
qed

lemma no_success_check_blocks [success_intros]: "no_success (check_blocks n h blob)"
  by (induction n arbitrary: h blob) (auto intro!: success_intros)

lemma no_success_device [success_intros]:
  "no_success get_page_size" "no_success (write_OSIP osip)" "no_success (read_OSIP_loc location dump)" "no_success (write_backup osip)"
  "no_success (write_OSII_entry osii n location)" "no_success (write_blob data blob sz lba block_size)"
  "no_success (crack_stitched_image img)" "no_success (check_image_valid sz data lba)"
  unfolding get_page_size_def write_OSIP_def get_block_size_def read_OSIP_loc_def write_backup_def write_OSII_entry_def write_blob_def
    crack_stitched_image_def check_image_valid_def Let_def
  by (intro success_intros)+

lemma no_success_handlers [success_intros]:
  "no_success restore_handle" "no_success (update_handle osii n)" "no_success (flash_stitch_image img n)"
proof -
  have "no_success (write_stitch_image data sz n)" for data sz
    unfolding write_stitch_image_def Let_def by (intro success_intros)
  then show "no_success (flash_stitch_image img n)"
    unfolding flash_stitch_image_def by (auto intro!: success_intros split: option.split load.split)
qed (unfold restore_handle_def update_handle_def Let_def, (intro success_intros)+)

subsection \<open>Invalidating without a backup\<close>

text \<open>The options other than \<open>--invalidate\<close> and \<open>--check\<close>, and what they collect.\<close>

definition other_opts :: "(char \<times> string) list \<Rightarrow> (char \<times> string) list" where
  "other_opts cs = filter (\<lambda>(c, _). c \<noteq> CHR ''i'' \<and> c \<noteq> CHR ''c'') cs"

definition strip :: "opts \<Rightarrow> opts" where
  "strip s = s\<lparr>inval_flag := False, check_flag := False, inval_values := []\<rparr>"

lemma getopt_step_c [simp]: "getopt_step CHR ''c'' a s = ret (s\<lparr>check_flag := True\<rparr>)"
  by (simp add: getopt_step_def)

lemma strip_simps [simp]:
  "strip (s\<lparr>check_flag := f\<rparr>) = strip s" "strip (s\<lparr>inval_flag := f, inval_values := vs\<rparr>) = strip s"
  "strip no_opts = no_opts"
  by (simp_all add: strip_def no_opts_def)

lemma getopt_step_strip:
  assumes "c \<noteq> CHR ''i''" and "c \<noteq> CHR ''c''"
  shows "(\<exists>s'. getopt_step c a s w = (Ret s', w) \<and> getopt_step c a (strip s) w = (Ret (strip s'), w)
      \<and> inval_flag s' = inval_flag s \<and> inval_values s' = inval_values s \<and> backup_flag s' = (backup_flag s \<or> CHR ''b'' = c))
    \<or> (\<exists>r. getopt_step c a s w = (r, w) \<and> getopt_step c a (strip s) w = (r, w) \<and> (r = Exit 1 \<or> r = Abort))"
  using assms
  by (auto simp: getopt_step_def strip_def ret_apply display_usage_def exit_apply)

lemma getopt_loop_strip:
  assumes "length (inval_values s) + length (filter (\<lambda>(c, _). c = CHR ''i'') cs) \<le> INVAL_MAX"
  shows "(\<exists>s'. getopt_loop True cs s w = (Ret s', w) \<and> getopt_loop True (other_opts cs) (strip s) w = (Ret (strip s'), w)
      \<and> inval_flag s' = (inval_flag s \<or> CHR ''i'' \<in> fst ` set cs) \<and> backup_flag s' = (backup_flag s \<or> CHR ''b'' \<in> fst ` set cs))
    \<or> (\<exists>r. getopt_loop True cs s w = (r, w) \<and> getopt_loop True (other_opts cs) (strip s) w = (r, w) \<and> (r = Exit 1 \<or> r = Abort))"
  using assms
proof (induction cs arbitrary: s)
  case Nil
  then show ?case by (simp add: other_opts_def ret_apply)
next
  case (Cons x cs)
  obtain c a where o: "x = (c, a)" by (cases x)
  consider "c = CHR ''i''" | "c = CHR ''c''" | "c \<noteq> CHR ''i''" "c \<noteq> CHR ''c''" by blast
  then show ?case
  proof cases
    case 1
    with Cons.prems o Cons.IH [of "s\<lparr>inval_flag := True, inval_values := inval_values s @ [atoi a]\<rparr>"]
    show ?thesis by (simp add: other_opts_def)
  next
    case 2
    with Cons.prems o Cons.IH [of "s\<lparr>check_flag := True\<rparr>"] show ?thesis by (simp add: other_opts_def)
  next
    case 3
    from getopt_step_strip [OF this, of a s w] show ?thesis
    proof
      assume "\<exists>s'. getopt_step c a s w = (Ret s', w) \<and> getopt_step c a (strip s) w = (Ret (strip s'), w)
        \<and> inval_flag s' = inval_flag s \<and> inval_values s' = inval_values s \<and> backup_flag s' = (backup_flag s \<or> CHR ''b'' = c)"
      then obtain s' where s': "getopt_step c a s w = (Ret s', w)" "getopt_step c a (strip s) w = (Ret (strip s'), w)"
        "inval_flag s' = inval_flag s" "inval_values s' = inval_values s" "backup_flag s' = (backup_flag s \<or> CHR ''b'' = c)" by blast
      from Cons.IH [of s'] Cons.prems o 3 s' show ?thesis by (simp add: other_opts_def bnd_def)
    qed (use o 3 in \<open>auto simp: other_opts_def bnd_def\<close>)
  qed
qed

text \<open>One program ends like another, but with status -1 where the other one succeeds.\<close>

definition refused :: "unit run \<times> world \<Rightarrow> unit run \<times> world" where
  "refused r = (if fst r = Exit 0 then Exit (-1) else fst r, snd r)"

lemma refused_bnd:
  assumes "no_success m" and "\<And>x w. k x w = refused (k' x w)"
  shows "bnd m k w = refused (bnd m k' w)"
proof (cases "m w")
  case (Pair r v)
  then have "r \<noteq> Exit 0" using assms(1) by (auto simp: no_success_def dest: spec [of _ w])
  with assms(2) Pair show ?thesis by (cases r) (simp_all add: bnd_def refused_def)
qed

lemma no_success_or_error: "no_success m \<Longrightarrow> no_success (or_error m)"
  unfolding or_error_def early_terminated_def by (intro success_intros) simp_all

lemma main_handle_refused:
  assumes "inval_flag s" and "\<not> backup_flag s"
  shows "main_handle s w = refused (main_handle (strip s) w)"
proof -
  let ?restore = "if restore_flag s then or_error restore_handle else ret ()"
  let ?update = "if update_flag s
    then bnd (case fwBinFile s of None \<Rightarrow> ret () | Some img \<Rightarrow> or_error (flash_stitch_image img (update_num s)))
      (\<lambda>_. or_error (update_handle (opt_osii s) (update_num s))) else ret ()"
  have "no_success ?restore" "no_success ?update"
    by (intro success_intros no_success_or_error)+
  moreover have "bnd early_terminated k v = refused (exit_with 0 v)" for k :: "unit \<Rightarrow> unit io" and v
    by (simp add: bnd_def early_terminated_def exit_apply refused_def)
  ultimately have "bnd ?restore (\<lambda>_. bnd ?update (\<lambda>_. bnd early_terminated k)) w =
      refused (bnd ?restore (\<lambda>_. bnd ?update (\<lambda>_. exit_with 0)) w)" for k :: "unit \<Rightarrow> unit io"
    by (intro refused_bnd)
  moreover have "bnd (ret ()) k = (k () :: unit io)" for k by (rule ext) simp
  ultimately show ?thesis
    using assms unfolding main_handle_def by (simp add: strip_def cong del: if_weak_cong option.case_cong_weak)
qed

text \<open>The options that neither restore, update, back up nor end the program only collect fields.\<close>

lemma getopt_loop_fields:
  "fst ` set cs \<subseteq> set ''gmnaelst'' \<Longrightarrow> \<exists>s'. getopt_loop True cs s w = (Ret s', w)
    \<and> backup_flag s' = backup_flag s \<and> restore_flag s' = restore_flag s \<and> update_flag s' = update_flag s
    \<and> inval_flag s' = inval_flag s \<and> check_flag s' = check_flag s"
proof (induction cs arbitrary: s)
  case (Cons x cs)
  obtain c a where x: "x = (c, a)" by (cases x)
  with Cons.prems have "c \<in> set ''gmnaelst''" by simp
  then obtain s' where "getopt_step c a s = ret s'" "backup_flag s' = backup_flag s" "restore_flag s' = restore_flag s"
      "update_flag s' = update_flag s" "inval_flag s' = inval_flag s" "check_flag s' = check_flag s"
    by (auto simp: getopt_step_def)
  with Cons.IH [of s'] Cons.prems x show ?case by simp
qed (simp add: ret_apply)

lemma no_flags: "\<not> inval_flag no_opts" "\<not> backup_flag no_opts"
  by (simp_all add: no_opts_def)

lemma getopt_loop_any: "xs \<noteq> [] \<Longrightarrow> getopt_loop False xs = getopt_loop True xs"
  by (rule ext, cases xs) auto

lemma update_osip_refused:
  assumes "CHR ''i'' \<in> fst ` set cs" and "CHR ''b'' \<notin> fst ` set cs" and "length (filter (\<lambda>(c, _). c = CHR ''i'') cs) \<le> 10"
  shows "update_osip_main cs w = (if other_opts cs = [] then (Exit (-1), w) else refused (update_osip_main (other_opts cs) w))"
proof -
  have cs: "cs \<noteq> []" using assms(1) by auto
  have "length (inval_values no_opts) + length (filter (\<lambda>(c, _). c = CHR ''i'') cs) \<le> INVAL_MAX"
    using assms(3) by (simp add: INVAL_MAX_def no_opts_def)
  from getopt_loop_strip [OF this, of w] consider
      (collected) s' where "getopt_loop True cs no_opts w = (Ret s', w)" "getopt_loop True (other_opts cs) no_opts w = (Ret (strip s'), w)"
        "inval_flag s'" "\<not> backup_flag s'"
    | (ended) r where "getopt_loop True cs no_opts w = (r, w)" "getopt_loop True (other_opts cs) no_opts w = (r, w)" "r = Exit 1 \<or> r = Abort"
    using assms(1,2) by (auto simp: no_flags)
  then show ?thesis
  proof cases
    case collected
    have m: "update_osip_main cs w = refused (main_handle (strip s') w)"
      using main_handle_refused [OF collected(3,4)] collected(1) cs by (simp add: update_osip_main_def bnd_def getopt_loop_any)
    show ?thesis
    proof (cases "other_opts cs = []")
      case True
      with collected(2) have "strip s' = no_opts" by (simp add: ret_apply)
      with m True show ?thesis by (simp add: main_handle_def no_opts_def exit_apply refused_def)
    next
      case False
      with m collected(2) show ?thesis by (simp add: update_osip_main_def bnd_def getopt_loop_any)
    qed
  next
    case ended
    then have "other_opts cs \<noteq> []" by (auto simp: ret_apply)
    with ended cs show ?thesis by (auto simp: update_osip_main_def bnd_def refused_def getopt_loop_any)
  qed
qed

text \<open>
  C6: the tool refuses \<open>--invalidate\<close> (up to ten times) without \<open>--backup\<close>, whatever the other options, the device and the environment: it
  does exactly what the same command does without \<open>--invalidate\<close> and \<open>--check\<close>, so a \<open>--restore\<close> or \<open>--update\<close> beside it is carried out first, and
  ends with status -1 where that command ends with 0; no such command succeeds. With options for fields, an image or a check only, nothing is done: not a single system
  call has been made.
\<close>

theorem invalidate_needs_backup:
  assumes "CHR ''i'' \<in> fst ` set cs" and "CHR ''b'' \<notin> fst ` set cs" and "length (filter (\<lambda>(c, _). c = CHR ''i'') cs) \<le> 10"
  shows "update_osip_main cs w = (if other_opts cs = [] then (Exit (-1), w) else refused (update_osip_main (other_opts cs) w))
    \<and> fst (update_osip_main cs w) \<noteq> Exit 0
    \<and> (fst ` set cs \<subseteq> set ''icgmnaelst'' \<longrightarrow> update_osip_main cs w = (Exit (-1), w))"
proof -
  note main = update_osip_refused [OF assms, of w]
  have "update_osip_main cs w = (Exit (-1), w)" if sub: "fst ` set cs \<subseteq> set ''icgmnaelst''"
  proof (cases "other_opts cs = []")
    case False
    have "fst ` set (other_opts cs) \<subseteq> set ''gmnaelst''" using sub by (fastforce simp: other_opts_def)
    from getopt_loop_fields [OF this, of no_opts w]
    have "update_osip_main (other_opts cs) w = (Exit 0, w)"
      using False by (auto simp: update_osip_main_def bnd_def main_handle_def no_opts_def exit_apply ret_apply getopt_loop_any)
    with main False show ?thesis by (simp add: refused_def)
  qed (use main in simp)
  then show ?thesis using main by (auto simp: refused_def)
qed

theorem invalidate_needs_backup_witness:
  "update_osip_main [(CHR ''i'', ''1''), (CHR ''g'', ''a.bin'')] (sample_world []) = (Exit (-1), sample_world [])
    \<and> update_osip_main [(CHR ''r'', []), (CHR ''i'', ''1'')] (sample_world []) =
      refused (update_osip_main [(CHR ''r'', [])] (sample_world []))"
proof
  show "update_osip_main [(CHR ''i'', ''1''), (CHR ''g'', ''a.bin'')] (sample_world []) = (Exit (-1), sample_world [])"
    by (rule invalidate_needs_backup [THEN conjunct2, THEN conjunct2, THEN mp]) simp_all
  show "update_osip_main [(CHR ''r'', []), (CHR ''i'', ''1'')] (sample_world []) =
      refused (update_osip_main [(CHR ''r'', [])] (sample_world []))"
    using invalidate_needs_backup [of "[(CHR ''r'', []), (CHR ''i'', ''1'')]" "sample_world []"] by (simp add: other_opts_def)
qed

text \<open>More than ten \<open>--invalidate\<close> options write past the array that collects them.\<close>

lemma invalidate_options_overflow:
  assumes "10 < length as"
  shows "update_osip_main ((CHR ''b'', []) # map (Pair CHR ''i'') as) w = (Fault OutOfBounds, w)"
  using assms unfolding update_osip_main_def
  by (simp add: bnd_def [of "bnd _ _"] getopt_loop_i INVAL_MAX_def no_opts_def)

subsection \<open>Backup, invalidate, restore\<close>

lemma main_backup_invalidate:
  assumes "disk_ok w" and h: "h = osip_at 0 w" "sane_OSIP h"
    and ds: "invalidate_values (map atoi as) (desc h) = Some ds" and as: "as \<noteq> []" "length as \<le> 10"
  shows "update_osip_main ((CHR ''b'', []) # map (Pair CHR ''i'') as) w = (Exit 0, w\<lparr>calls := calls w + 12,
    dev := blit 0 (enc_OSIP (stamp (h\<lparr>desc := ds\<rparr>))) (blit BACKUP_LOC (enc_OSIP h) (dev w))\<rparr>)"
proof -
  let ?w = "w\<lparr>calls := calls w + 6, dev := blit BACKUP_LOC (enc_OSIP h) (dev w)\<rparr>"
  note len = disk_okD(3) [OF assms(1)] and wf = sane_OSIPD [OF h(2)]
  have room: "BACKUP_LOC + length (enc_OSIP h) \<le> length (dev w)" using len wf by (simp add: BACKUP_LOC_def)
  have 1: "read_OSIP_loc R_START True w = (Ret (0, h), w\<lparr>calls := calls w + 2\<rparr>)"
    using assms(1) h wf by (simp add: read_OSIP_loc_reliable)
  have 2: "backup_handle h (w\<lparr>calls := calls w + 2\<rparr>) = (Ret 0, ?w)"
    using assms(1) wf by (simp add: backup_handle_reliable)
  have "osip_at 0 ?w = h"
    using osip_at_blit_other [OF room, of 0] h(1) by (simp add: osip_at_dev BACKUP_LOC_def)
  then have 3: "invalidate_handle (map atoi as) ?w = (Ret 0, ?w\<lparr>calls := calls w + 12,
      dev := blit 0 (enc_OSIP (stamp (h\<lparr>desc := ds\<rparr>))) (dev ?w)\<rparr>)"
    using invalidate_handle_reliable [of ?w "map atoi as" ds] assms(1) room h(2) ds by simp
  have "getopt_loop True (map (Pair CHR ''i'') as) (no_opts\<lparr>backup_flag := True\<rparr>) w =
      (Ret (no_opts\<lparr>backup_flag := True, inval_flag := True, inval_values := map atoi as\<rparr>), w)"
    using as by (simp add: getopt_loop_i no_opts_def INVAL_MAX_def)
  then have "update_osip_main ((CHR ''b'', []) # map (Pair CHR ''i'') as) w =
      main_handle (no_opts\<lparr>backup_flag := True, inval_flag := True, inval_values := map atoi as\<rparr>) w"
    by (simp add: update_osip_main_def bnd_def [of "bnd _ _"])
  then show ?thesis
    using 1 2 3 by (simp add: main_handle_def or_error_def no_opts_def bnd_def ret_apply exit_apply)
qed

lemma main_restore:
  assumes "disk_ok w" and "sane_OSIP (osip_at BACKUP_LOC w)" and "sig (osip_at BACKUP_LOC w) = OSIP_SIG"
  shows "update_osip_main [(CHR ''r'', [])] w = (Exit 0, w\<lparr>calls := calls w + 9,
    dev := blit BACKUP_LOC (replicate 200 0) (blit 0 (enc_OSIP (stamp (osip_at BACKUP_LOC w))) (dev w)),
    osnib := osnib w @ [RR_SIGNED_MOS]\<rparr>)"
  using restore_handle_reliable [OF assms]
  by (simp add: update_osip_main_def main_handle_def or_error_def no_opts_def bnd_def ret_apply exit_apply)

text \<open>
  C2: a complete cycle. On a device whose header carries the signature and a valid checksum, 
  \<open>--backup --invalidate a...\<close> ends with status 0, keeps the header in the backup area and wipes
  the first identifier with each of the attributes (all but its start block, size and attribute); 
  \<open>--restore\<close> then ends with status 0, brings back every byte outside the backup area, clears that area, and reports one reboot reason.
\<close>

theorem backup_invalidate_restore:
  assumes "disk_ok w" and "h = osip_at 0 w" and "sane_OSIP h" and "sig h = OSIP_SIG" and "stamp h = h"
    and "as \<noteq> []" and "length as \<le> 10" and "\<forall>a\<in>set as. find_attribute (desc h) (atoi a) \<noteq> None"
  shows "\<exists>w1 w2. update_osip_main ((CHR ''b'', []) # map (Pair CHR ''i'') as) w = (Exit 0, w1)
    \<and> update_osip_main [(CHR ''r'', [])] w1 = (Exit 0, w2)
    \<and> osip_at BACKUP_LOC w1 = h
    \<and> desc (osip_at 0 w1) = map (\<lambda>j. if \<exists>a\<in>set as. find_attribute (desc h) (atoi a) = Some j
        then invalidate_OSII (desc h ! j) else desc h ! j) [0..<7]
    \<and> dev w2 = blit BACKUP_LOC (replicate 200 0) (dev w) \<and> osnib w2 = osnib w @ [RR_SIGNED_MOS]"
proof -
  note len = disk_okD(3) [OF assms(1)] and wf = sane_OSIPD(1) [OF assms(3)]
  define ds where "ds = map (\<lambda>j. if \<exists>a\<in>set as. find_attribute (desc h) (atoi a) = Some j
        then invalidate_OSII (desc h ! j) else desc h ! j) [0..<7]"
  have ds: "invalidate_values (map atoi as) (desc h) = Some ds"
    using assms(8) wf by (simp add: invalidate_values_spec ds_def wf_OSIP_def layout_defs)
  let ?g = "stamp (h\<lparr>desc := ds\<rparr>)"
  have g: "wf_OSIP ?g" using sane_OSIPD(1) [OF sane_invalidate [OF assms(3) ds]] by simp
  let ?d = "blit BACKUP_LOC (enc_OSIP h) (dev w)"
  define w1 where "w1 = w\<lparr>calls := calls w + 12, dev := blit 0 (enc_OSIP ?g) ?d\<rparr>"
  have 1: "update_osip_main ((CHR ''b'', []) # map (Pair CHR ''i'') as) w = (Exit 0, w1)"
    unfolding w1_def by (rule main_backup_invalidate [OF assms(1-3) ds assms(6,7)])
  have dev: "length ?d = length (dev w)" "bslice BACKUP_LOC 200 (dev w1) = enc_OSIP h"
      "bslice 0 200 (dev w1) = enc_OSIP ?g"
    using len wf g by (simp_all add: w1_def BACKUP_LOC_def bslice_blit_same bslice_blit_after)
  have at: "osip_at BACKUP_LOC w1 = h" "osip_at 0 w1 = ?g"
    using dev wf g by (simp_all add: osip_at_def layout_defs dec_enc_OSIP)
  have "disk_ok w1" using assms(1) len wf g by (simp add: w1_def disk_ok_def BACKUP_LOC_def)
  then obtain w2 where 2: "update_osip_main [(CHR ''r'', [])] w1 = (Exit 0, w2)"
      "dev w2 = blit BACKUP_LOC (replicate 200 0) (blit 0 (enc_OSIP h) (dev w1))"
      "osnib w2 = osnib w1 @ [RR_SIGNED_MOS]"
    using main_restore [of w1] at assms(3-5) by simp
  have "enc_OSIP h = bslice 0 200 (dev w)"
    using assms(2) len by (simp add: osip_at_def layout_defs enc_dec_OSIP)
  then have "dev w2 = blit BACKUP_LOC (replicate 200 0) (dev w)"
    unfolding 2(2) w1_def using len wf g
    by (simp add: BACKUP_LOC_def blit_overwrite blit_commute [of 0] blit_bslice_id)
  with 1 2 at show ?thesis by (intro exI [of _ w1] exI [of _ w2]) (simp add: ds_def w1_def)
qed

theorem backup_invalidate_restore_witness:
  "\<exists>w1 w2. update_osip_main [(CHR ''b'', []), (CHR ''i'', ''1'')] (sample_world (replicate 200 0)) = (Exit 0, w1)
    \<and> update_osip_main [(CHR ''r'', [])] w1 = (Exit 0, w2)
    \<and> osip_at BACKUP_LOC w1 = sample_header
    \<and> desc (osip_at 0 w1) = map (\<lambda>j. if \<exists>a\<in>{''1''}. find_attribute (desc sample_header) (atoi a) = Some j
        then invalidate_OSII (desc sample_header ! j) else desc sample_header ! j) [0..<7]
    \<and> dev w2 = blit BACKUP_LOC (replicate 200 0) (dev (sample_world (replicate 200 0)))
    \<and> osnib w2 = [RR_SIGNED_MOS]"
proof -
  have "atoi ''1'' = 1" by code_simp
  then show ?thesis
    using backup_invalidate_restore [of "sample_world (replicate 200 0)" sample_header "[''1'']"] by simp
qed

end
