(* ===== verification/Confinement.thy ===== *)
theory Confinement
  imports Update_Osip
begin

text \<open>
  Which bytes a program may change, whatever the environment does. \<open>confined lim m\<close>: no run of \<open>m\<close> changes the size of the device
  or a byte at or behind \<open>lim\<close>. The handlers that work on the OSIP header are confined to the end of the
  backup copy, also when calls fail or transfer less than they were asked to.
\<close>

definition confined :: "nat \<Rightarrow> 'a io \<Rightarrow> bool" where
  "confined lim m \<longleftrightarrow> (\<forall>w. length (dev (snd (m w))) = length (dev w) \<and> drop lim (dev (snd (m w))) = drop lim (dev w))"

named_theorems confined_intros \<open>confinement of programs\<close>

lemma confinedD:
  "confined lim m \<Longrightarrow> m w = (r, w') \<Longrightarrow> length (dev w') = length (dev w) \<and> drop lim (dev w') = drop lim (dev w)"
  unfolding confined_def by (metis snd_conv)

lemma confined_same_dev: "(\<And>w. dev (snd (m w)) = dev w) \<Longrightarrow> confined lim m"
  by (simp add: confined_def)

lemma confined_pure [confined_intros]:
  "confined lim (ret x)" "confined lim (exit_with c)" "confined lim (crash f)" "confined lim close_fd"
  "confined lim ask"
  by (simp_all add: confined_same_dev ret_def exit_with_def crash_def close_fd_def ask_def)

text \<open>What every returned value satisfies.\<close>

definition yields :: "('a \<Rightarrow> bool) \<Rightarrow> 'a io \<Rightarrow> bool" where
  "yields Q m \<longleftrightarrow> (\<forall>w x w'. m w = (Ret x, w') \<longrightarrow> Q x)"

lemma yields_ret: "Q x \<Longrightarrow> yields Q (ret x)"
  by (simp add: yields_def ret_def)

lemma yields_bnd: "(\<And>x. yields Q (k x)) \<Longrightarrow> yields Q (bnd m k)"
  by (auto simp: yields_def bnd_eq_Ret)

lemma yields_if: "yields Q a \<Longrightarrow> yields Q b \<Longrightarrow> yields Q (if c then a else b)"
  by simp

lemma yields_case_option:
  "yields Q m \<Longrightarrow> (\<And>x. yields Q (k x)) \<Longrightarrow> yields Q (case y of None \<Rightarrow> m | Some x \<Rightarrow> k x)"
  by (simp split: option.split)

lemma read_dev_length: "read_dev h n w = (Ret (Some bs, h'), w') \<Longrightarrow> length bs \<le> n"
  using transfer_le [of "env w (calls w)" n]
  by (auto simp: read_dev_def bnd_def ask_def Let_def bslice_def split: outcome.splits)

lemma yields_read:
  assumes "yields Q m" and "\<And>bs. length bs \<le> n \<Longrightarrow> yields Q (k bs)"
  shows "yields Q (bnd (read_dev h n) (\<lambda>(r, _). case r of None \<Rightarrow> m | Some bs \<Rightarrow> k bs))"
  using assms unfolding yields_def bnd_eq_Ret
  by (force split: option.splits dest: read_dev_length)

lemma confined_post:
  assumes m: "confined lim m" and Q: "yields Q m" and k: "\<And>x. Q x \<Longrightarrow> confined lim (k x)"
  shows "confined lim (bnd m k)"
  unfolding confined_def
proof
  fix w
  show "length (dev (snd (bnd m k w))) = length (dev w) \<and> drop lim (dev (snd (bnd m k w))) = drop lim (dev w)"
  proof (cases "m w")
    case (Pair r v)
    note v = confinedD [OF m Pair]
    show ?thesis
    proof (cases r)
      case (Ret x)
      then have "confined lim (k x)" using Q Pair k by (auto simp: yields_def)
      then show ?thesis
        using v Pair Ret by (simp add: bnd_def confined_def)
    qed (use v Pair in \<open>simp_all add: bnd_def\<close>)
  qed
qed

lemma confined_bnd [confined_intros]:
  "confined lim m \<Longrightarrow> (\<And>x. confined lim (k x)) \<Longrightarrow> confined lim (bnd m k)"
  by (rule confined_post [where Q = "\<lambda>_. True"]) (simp_all add: yields_def)

lemma confined_if [confined_intros]:
  "confined lim a \<Longrightarrow> confined lim b \<Longrightarrow> confined lim (if c then a else b)"
  by simp

lemma confined_case_option [confined_intros]:
  "confined lim m \<Longrightarrow> (\<And>x. confined lim (k x)) \<Longrightarrow> confined lim (case y of None \<Rightarrow> m | Some x \<Rightarrow> k x)"
  by (simp split: option.split)

lemma confined_case_prod [confined_intros]:
  "(\<And>x y. confined lim (k x y)) \<Longrightarrow> confined lim (case p of (x, y) \<Rightarrow> k x y)"
  by (simp split: prod.split)

lemma open_fd_dev: "dev (snd (open_fd w)) = dev w"
  by (simp add: open_fd_def bnd_def ask_def ret_def split: outcome.split)

lemma open_fd_0: "open_fd w = (Ret fd, w') \<Longrightarrow> fd = None \<or> fd = Some 0"
  by (auto simp: open_fd_def bnd_def ask_def ret_def split: outcome.splits)

lemma confined_open:
  assumes "confined lim m" and "confined lim (k 0)"
  shows "confined lim (bnd open_fd (\<lambda>fd. case fd of None \<Rightarrow> m | Some h \<Rightarrow> k h))"
  by (rule confined_post [where Q = "\<lambda>fd. fd = None \<or> fd = Some 0"])
    (use assms in \<open>auto simp: open_fd_dev yields_def intro: confined_same_dev dest: open_fd_0\<close>)

lemma confined_seek:
  assumes "confined lim (k h)" and "confined lim (k (nat off))"
  shows "confined lim (bnd (lseek_dev h off) k)"
  by (rule confined_post [where Q = "\<lambda>x. x = h \<or> x = nat off"])
    (use assms in \<open>auto simp: lseek_dev_def yields_def intro: confined_same_dev\<close>)

lemma confined_read [confined_intros]: "confined lim (read_dev h n)"
  by (rule confined_same_dev) (simp add: read_dev_def bnd_def ask_def Let_def split: outcome.split)

lemma confined_read_erase_size [confined_intros]: "confined lim (read_erase_size n)"
  by (rule confined_same_dev) (simp add: read_erase_size_def bnd_def ask_def)

lemma drop_blit: "h + length bs \<le> lim \<Longrightarrow> h + length bs \<le> length d \<Longrightarrow> drop lim (blit h bs d) = drop lim d"
  by (simp add: blit_def)

lemma confined_write:
  assumes "h + length bs \<le> lim"
  shows "confined lim (write_dev h bs)"
  unfolding confined_def
proof
  fix w :: world
  let ?n = "transfer (env w (calls w)) (min (length bs) (length (dev w) - h))"
  have n: "?n \<le> length bs" "?n \<le> length (dev w) - h"
    using transfer_le [of "env w (calls w)" "min (length bs) (length (dev w) - h)"] by auto
  show "length (dev (snd (write_dev h bs w))) = length (dev w)
    \<and> drop lim (dev (snd (write_dev h bs w))) = drop lim (dev w)"
  proof (cases "bs = [] \<or> length (dev w) \<le> h")
    case True
    then show ?thesis by (auto simp: write_dev_def bnd_def ask_def Let_def)
  next
    case False
    then have "h + length (take ?n bs) \<le> length (dev w)" "h + length (take ?n bs) \<le> lim"
      using n assms by auto
    then show ?thesis
      by (auto simp: write_dev_def bnd_def ask_def Let_def drop_blit)
  qed
qed

subsection \<open>The handlers\<close>

lemma confined_get_block_size [confined_intros]: "confined lim get_block_size"
  unfolding get_block_size_def get_page_size_def Let_def
  by (intro confined_intros confined_open)

lemma confined_dump [confined_intros]: "confined lim (dump_osip_header osip)"
proof -
  have "confined lim (dump_descs ds is)" for ds "is"
    by (induction ds "is" rule: dump_descs.induct) (auto intro: confined_intros)
  then show ?thesis by (simp add: dump_osip_header_def)
qed

lemma confined_read_OSIP_loc [confined_intros]: "confined lim (read_OSIP_loc location dump)"
  unfolding read_OSIP_loc_def Let_def
  by (intro confined_intros confined_open confined_seek)

lemma wf_dec_overlay: "length bs \<le> 200 \<Longrightarrow> wf_OSIP (dec_OSIP (overlay 200 bs))"
  by (simp add: overlay_def)

lemma read_OSIP_loc_wf: "yields (\<lambda>(r, osip). wf_OSIP osip) (read_OSIP_loc location dump)"
  unfolding read_OSIP_loc_def Let_def
  by (rule yields_bnd yields_case_option yields_ret yields_read yields_if | simp add: memset_OSIP_enc layout_defs wf_dec_overlay)+

lemma confined_after_read:
  "(\<And>r osip. wf_OSIP osip \<Longrightarrow> confined lim (k r osip)) \<Longrightarrow>
    confined lim (bnd (read_OSIP_loc location dump) (\<lambda>(r, osip). k r osip))"
  by (rule confined_post [OF confined_read_OSIP_loc read_OSIP_loc_wf]) auto

lemma confined_write_OSIP:
  assumes "wf_OSIP osip" and "200 \<le> lim"
  shows "confined lim (write_OSIP osip)"
proof -
  have "length (enc_OSIP (osip\<lparr>header_checksum := c\<rparr>)) = 200" for c
    using assms(1) by (intro length_enc_OSIP) (simp add: wf_OSIP_def)
  then show ?thesis
    unfolding write_OSIP_def Let_def
    by (intro confined_intros confined_open confined_seek confined_write) (use assms in simp_all)
qed

lemma confined_write_backup:
  "wf_OSIP osip \<Longrightarrow> 424 \<le> lim \<Longrightarrow> confined lim (write_backup osip)"
  unfolding write_backup_def
  by (intro confined_intros confined_open confined_seek confined_write) (simp_all add: BACKUP_LOC_def)

lemma confined_backup_handle: "wf_OSIP osip \<Longrightarrow> 424 \<le> lim \<Longrightarrow> confined lim (backup_handle osip)"
  unfolding backup_handle_def by (intro confined_intros confined_write_backup)

lemma confined_ioctl [confined_intros]: "confined lim (ioctl_write_rr r)"
  by (rule confined_same_dev) (simp add: ioctl_write_rr_def)

lemma confined_restore_handle: "424 \<le> lim \<Longrightarrow> confined lim restore_handle"
  unfolding restore_handle_def
  by (intro confined_after_read confined_intros confined_open confined_write_OSIP confined_write_backup)
    (simp_all add: memset_OSIP_enc)

lemma confined_update_handle:
  assumes "424 \<le> lim"
  shows "confined lim (update_handle osii k)"
proof -
  have "wf_OSIP (osip\<lparr>desc := (desc osip)[nat k := merge_OSII osii (desc osip ! nat k)]\<rparr>)"
    if "wf_OSIP osip" "in_desc k" for osip
  proof -
    have "nat k < 7" using that(2) by (auto simp: in_desc_def layout_defs)
    then show ?thesis
      using that(1) wf_desc_nth [OF that(1)] by (simp add: wf_OSIP_def list_all_update)
  qed
  then have step: "confined lim (if \<not> in_desc k then crash OutOfBounds else
      bnd (write_OSIP (osip\<lparr>desc := (desc osip)[nat k := merge_OSII osii (desc osip ! nat k)]\<rparr>)) (\<lambda>(r, _).
      if r < 0 then ret (-1) else bnd (read_OSIP_loc R_START True) (\<lambda>_. ret 0)))" if "wf_OSIP osip" for osip
    using that assms by (cases "in_desc k") (auto intro!: confined_intros confined_write_OSIP)
  show ?thesis
    unfolding update_handle_def Let_def
    by (rule confined_bnd [OF confined_pure(5)], rule confined_if [OF confined_pure(3)],
        rule confined_after_read, rule step)
qed

lemma confined_invalidate_handle:
  assumes "424 \<le> lim"
  shows "confined lim (invalidate_handle vs)"
proof -
  have "confined lim (case invalidate_values vs (desc osip) of None \<Rightarrow> ret (-1)
     | Some ds \<Rightarrow> bnd (write_OSIP (osip\<lparr>desc := ds\<rparr>)) (\<lambda>(r, _). if r < 0 then ret (-1) else ret 0))"
    if "wf_OSIP osip" for osip
    using that assms wf_invalidate_values [of vs "desc osip"]
    by (auto split: option.split intro!: confined_intros confined_write_OSIP simp: wf_OSIP_def)
  then show ?thesis
    unfolding invalidate_handle_def by (intro confined_after_read confined_if confined_pure)
qed

subsection \<open>The command line\<close>

lemma getopt_step_dev: "dev (snd (getopt_step c a s w)) = dev w"
  by (simp add: getopt_step_def ret_def crash_def display_usage_def exit_with_def)

lemmas confined_getopt_step [confined_intros] = confined_same_dev [OF getopt_step_dev]

lemma confined_getopt_loop: "confined lim (getopt_loop g argv s)"
  by (induction g argv s rule: getopt_loop.induct) (auto intro!: confined_intros simp: display_usage_def)

lemma getopt_step_image:
  "c \<noteq> CHR ''g'' \<Longrightarrow> getopt_step c a s w = (Ret s', w') \<Longrightarrow> fwBinFile s' = fwBinFile s"
  by (auto simp: getopt_step_def ret_def crash_def display_usage_def exit_with_def split: if_splits)

lemma getopt_loop_no_image:
  "\<forall>(c, a)\<in>set argv. c \<noteq> CHR ''g'' \<Longrightarrow> fwBinFile s = None \<Longrightarrow>
    yields (\<lambda>s. fwBinFile s = None) (getopt_loop g argv s)"
proof (induction argv arbitrary: g s)
  case Nil
  then show ?case by (simp add: yields_def ret_def display_usage_def exit_with_def)
next
  case (Cons p argv)
  obtain c a where p: "p = (c, a)" by (cases p)
  show ?case
    unfolding p yields_def getopt_loop.simps bnd_eq_Ret
  proof (intro allI impI, elim exE conjE)
    fix w s' w' x v
    assume step: "getopt_step c a s w = (Ret x, v)" and rest: "getopt_loop True argv x v = (Ret s', w')"
    have "fwBinFile x = None" using getopt_step_image [OF _ step] Cons.prems p by simp
    then have "yields (\<lambda>s. fwBinFile s = None) (getopt_loop True argv x)"
      using Cons by simp
    with rest show "fwBinFile s' = None" unfolding yields_def by blast
  qed
qed

lemma confined_or_error: "confined lim m \<Longrightarrow> confined lim (or_error m)"
  unfolding or_error_def early_terminated_def by (intro confined_intros)

lemma confined_main_handle:
  assumes "fwBinFile s = None" and "424 \<le> lim"
  shows "confined lim (main_handle s)"
proof -
  have backup: "confined lim (bnd (read_OSIP_loc R_START True) (\<lambda>(r, ori_osip).
      if r \<noteq> 0 then exit_with (-1) else or_error (backup_handle ori_osip)))"
    using assms(2) by (intro confined_after_read confined_if confined_pure confined_or_error confined_backup_handle)
  show ?thesis
    using assms(2) unfolding main_handle_def early_terminated_def assms(1) option.case
    by (intro backup confined_or_error confined_restore_handle confined_update_handle
        confined_invalidate_handle confined_intros)
qed

text \<open>
  C7: without \<open>--image\<close>, no command line changes a byte behind the backup header (offset 424) or the
  size of the device, in any environment: failed and short transfers, refused opens and faults included.
\<close>

theorem header_commands_confined:
  assumes "\<forall>(c, a)\<in>set argv. c \<noteq> CHR ''g''"
  shows "length (dev (snd (update_osip_main argv w))) = length (dev w)
    \<and> drop 424 (dev (snd (update_osip_main argv w))) = drop 424 (dev w)"
proof -
  have "confined 424 (update_osip_main argv)"
    unfolding update_osip_main_def
    by (rule confined_post [OF confined_getopt_loop getopt_loop_no_image])
      (use assms in \<open>auto simp: no_opts_def intro: confined_main_handle\<close>)
  then show ?thesis by (simp add: confined_def)
qed

theorem header_commands_confined_witness:
  "drop 424 (dev (snd (update_osip_main [(CHR ''b'', []), (CHR ''i'', ''1'')] (sample_world (replicate 200 0))))) =
    drop 424 (dev (sample_world (replicate 200 0)))"
  using header_commands_confined [of "[(CHR ''b'', []), (CHR ''i'', ''1'')]" "sample_world (replicate 200 0)"]
  by simp

text \<open>
  C8: every handler of the header gives back the descriptors it opened, on every path on which it
  returns and in every environment.
\<close>

theorem handlers_close_descriptors:
  assumes "m \<in> {backup_handle osip, restore_handle, update_handle osii k, invalidate_handle vs,
      write_OSII_entry osii k location, remove_backup_OSII k, invalidate_osip_record i,
      restore_payload_osip_record, write_payload_os_image data sz}"
    and "m w = (Ret r, w')"
  shows "nfds w' = nfds w"
proof -
  have "fd_spec 0 0 m"
    using assms(1) fd_backup_handle fd_restore_handle fd_update_handle fd_invalidate_handle
      fd_write_OSII_entry fd_remove_backup_OSII fd_invalidate_osip_record
      fd_restore_payload_osip_record fd_write_payload_os_image
    by fastforce
  from fd_specD [OF this assms(2), of "nfds w"] show ?thesis by simp
qed

theorem handlers_close_descriptors_witness:
  "nfds (snd (backup_handle sample_header (sample_world (replicate 200 0)))) = 0"
proof -
  have "backup_handle sample_header (sample_world (replicate 200 0)) =
     (Ret 0, snd (backup_handle sample_header (sample_world (replicate 200 0))))"
    by (simp add: backup_handle_reliable)
  from handlers_close_descriptors [where m = "backup_handle sample_header" and osip = sample_header, OF _ this]
  show ?thesis by simp
qed

end
