(* ===== verification/Header_Props.thy ===== *)
theory Header_Props
  imports Confinement
begin

text \<open>
  What the operations on the OSIP header do, branch by branch: the checksum, the entries an update and a
  flash change, the refusals, and the paths on which an error of the device is not noticed.
\<close>

text \<open>
  C10: a header written by \<open>write_OSIP\<close> is the one on the device, its first \<open>header_size\<close> bytes have
  exclusive-or sum zero, and the bytes behind the header are untouched.
\<close>

theorem write_OSIP_checksum:
  assumes "disk_ok w" and "sane_OSIP h" and "8 \<le> unat (header_size h)"
  shows "\<exists>w'. write_OSIP h w = (Ret (1, stamp h), w') \<and> osip_at 0 w' = stamp h
    \<and> xor_sum (take (unat (header_size h)) (dev w')) = 0 \<and> drop 200 (dev w') = drop 200 (dev w)"
proof -
  note len = disk_okD(3) [OF assms(1)] and s = sane_OSIPD [OF assms(2)]
  let ?w = "w\<lparr>calls := calls w + 4, dev := blit 0 (enc_OSIP (stamp h)) (dev w)\<rparr>"
  have "osip_at 0 ?w = stamp h"
    using osip_at_blit_same [of "stamp h" 0 w] s len by (simp add: osip_at_dev)
  moreover have "take (unat (header_size h)) (dev ?w) = take (unat (header_size h)) (enc_OSIP (stamp h))"
    using s len by (simp add: blit_def)
  ultimately show ?thesis
    using assms s len stamp_checksum_zero [OF s(1) assms(3) s(3)]
    by (intro exI [of _ ?w]) (simp add: write_OSIP_disk drop_blit)
qed

theorem write_OSIP_checksum_witness:
  "\<exists>w'. write_OSIP sample_header (sample_world (replicate 200 0)) = (Ret (1, sample_header), w')
    \<and> osip_at 0 w' = sample_header \<and> xor_sum (take 80 (dev w')) = 0
    \<and> drop 200 (dev w') = drop 200 (dev (sample_world (replicate 200 0)))"
  using write_OSIP_checksum [of "sample_world (replicate 200 0)" sample_header] by simp

text \<open>
  C11: \<open>write_OSIP\<close> trusts two fields of the header: it reads past the structure exactly when \<open>header_size\<close> exceeds
  200 bytes (then nothing is written) or \<open>num_pointers\<close> exceeds the seven identifiers (then the header is already on the
  device).
\<close>

theorem write_OSIP_overruns:
  assumes "disk_ok w" and "wf_OSIP h"
  shows "(\<exists>f w'. write_OSIP h w = (Fault f, w')) \<longleftrightarrow> 200 < unat (header_size h) \<or> 7 < unat (num_pointers h)"
  using disk_okD [OF assms(1)] assms(2)
  by (cases "200 < unat (header_size h)") (auto simp: write_OSIP_overrun write_OSIP_reliable)

theorem write_OSIP_overruns_witness:
  "\<exists>f w'. write_OSIP (sample_header\<lparr>num_pointers := 8\<rparr>) (sample_world (replicate 200 0)) = (Fault f, w')"
proof -
  have "wf_OSIP (sample_header\<lparr>num_pointers := 8\<rparr>)"
    using sample_header_simps(5) unfolding wf_OSIP_def by simp
  from write_OSIP_overruns [OF _ this, of "sample_world (replicate 200 0)"] show ?thesis by simp
qed

text \<open>A requested field: all ones keep the old value.\<close>

definition requested :: "'a::len word \<Rightarrow> 'a word \<Rightarrow> 'a word" where
  "requested new old = (if NOT new = 0 then old else new)"

text \<open>The identifier after an update.\<close>

definition updated_OSII :: "OSII \<Rightarrow> OSII \<Rightarrow> OSII" where
  "updated_OSII osii old =
     \<lparr>os_rev_minor = requested (os_rev_minor osii) (os_rev_minor old), os_rev_major = requested (os_rev_major osii) (os_rev_major old),
      logical_start_block = requested (logical_start_block osii) (logical_start_block old),
      ddr_load_address = requested (ddr_load_address osii) (ddr_load_address old),
      entery_point = requested (entery_point osii) (entery_point old),
      size_of_os_image = requested (size_of_os_image osii) (size_of_os_image old),
      attribute = requested (attribute osii) (attribute old), reserved = reserved old\<rparr>"

lemma requested_ones: "requested x y = (if x \<noteq> - 1 then x else y)"
  using bit.compl_eq_compl_iff [of x "- 1"] by (auto simp: requested_def)

lemma merge_OSII_updated: "merge_OSII osii old = updated_OSII osii old"
proof -
  have "- 1 = (0xff :: u8)" "- 1 = (0xffff :: u16)" "- 1 = (0xffffffff :: u32)" by simp_all
  then show ?thesis unfolding updated_OSII_def requested_ones merge_OSII_def by (intro OSII.equality) simp_all
qed

text \<open>
  C12: \<open>--update k\<close> merges the request into identifier \<open>k\<close>, fields that are all ones keeping their value, and
  leaves the other identifiers and the bytes behind the header as they are.
\<close>

theorem update_handle_merges:
  assumes "disk_ok w" and "h = osip_at 0 w" and "sane_OSIP h" and "in_desc k"
  shows "\<exists>w'. update_handle osii k w = (Ret 0, w')
    \<and> desc (osip_at 0 w') = (desc h)[nat k := updated_OSII osii (desc h ! nat k)]
    \<and> sig (osip_at 0 w') = sig h \<and> drop 200 (dev w') = drop 200 (dev w)"
proof -
  note len = disk_okD(3) [OF assms(1)]
  let ?h = "h\<lparr>desc := (desc h)[nat k := merge_OSII osii (desc h ! nat k)]\<rparr>"
  let ?w = "w\<lparr>calls := calls w + 9, dev := blit 0 (enc_OSIP (stamp ?h)) (dev w)\<rparr>"
  have "nat k < 7" using assms(4) by (auto simp: in_desc_def layout_defs)
  then have "sane_OSIP ?h"
    using assms(3) by (intro sane_desc) (auto simp: wf_desc_nth dest: sane_OSIPD)
  then have wf: "wf_OSIP (stamp ?h)" by (auto dest: sane_OSIPD)
  have "osip_at 0 ?w = stamp ?h"
    using osip_at_blit_same [OF wf, of 0 w] len by (simp add: osip_at_dev)
  then show ?thesis
    using update_handle_reliable [of w k osii] assms wf len
    by (intro exI [of _ ?w]) (simp add: drop_blit merge_OSII_updated)
qed

theorem update_handle_merges_witness:
  "\<exists>w'. update_handle ((memset_OSII 0xFF)\<lparr>logical_start_block := 9\<rparr>) 1 (sample_world (replicate 200 0)) = (Ret 0, w')
    \<and> desc (osip_at 0 w') = (desc sample_header)[1 :=
        updated_OSII ((memset_OSII 0xFF)\<lparr>logical_start_block := 9\<rparr>) (desc sample_header ! 1)]
    \<and> sig (osip_at 0 w') = OSIP_SIG
    \<and> drop 200 (dev w') = drop 200 (dev (sample_world (replicate 200 0)))"
  using update_handle_merges [of "sample_world (replicate 200 0)" sample_header 1
      "(memset_OSII 0xFF)\<lparr>logical_start_block := 9\<rparr>"]
  by (simp add: in_desc_def layout_defs)

lemma zero_header:
  "sig (memset_OSIP 0) = 0" "header_size (memset_OSIP 0) = 0" "num_pointers (memset_OSIP 0) = 0"
  by (simp_all add: memset_OSIP_def dec_OSIP_def layout_defs bslice_def numeral_eq_Suc)

lemma write_OSIP_later:
  assumes "\<And>n. calls v \<le> n \<Longrightarrow> env v n = Ok" and "sysfs_ok v" and "512 \<le> length (dev v)"
    and h: "wf_OSIP h" "header_size h = 0" "num_pointers h = 0"
  shows "write_OSIP h v = (Ret (1, stamp h), v\<lparr>calls := calls v + 4, dev := blit 0 (enc_OSIP (stamp h)) (dev v)\<rparr>)"
proof -
  have "get_block_size v = (Ret (page_size_of v), v\<lparr>calls := calls v + 2\<rparr>)"
    using assms(1,2) by (simp add: get_block_size_def get_page_size_def bnd_def ask_def open_fd_def read_erase_size_def
      transfer_def sysfs_ok_def page_size_of_def Let_def ret_apply close_fd_def MMC_PAGES_PER_BLOCK_def split: option.split)
  moreover have "dev v \<noteq> []" "enc_OSIP (stamp h) \<noteq> []" "wf_OSIP (stamp h)"
    using assms(3) enc_OSIP_not_Nil [of "stamp h"] h(1) by auto
  ultimately show ?thesis
    using assms by (simp add: write_OSIP_def bnd_def ask_def open_fd_def write_dev_def lseek_dev_def Let_def
      transfer_def stamp_def ret_apply close_fd_def dump_osip_header_apply)
qed

text \<open>
  \<open>update_handle\<close> ignores the result of reading the header. When the device cannot be opened for that read
  but the later calls succeed, it writes back a cleared header: the signature on the device becomes 0 and
  the function reports success.
\<close>

lemma update_handle_unread_wipes:
  assumes env: "env w = (\<lambda>n. if n = Suc (calls w) then Fail else Ok)" and "sysfs_ok w" "512 \<le> length (dev w)" "in_desc k"
  shows "\<exists>w'. update_handle osii k w = (Ret 0, w') \<and> sig (osip_at 0 w') = 0"
proof -
  define h where "h = (memset_OSIP 0)\<lparr>desc := (desc (memset_OSIP 0))[nat k := merge_OSII osii (desc (memset_OSIP 0) ! nat k)]\<rparr>"
  have "nat k < 7" using assms(4) by (auto simp: in_desc_def layout_defs)
  then have "sane_OSIP h"
    unfolding h_def using wf_desc_nth [OF memset_OSIP_enc(2)]
    by (intro sane_desc) (simp_all add: sane_OSIP_def memset_OSIP_enc zero_header)
  then have h: "wf_OSIP h" "wf_OSIP (stamp h)" "sig h = 0" "header_size h = 0" "num_pointers h = 0"
    by (simp_all add: sane_OSIP_def h_def zero_header)
  define v where "v = w\<lparr>calls := calls w + 2\<rparr>"
  have v: "\<And>n. calls v \<le> n \<Longrightarrow> env v n = Ok" "sysfs_ok v" "512 \<le> length (dev v)" "dev v \<noteq> []"
    using assms by (auto simp: v_def)
  have 1: "update_handle osii k w = bnd (write_OSIP h) (\<lambda>(r, _).
              if r < 0 then ret (-1) else bnd (read_OSIP_loc R_START True) (\<lambda>_. ret 0)) v"
    using assms by (simp add: update_handle_def Let_def read_OSIP_loc_def bnd_def [of ask] bnd_def [of "bnd _ _"] bnd_def[of open_fd] ask_def open_fd_def ret_apply v_def h_def)
  have 2: "write_OSIP h v = (Ret (1, stamp h), v\<lparr>calls := calls v + 4, dev := blit 0 (enc_OSIP (stamp h)) (dev v)\<rparr>)"
    by (rule write_OSIP_later [OF v(1-3) h(1,4,5)])
  let ?v = "v\<lparr>calls := calls v + 4, dev := blit 0 (enc_OSIP (stamp h)) (dev v)\<rparr>"
  have at: "osip_at 0 ?v = stamp h"
    using osip_at_blit_same [OF h(2), of 0 v] v(3) by (simp add: osip_at_dev)
  then have "dec_OSIP (bslice 0 200 (dev ?v)) = stamp h" by (simp add: osip_at_def layout_defs)
  then have 3: "read_OSIP_loc R_START True ?v = (Ret (0, stamp h), ?v\<lparr>calls := calls v + 6\<rparr>)"
    using v h(1-3) by (simp add: read_OSIP_loc_def bnd_def ask_def open_fd_def read_dev_def lseek_dev_def Let_def
       transfer_def R_START_def ret_apply close_fd_def layout_defs OSIP_SIG_def)
  have "update_handle osii k w = (Ret 0, ?v\<lparr>calls := calls v + 6\<rparr>)"
    using 1 2 3 by (simp add: bnd_def ret_apply)
  moreover have "sig (osip_at 0 (?v\<lparr>calls := calls v + 6\<rparr>)) = 0"
    unfolding osip_at_calls at using h by simp
  ultimately show ?thesis by blast
qed

text \<open>
  The result of \<open>write\<close> is compared as an unsigned number, so a write that fails with -1 passes for a complete
  one: \<open>write_blob\<close>, the last step of \<open>write_payload_os_image\<close> and \<open>write_stitch_image\<close>, returns 0 with
  the device unchanged.
\<close>

lemma failed_blob_write_unnoticed:
  assumes "env w (calls w) = Ok" and "env w (Suc (calls w)) = Fail"
    and "blob + unat (sz - 512) \<le> length data"
  shows "write_blob data blob sz lba block_size w = (Ret 0, w\<lparr>calls := calls w + 2\<rparr>)"
proof -
  have "\<not> short_write (- 1) (sz - 512)"
    unfolding short_write_def by (simp add: not_less word_order.extremum)
  then show ?thesis
    using assms by (simp add: write_blob_def Let_def bnd_def ask_def open_fd_def write_dev_def lseek_dev_def
      layout_defs close_fd_def ret_apply)
qed

text \<open>
  The refusals. An attribute that no identifier carries makes \<open>invalidate_handle\<close>, and a missing backup
  signature makes \<open>restore_handle\<close>, return -1 with the device as it was.
\<close>

lemma refusals_leave_device:
  assumes "disk_ok w"
  shows "((\<exists>v\<in>set vs. \<forall>d\<in>set (desc (osip_at 0 w)). uint (attribute d) \<noteq> v) \<longrightarrow>
      invalidate_handle vs w = (Ret (-1), w\<lparr>calls := calls w + 2\<rparr>))
    \<and> (sig (osip_at BACKUP_LOC w) \<noteq> OSIP_SIG \<longrightarrow> restore_handle w = (Ret (-1), w\<lparr>calls := calls w + 2\<rparr>))"
proof -
  have "invalidate_values vs (desc (osip_at 0 w)) = None"
    if "\<exists>v\<in>set vs. \<forall>d\<in>set (desc (osip_at 0 w)). uint (attribute d) \<noteq> v"
    using that find_attribute_None [of "desc (osip_at 0 w)"] by (fastforce simp: invalidate_values_spec)
  then show ?thesis
    using assms by (simp add: restore_handle_refuses invalidate_handle_def bnd_def read_OSIP_loc_reliable ret_apply)
qed

subsection \<open>What flashing records\<close>

lemma length_desc_dec [simp]: "length (desc (dec_OSIP bs)) = 7"
  by (simp add: dec_OSIP_def)

text \<open>Writing one identifier of a stored header changes that identifier and nothing else.\<close>

lemma dec_OSIP_entry:
  assumes "i < 7" and "wf_OSII r" and "a + 200 \<le> length d"
  shows "dec_OSIP (bslice a 200 (blit (a + 32 + 24 * i) (enc_OSII r) d)) =
    (let h = dec_OSIP (bslice a 200 d) in h\<lparr>desc := (desc h)[i := r]\<rparr>)"
proof -
  let ?d = "blit (a + 32 + 24 * i) (enc_OSII r) d"
  have len: "length (enc_OSII r) = 24" using assms(2) by simp
  have before: "bslice b m (bslice a 200 ?d) = bslice b m (bslice a 200 d)" if "b + m \<le> 32" for b m
    using that assms(1,3) len by (simp add: bslice_bslice bslice_blit_before)
  have "dec_OSII (bslice (32 + 24 * j) 24 (bslice a 200 ?d)) =
      (if j = i then r else dec_OSII (bslice (32 + 24 * j) 24 (bslice a 200 d)))" if "j < 7" for j
  proof -
    consider "j < i" | "j = i" | "i < j" by linarith
    then show ?thesis
    proof cases
      case 1
      then have "a + (32 + 24 * j) + 24 \<le> a + 32 + 24 * i" by simp
      with 1 that assms len show ?thesis by (simp add: bslice_bslice bslice_blit_before)
    next
      case 2
      with that assms len show ?thesis
        by (simp add: bslice_bslice bslice_blit_same dec_enc_OSII add.assoc [symmetric])
    next
      case 3
      then have "a + 32 + 24 * i + 24 \<le> a + (32 + 24 * j)" by simp
      with 3 that assms len show ?thesis by (simp add: bslice_bslice bslice_blit_after)
    qed
  qed
  then have "map (\<lambda>j. dec_OSII (bslice (32 + 24 * j) 24 (bslice a 200 ?d))) [0..<7] =
      (map (\<lambda>j. dec_OSII (bslice (32 + 24 * j) 24 (bslice a 200 d))) [0..<7])[i := r]"
    by (intro nth_equalityI) (auto simp: nth_list_update)
  moreover have "map (\<lambda>j. le_word (bslice (12 + 4 * j) 4 (bslice a 200 ?d))) [0..<5] =
      map (\<lambda>j. le_word (bslice (12 + 4 * j) 4 (bslice a 200 d))) [0..<5]"
    by (simp add: before)
  ultimately show ?thesis
    unfolding Let_def dec_OSIP_def by (simp only: before OSIP_header.simps) (simp add: before)
qed




text \<open>
  C13: the identifier of a flashed image. Without a backup the header on the device becomes the old one with
  identifier \<open>k\<close> taken from the image (its start block kept) and one image counted; with a backup, identifier \<open>k\<close> of the
  backup is replaced, and the header in use stays as it is unless \<open>k\<close> is the provisioning OS.
\<close>

theorem flash_records_identifier:
  assumes "disk_ok w" and "h = osip_at 0 w" and "sane_OSIP h" and "in_desc k" and "stitched data n"
    and "off = 512 * unat (logical_start_block (desc h ! nat k))"
    and "512 \<le> off" and "off < 2 ^ 31" and "off + 512 * n \<le> length (dev w)"
  shows "\<exists>w'. write_stitch_image data (of_nat (length data)) k w = (Ret 0, w')
    \<and> (if sig (osip_at BACKUP_LOC w) \<noteq> OSIP_SIG
       then osip_at 0 w' = stamp (flashed_header data (nat k) h)
       else desc (osip_at BACKUP_LOC w') ! nat k = flashed_OSII data (desc h ! nat k)
         \<and> (k \<noteq> POS \<longrightarrow> osip_at 0 w' = h))"
proof -
  define r where "r = flashed_OSII data (desc (osip_at 0 w) ! nat k)"
  let ?h = "flashed_header data (nat k) h"
  let ?d = "flash_headers w k ?h r"
  note dlen = disk_okD(3) [OF assms(1)]
  have len: "length data = 512 * Suc n" "56 \<le> length data" using assms(5) by (auto simp: stitched_def)
  have s: "sane_OSIP ?h" "wf_OSII r" using assms(3) len by (auto simp: r_def intro: sane_flashed)
  have wf: "wf_OSIP (stamp ?h)" using sane_OSIPD(1) [OF s(1)] by simp
  have l: "length ?d = length (dev w)" by (rule length_flash_headers [OF assms(1,4) s])
  have "off = seek_pos w (dev_offset (logical_start_block r) 512)"
    using assms(2,6,8,9) by (simp add: seek_pos_512 r_def flashed_OSII_def)
  from write_stitch_image_reliable [OF assms(1) _ assms(4,5) r_def this assms(9)] assms(2,3) obtain c where
    c: "write_stitch_image data (of_nat (length data)) k w = (Ret 0, w\<lparr>calls := c, dev := blit off (drop 512 data) ?d\<rparr>)"
    by auto
  let ?w = "w\<lparr>calls := c, dev := blit off (drop 512 data) ?d\<rparr>"
  have at: "osip_at a ?w = dec_OSIP (bslice a 200 ?d)" if "a + 200 \<le> 512" for a
    using that assms(7,9) l len by (simp add: osip_at_def layout_defs bslice_blit_before)
  have k: "nat k < 7" using assms(4) by (auto simp: in_desc_def layout_defs)
  have b: "BACKUP_LOC + 200 \<le> length d" if "length d = length (dev w)" for d :: "byte list"
    using that dlen by (simp add: BACKUP_LOC_def)
  show ?thesis
  proof (cases "sig (osip_at BACKUP_LOC w) = OSIP_SIG")
    case False
    then have "bslice 0 200 ?d = enc_OSIP (stamp ?h)"
      using wf dlen by (auto simp: flash_headers_def Let_def bslice_blit_same)
    with False c at [of 0] wf show ?thesis by (intro exI [of _ ?w]) (simp add: dec_enc_OSIP)
  next
    case True
    define e where "e = (if k = POS then blit 0 (enc_OSIP (stamp ?h)) (dev w) else dev w)"
    have "length e = length (dev w)" using wf dlen by (auto simp: e_def)
    moreover have "?d = blit (BACKUP_LOC + 32 + 24 * nat k) (enc_OSII r) e"
      using True by (simp add: flash_headers_def e_def Let_def)
    ultimately have "desc (osip_at BACKUP_LOC ?w) ! nat k = r"
      using at [of BACKUP_LOC] dec_OSIP_entry [OF k s(2) b] k by (simp add: BACKUP_LOC_def Let_def)
    moreover have "osip_at 0 ?w = h" if "k \<noteq> POS"
      using True that at [of 0] k s(2) dlen assms(2)
      by (simp add: flash_headers_def Let_def BACKUP_LOC_def bslice_blit_before osip_at_def layout_defs)
    ultimately show ?thesis
      using True c assms(2) by (intro exI [of _ ?w]) (simp add: r_def)
  qed
qed

theorem flash_records_identifier_witness:
  "\<exists>w'. write_stitch_image sample_image 1024 0 (sample_world (enc_OSIP sample_header)) = (Ret 0, w')
    \<and> desc (osip_at BACKUP_LOC w') ! 0 = flashed_OSII sample_image (sample_OSII 0 2)
    \<and> osip_at 0 w' = sample_header"
  using flash_records_identifier [of "sample_world (enc_OSIP sample_header)" sample_header 0 sample_image "Suc 0" 1024]
  by (simp add: stitched_sample in_desc_def OSII_TOTAL_def dec_enc_OSIP POS_def)

end
