(* ===== verification/Scripts.thy ===== *)
theory Scripts
  imports Header_Props
begin

text \<open>
  The OSIP scripts of the RAM disk (\<^verbatim>\<open>in/invalidate_osip.sh\<close>, \<^verbatim>\<open>in/restore_osip.sh\<close>,
  \<^verbatim>\<open>in/flash_stitched.sh\<close>): sequences of \<open>update_osip\<close> commands on one device. Each command is given by the
  results of \<open>getopt_long\<close> on its words.
\<close>

subsection \<open>Running a command\<close>

text \<open>
  A command of a script is a process: when it ends the system closes its descriptors, and the shell reads the
  low eight bits of its status (134 after an abort). The shell goes on whatever that status is. Nothing is said about the state
  after undefined behaviour of the process, so a fault ends the run.
\<close>

definition process :: "unit io \<Rightarrow> int io" where
  "process p w = (case p w of
       (Ret _, w') \<Rightarrow> (Ret 0, w'\<lparr>nfds := nfds w\<rparr>)
     | (Exit c, w') \<Rightarrow> (Ret (c mod 256), w'\<lparr>nfds := nfds w\<rparr>)
     | (Abort, w') \<Rightarrow> (Ret 134, w'\<lparr>nfds := nfds w\<rparr>)
     | (Fault f, w') \<Rightarrow> (Fault f, w'))"

subsection \<open>The scripts\<close>

definition invalidate_osip :: "int io" where
  "invalidate_osip = process (update_osip_main [(CHR ''b'', []), (CHR ''i'', ''1'')])"

definition restore_osip :: "int io" where
  "restore_osip = process (update_osip_main [(CHR ''r'', [])])"

text \<open>
  The arguments of the script are file names without white space and pattern characters, so the unquoted \<open>$1\<close> is one
  word, or none when it is missing or empty; then \<open>--image\<close> has no argument and \<open>getopt_long\<close> answers \<open>?\<close>.
\<close>

definition flash_stitched :: "string list \<Rightarrow> int io" where
  "flash_stitched args =
     bnd (process (update_osip_main ((CHR ''u'', ''0'') #
         (case args of [] \<Rightarrow> [(CHR ''?'', [])]
          | img # _ \<Rightarrow> if img = [] then [(CHR ''?'', [])] else [(CHR ''g'', img)])))) (\<lambda>_.
       process (update_osip_main [(CHR ''r'', [])]))"

subsection \<open>Headers in the sector\<close>

text \<open>The request of a command without field options has all ones everywhere and changes no field.\<close>

lemma merge_ones: "merge_OSII (memset_OSII 0xFF) r = r"
proof -
  have "memset_OSII 0xFF = \<lparr>os_rev_minor = 0xFFFF, os_rev_major = 0xFFFF, logical_start_block = 0xFFFFFFFF,
      ddr_load_address = 0xFFFFFFFF, entery_point = 0xFFFFFFFF, size_of_os_image = 0xFFFFFFFF, attribute = 0xFF,
      reserved = [0xFF, 0xFF, 0xFF]\<rparr>"
    by code_simp
  then show ?thesis by (simp add: merge_OSII_def)
qed

text \<open>The two headers of the sector after flashing identifier 0, the one in use first.\<close>

definition flashed_pair :: "byte list \<Rightarrow> OSIP_header \<Rightarrow> OSIP_header \<Rightarrow> OSIP_header \<times> OSIP_header" where
  "flashed_pair data h b =
     (if sig b \<noteq> OSIP_SIG then (stamp (flashed_header data 0 h), b)
      else (h, b\<lparr>desc := (desc b)[0 := flashed_OSII data (desc h ! 0)]\<rparr>))"

abbreviation headers :: "world \<Rightarrow> OSIP_header \<times> OSIP_header" where
  "headers w \<equiv> (osip_at 0 w, osip_at BACKUP_LOC w)"

lemma flash_headers_pair:
  assumes "disk_ok w" and "sane_OSIP (osip_at 0 w)" and "56 \<le> length data"
    and r: "r = flashed_OSII data (desc (osip_at 0 w) ! 0)"
  shows "headers (w\<lparr>dev := flash_headers w 0 (flashed_header data 0 (osip_at 0 w)) r\<rparr>) =
    flashed_pair data (osip_at 0 w) (osip_at BACKUP_LOC w)"
proof -
  let ?h = "stamp (flashed_header data 0 (osip_at 0 w))"
  note len = disk_okD(3) [OF assms(1)]
  have wf: "wf_OSIP ?h" "wf_OSII r"
    using sane_OSIPD(1) [OF sane_flashed [OF assms(2,3)]] assms(3) by (simp_all add: r)
  show ?thesis
  proof (cases "sig (osip_at BACKUP_LOC w) = OSIP_SIG")
    case True
    then show ?thesis
      using len wf(2) dec_OSIP_entry [of 0 r BACKUP_LOC "dev w"]
      by (simp add: flash_headers_def flashed_pair_def POS_def osip_at_def layout_defs BACKUP_LOC_def
          bslice_blit_before Let_def r)
  next
    case False
    then show ?thesis
      using len wf(1) osip_at_blit_same [OF wf(1), of 0 w] osip_at_blit_other [of 0 "enc_OSIP ?h" w BACKUP_LOC]
      by (simp add: flash_headers_def flashed_pair_def POS_def BACKUP_LOC_def)
  qed
qed

subsection \<open>Commands\<close>

lemma disk_ok_dev: "disk_ok w \<Longrightarrow> length d = length (dev w) \<Longrightarrow> disk_ok (w\<lparr>dev := d\<rparr>)"
  by (simp add: disk_ok_def sysfs_ok_def reliable_def page_size_of_def)

text \<open>Room for a payload of \<open>n\<close> pages behind the header sector.\<close>

definition room_for :: "OSII \<Rightarrow> nat \<Rightarrow> world \<Rightarrow> bool" where
  "room_for r n w \<longleftrightarrow> (let off = 512 * unat (logical_start_block r) in
     512 \<le> off \<and> off < 2 ^ 31 \<and> off + 512 * n \<le> length (dev w))"

text \<open>A payload stands at its start block, and the bytes behind the header sector are otherwise those of another device.\<close>

definition holds_payload :: "OSII \<Rightarrow> byte list \<Rightarrow> byte list \<Rightarrow> byte list \<Rightarrow> bool" where
  "holds_payload r blob d0 d \<longleftrightarrow> (let off = 512 * unat (logical_start_block r) in
     drop 512 d = drop 512 (blit off blob d0))"

lemma holds_payload_header:
  "off + length bs \<le> 512 \<Longrightarrow> 512 \<le> length d \<Longrightarrow> holds_payload r blob d0 (blit off bs d) = holds_payload r blob d0 d"
  by (simp add: holds_payload_def blit_def)

lemma holds_payload_block:
  "logical_start_block r = logical_start_block r' \<Longrightarrow> holds_payload r blob d0 d \<Longrightarrow> holds_payload r' blob d0 d"
  by (simp add: holds_payload_def)

lemma holds_payload_tail:
  assumes "drop 512 d0 = drop 512 d0'" and "length d0 = length d0'" and "drop 512 d = drop 512 d'"
    and "length blob = 512 * n" and "room_for r n w" and "length (dev w) = length d0"
  shows "holds_payload r blob d0 d = holds_payload r blob d0' d'"
proof -
  let ?off = "512 * unat (logical_start_block r)"
  have off: "512 \<le> ?off" "?off + length blob \<le> length d0" using assms(4-6) by (simp_all add: room_for_def Let_def)
  have "drop 512 (blit ?off blob d0) = drop 512 (blit ?off blob d0')"
  proof (rule nth_equalityI)
    fix i
    assume i: "i < length (drop 512 (blit ?off blob d0))"
    have "drop 512 d0 ! i = drop 512 d0' ! i" using assms(1) by simp
    then have "d0 ! (512 + i) = d0' ! (512 + i)" using i off assms(2) by simp
    then show "drop 512 (blit ?off blob d0) ! i = drop 512 (blit ?off blob d0') ! i"
      using i off assms(2) by (simp add: nth_blit)
  qed (use off assms(2) in simp)
  then show ?thesis using assms(3) by (simp add: holds_payload_def Let_def)
qed

lemma flash_stitch_image_reliable:
  assumes "disk_ok w" and "sane_OSIP (osip_at 0 w)" and "files w (base @ ''.bin'') = Some data" and "stitched data n"
    and "room_for (desc (osip_at 0 w) ! 0) n w"
  shows "\<exists>c d. flash_stitch_image (base @ ''.bin'') 0 w = (Ret 0, w\<lparr>calls := c, nfds := Suc (nfds w), dev := d\<rparr>)
    \<and> length d = length (dev w) \<and> holds_payload (desc (osip_at 0 w) ! 0) (drop 512 data) (dev w) d
    \<and> headers (w\<lparr>dev := d\<rparr>) = flashed_pair data (osip_at 0 w) (osip_at BACKUP_LOC w)"
proof -
  let ?h = "osip_at 0 w"
  define r where "r = flashed_OSII data (desc ?h ! 0)"
  define off where "off = 512 * unat (logical_start_block (desc ?h ! 0))"
  let ?v = "w\<lparr>calls := calls w + 4, nfds := Suc (nfds w)\<rparr>"
  let ?d = "flash_headers w 0 (flashed_header data 0 ?h) r"
  note dlen = disk_okD(3) [OF assms(1)]
  have len: "length data = 512 * Suc n" "56 \<le> length data" using assms(4) by (auto simp: stitched_def)
  have off: "512 \<le> off" "off < 2 ^ 31" "off + 512 * n \<le> length (dev w)"
    using assms(5) by (simp_all add: room_for_def off_def Let_def)
  have s: "sane_OSIP (flashed_header data 0 ?h)" "wf_OSII r" using assms(2) len by (auto simp: r_def intro: sane_flashed)
  have l: "length ?d = length (dev w)" by (rule length_flash_headers [OF assms(1) _ s]) (simp add: in_desc_def layout_defs)
  have v: "disk_ok ?v" "osip_at a ?v = osip_at a w" "flash_headers ?v 0 h' r' = flash_headers w 0 h' r'" for a h' r'
    using assms(1) by (simp_all add: disk_ok_def sysfs_ok_def reliable_def osip_at_def flash_headers_def page_size_of_def)
  have "off = seek_pos ?v (dev_offset (logical_start_block r) 512)"
    using off by (simp add: seek_pos_512 r_def flashed_OSII_def off_def)
  from write_stitch_image_reliable [OF v(1) _ _ assms(4) _ this, of 0] obtain c where
    c: "write_stitch_image data (of_nat (length data)) 0 ?v = (Ret 0, ?v\<lparr>calls := c, dev := blit off (drop 512 data) ?d\<rparr>)"
    using v(2,3) assms(2) off by (auto simp: in_desc_def layout_defs r_def)
  have "strrchr (base @ ''.bin'') CHR ''.'' = Some ''.bin''" by (subst strrchr_Some) auto
  then have "flash_stitch_image (base @ ''.bin'') 0 w =
      (Ret 0, w\<lparr>calls := c, nfds := Suc (nfds w), dev := blit off (drop 512 data) ?d\<rparr>)"
    using c assms(3) disk_okD(1) [OF assms(1)]
    by (simp add: flash_stitch_image_def load_file_reliable bnd_def FILE_EXT_def strncmp_eq_def)
  moreover have "headers (w\<lparr>dev := blit off (drop 512 data) ?d\<rparr>) = headers (w\<lparr>dev := ?d\<rparr>)"
    using off l len by (simp add: osip_at_def layout_defs BACKUP_LOC_def bslice_blit_before)
  moreover note flash_headers_pair [OF assms(1,2) len(2) r_def]
  moreover have "holds_payload (desc ?h ! 0) (drop 512 data) (dev w) (blit off (drop 512 data) ?d)"
  proof -
    have "flash_headers w 0 (flashed_header data 0 ?h) r ! j = dev w ! j" if "512 \<le> j" for j
      using that by (intro flash_headers_outside [OF assms(1) _ s]) (simp_all add: in_desc_def layout_defs)
    then show ?thesis
      using off l len unfolding holds_payload_def Let_def off_def [symmetric]
      by (intro nth_equalityI) (simp_all add: nth_blit)
  qed
  ultimately show ?thesis using l off len
    by (intro exI [of _ c] exI [of _ "blit off (drop 512 data) ?d"]) simp
qed

lemma sane_flashed_pair:
  assumes "sane_OSIP h" and "56 \<le> length data"
  shows "sane_OSIP (fst (flashed_pair data h b))"
  using assms by (simp add: flashed_pair_def sane_flashed)

lemma update_handle_ones:
  assumes "disk_ok w" and "sane_OSIP (osip_at 0 w)"
  shows "update_handle (memset_OSII 0xFF) 0 w = (Ret 0, w\<lparr>calls := calls w + 9,
    dev := blit 0 (enc_OSIP (stamp (osip_at 0 w))) (dev w)\<rparr>)"
proof -
  have "update_handle (memset_OSII 0xFF) 0 w = (Ret 0, w\<lparr>calls := calls w + 9,
      dev := blit 0 (enc_OSIP (stamp ((osip_at 0 w)\<lparr>desc := desc (osip_at 0 w)\<rparr>))) (dev w)\<rparr>)"
    using update_handle_reliable [OF assms, of 0 "memset_OSII 0xFF"] by (simp add: merge_ones in_desc_def layout_defs)
  then show ?thesis by simp
qed

lemma process_update_image:
  assumes "disk_ok w" and "sane_OSIP (osip_at 0 w)" and "files w (base @ ''.bin'') = Some data" and "stitched data n"
    and "room_for (desc (osip_at 0 w) ! 0) n w"
  shows "\<exists>c d. process (update_osip_main [(CHR ''u'', ''0''), (CHR ''g'', base @ ''.bin'')]) w =
      (Ret 0, w\<lparr>calls := c, dev := d\<rparr>)
    \<and> length d = length (dev w) \<and> holds_payload (desc (osip_at 0 w) ! 0) (drop 512 data) (dev w) d
    \<and> headers (w\<lparr>dev := d\<rparr>) = apfst stamp (flashed_pair data (osip_at 0 w) (osip_at BACKUP_LOC w))"
proof -
  obtain c d where f: "flash_stitch_image (base @ ''.bin'') 0 w = (Ret 0, w\<lparr>calls := c, nfds := Suc (nfds w), dev := d\<rparr>)"
    and d: "length d = length (dev w)" "holds_payload (desc (osip_at 0 w) ! 0) (drop 512 data) (dev w) d"
      "headers (w\<lparr>dev := d\<rparr>) = flashed_pair data (osip_at 0 w) (osip_at BACKUP_LOC w)"
    using flash_stitch_image_reliable [OF assms] by blast
  let ?v = "w\<lparr>calls := c, nfds := Suc (nfds w), dev := d\<rparr>"
  let ?h = "fst (flashed_pair data (osip_at 0 w) (osip_at BACKUP_LOC w))"
  have len: "56 \<le> length data" using assms(4) by (simp add: stitched_def)
  have h: "sane_OSIP ?h" by (rule sane_flashed_pair [OF assms(2) len])
  have wf: "wf_OSIP (stamp ?h)" using sane_OSIPD(1) [OF h] by simp
  have dl: "512 \<le> length d" using d(1) disk_okD(3) [OF assms(1)] by simp
  have at: "osip_at 0 ?v = ?h" using d(3) by (simp add: osip_at_def prod_eq_iff)
  have v: "disk_ok ?v" using assms(1) d(1) by (simp add: disk_ok_def sysfs_ok_def reliable_def page_size_of_def)
  let ?d = "blit 0 (enc_OSIP (stamp ?h)) d"
  have u: "update_handle (memset_OSII 0xFF) 0 ?v = (Ret 0, ?v\<lparr>calls := c + 9, dev := ?d\<rparr>)"
    using update_handle_ones [OF v] h at by simp
  have "atoi ''0'' = 0" by code_simp
  then have "process (update_osip_main [(CHR ''u'', ''0''), (CHR ''g'', base @ ''.bin'')]) w =
      (Ret 0, w\<lparr>calls := c + 9, dev := ?d\<rparr>)"
    using f u by (simp add: process_def update_osip_main_def getopt_step_def main_handle_def or_error_def no_opts_def
        bnd_def ret_apply exit_apply)
  moreover have "headers (w\<lparr>dev := ?d\<rparr>) = apfst stamp (flashed_pair data (osip_at 0 w) (osip_at BACKUP_LOC w))"
    using d(3) dl wf osip_at_blit_same [OF wf, of 0 "w\<lparr>dev := d\<rparr>"]
      osip_at_blit_other [of 0 "enc_OSIP (stamp ?h)" "w\<lparr>dev := d\<rparr>" BACKUP_LOC]
    by (simp add: BACKUP_LOC_def prod_eq_iff)
  moreover have "holds_payload (desc (osip_at 0 w) ! 0) (drop 512 data) (dev w) ?d"
    using d(2) dl wf by (simp add: holds_payload_header)
  ultimately show ?thesis using d(1) dl wf by (intro exI [of _ "c + 9"] exI [of _ ?d]) simp
qed

lemma process_restore:
  assumes "disk_ok w" and "sane_OSIP (osip_at BACKUP_LOC w)" and "sig (osip_at BACKUP_LOC w) = OSIP_SIG"
  shows "\<exists>c d. process (update_osip_main [(CHR ''r'', [])]) w =
      (Ret 0, w\<lparr>calls := c, dev := d, osnib := osnib w @ [RR_SIGNED_MOS]\<rparr>)
    \<and> length d = length (dev w) \<and> drop 512 d = drop 512 (dev w)
    \<and> headers (w\<lparr>dev := d\<rparr>) = (stamp (osip_at BACKUP_LOC w), memset_OSIP 0)"
proof -
  let ?h = "stamp (osip_at BACKUP_LOC w)"
  let ?e = "blit 0 (enc_OSIP ?h) (dev w)"
  let ?d = "blit BACKUP_LOC (replicate 200 0) ?e"
  note len = disk_okD(3) [OF assms(1)]
  have wf: "wf_OSIP ?h" using sane_OSIPD(1) [OF assms(2)] by simp
  have "headers (w\<lparr>dev := ?d\<rparr>) = (?h, memset_OSIP 0)"
    using len wf osip_at_blit_same [OF memset_OSIP_enc(2), of BACKUP_LOC "w\<lparr>dev := ?e\<rparr>" 0]
      osip_at_blit_other [of BACKUP_LOC "replicate 200 0" "w\<lparr>dev := ?e\<rparr>" 0] osip_at_blit_same [OF wf, of 0 w]
    by (simp add: memset_OSIP_enc(1) BACKUP_LOC_def)
  moreover have "length ?d = length (dev w)" "drop 512 ?d = drop 512 (dev w)"
    using len wf by (simp_all add: BACKUP_LOC_def) (simp add: blit_def)
  ultimately show ?thesis
    using main_restore [OF assms] by (intro exI [of _ "calls w + 9"] exI [of _ ?d]) (simp add: process_def)
qed

lemma process_restore_refuses:
  assumes "disk_ok w" and "sig (osip_at BACKUP_LOC w) \<noteq> OSIP_SIG"
  shows "process (update_osip_main [(CHR ''r'', [])]) w = (Ret 255, w\<lparr>calls := calls w + 2\<rparr>)"
  using restore_handle_refuses [OF assms]
  by (simp add: process_def update_osip_main_def main_handle_def or_error_def no_opts_def bnd_def ret_apply
      exit_apply early_terminated_def)

lemma process_update_no_image:
  assumes "reliable w" and "files w (base @ ''.bin'') = None"
  shows "process (update_osip_main [(CHR ''u'', ''0''), (CHR ''g'', base @ ''.bin'')]) w = (Ret 1, w\<lparr>calls := calls w + 1\<rparr>)"
proof -
  have "strrchr (base @ ''.bin'') CHR ''.'' = Some ''.bin''" by (subst strrchr_Some) auto
  then have "flash_stitch_image (base @ ''.bin'') n w = (Exit 1, w\<lparr>calls := calls w + 1\<rparr>)" for n
    using assms by (simp add: flash_stitch_image_def load_file_reliable bnd_def FILE_EXT_def strncmp_eq_def exit_apply)
  then show ?thesis
    by (simp add: process_def update_osip_main_def getopt_step_def main_handle_def or_error_def no_opts_def
        bnd_def ret_apply)
qed

text \<open>The first command of \<open>flash_stitched\<close>, with an image or without one.\<close>

lemma first_command:
  assumes "disk_ok w" and "sane_OSIP (osip_at 0 w)" and "sane_OSIP (osip_at BACKUP_LOC w)"
    and "case files w (base @ ''.bin'') of None \<Rightarrow> True
      | Some data \<Rightarrow> stitched data n \<and> room_for (desc (osip_at 0 w) ! 0) n w"
  shows "\<exists>s c d. process (update_osip_main [(CHR ''u'', ''0''), (CHR ''g'', base @ ''.bin'')]) w =
      (Ret s, w\<lparr>calls := c, dev := d\<rparr>) \<and> length d = length (dev w)
    \<and> (case files w (base @ ''.bin'') of None \<Rightarrow> drop 512 d = drop 512 (dev w)
       | Some data \<Rightarrow> holds_payload (desc (osip_at 0 w) ! 0) (drop 512 data) (dev w) d)
    \<and> sane_OSIP (osip_at BACKUP_LOC (w\<lparr>dev := d\<rparr>))
    \<and> sig (osip_at BACKUP_LOC (w\<lparr>dev := d\<rparr>)) = sig (osip_at BACKUP_LOC w)
    \<and> (case files w (base @ ''.bin'') of None \<Rightarrow> True
       | Some data \<Rightarrow> desc (if sig (osip_at BACKUP_LOC w) = OSIP_SIG then osip_at BACKUP_LOC (w\<lparr>dev := d\<rparr>)
           else osip_at 0 (w\<lparr>dev := d\<rparr>)) ! 0 = flashed_OSII data (desc (osip_at 0 w) ! 0))"
proof (cases "files w (base @ ''.bin'')")
  case None
  then show ?thesis
    using process_update_no_image [OF disk_okD(1) [OF assms(1)] None] assms(3)
    by (intro exI [of _ 1] exI [of _ "calls w + 1"] exI [of _ "dev w"]) simp
next
  case (Some data)
  then have st: "stitched data n" "room_for (desc (osip_at 0 w) ! 0) n w" using assms(4) by simp_all
  then have len: "56 \<le> length data" by (simp add: stitched_def)
  obtain c d where d: "process (update_osip_main [(CHR ''u'', ''0''), (CHR ''g'', base @ ''.bin'')]) w =
        (Ret 0, w\<lparr>calls := c, dev := d\<rparr>)" "length d = length (dev w)"
      "holds_payload (desc (osip_at 0 w) ! 0) (drop 512 data) (dev w) d"
      "headers (w\<lparr>dev := d\<rparr>) = apfst stamp (flashed_pair data (osip_at 0 w) (osip_at BACKUP_LOC w))"
    using process_update_image [OF assms(1,2) Some st] by blast
  have "length (desc (osip_at a w)) = 7" if "sane_OSIP (osip_at a w)" for a
    using sane_OSIPD(1) [OF that] by (simp add: wf_OSIP_def layout_defs)
  then show ?thesis
    using d Some assms(2,3) len
    by (intro exI [of _ 0] exI [of _ c] exI [of _ d])
      (auto simp: flashed_pair_def flashed_header_def intro!: sane_desc split: if_splits)
qed

lemma flash_stitched_one:
  "flash_stitched [base @ ''.bin''] = bnd (process (update_osip_main [(CHR ''u'', ''0''), (CHR ''g'', base @ ''.bin'')]))
    (\<lambda>_. process (update_osip_main [(CHR ''r'', [])]))"
  by (simp add: flash_stitched_def)

lemma invalidate_osip_reliable:
  assumes "disk_ok w" and h: "h = osip_at 0 w" "sane_OSIP h" and j: "find_attribute (desc h) 1 = Some j"
  shows "\<exists>c d. invalidate_osip w = (Ret 0, w\<lparr>calls := c, dev := d\<rparr>)
    \<and> length d = length (dev w) \<and> drop 512 d = drop 512 (dev w)
    \<and> headers (w\<lparr>dev := d\<rparr>) = (stamp (h\<lparr>desc := (desc h)[j := invalidate_OSII (desc h ! j)]\<rparr>), h)"
proof -
  let ?ds = "(desc h)[j := invalidate_OSII (desc h ! j)]"
  let ?g = "stamp (h\<lparr>desc := ?ds\<rparr>)"
  let ?e = "blit BACKUP_LOC (enc_OSIP h) (dev w)"
  note len = disk_okD(3) [OF assms(1)] and wf = sane_OSIPD(1) [OF h(2)]
  have "atoi ''1'' = 1" by code_simp
  then have ds: "invalidate_values (map atoi [''1'']) (desc h) = Some ?ds" using j by simp
  have g: "wf_OSIP ?g" using sane_OSIPD(1) [OF sane_invalidate [OF h(2) ds]] by simp
  have "invalidate_osip w = (Ret 0, w\<lparr>calls := calls w + 12, dev := blit 0 (enc_OSIP ?g) ?e\<rparr>)"
    using main_backup_invalidate [OF assms(1) h ds] by (simp add: invalidate_osip_def process_def)
  moreover have "headers (w\<lparr>dev := blit 0 (enc_OSIP ?g) ?e\<rparr>) = (?g, h)"
    using len wf g osip_at_blit_same [OF g, of 0 "w\<lparr>dev := ?e\<rparr>"] osip_at_blit_same [OF wf, of BACKUP_LOC w]
      osip_at_blit_other [of 0 "enc_OSIP ?g" "w\<lparr>dev := ?e\<rparr>" BACKUP_LOC]
    by (simp add: BACKUP_LOC_def)
  moreover have "drop 512 (blit 0 (enc_OSIP ?g) ?e) = drop 512 (dev w)"
    using len wf g by (simp add: BACKUP_LOC_def) (simp add: blit_def)
  ultimately show ?thesis
    using len wf g by (intro exI [of _ "calls w + 12"] exI [of _ "blit 0 (enc_OSIP ?g) ?e"]) (simp add: BACKUP_LOC_def)
qed

text \<open>Without an image the script is a restore.\<close>

lemma flash_stitched_no_image: "flash_stitched [] = restore_osip"
  by (rule ext) (simp add: flash_stitched_def restore_osip_def bnd_def [of "process _"] process_def [of _ "_ :: world"]
    update_osip_main_def getopt_step_def bnd_def ret_apply display_usage_def exit_apply)

lemma no_files: "files (sample_world b) = (\<lambda>_. None)"
  by (simp add: sample_world_def)

text \<open>The sample device with a stitched image among its files and no backup.\<close>

definition sample_boot :: world where
  "sample_boot = (sample_world (replicate 200 0))\<lparr>files := [''boot.bin'' \<mapsto> sample_image]\<rparr>"

lemma sample_boot_facts:
  "disk_ok sample_boot" "osip_at 0 sample_boot = sample_header" "osip_at BACKUP_LOC sample_boot = memset_OSIP 0"
  "files sample_boot ''boot.bin'' = Some sample_image" "stitched sample_image (Suc 0)"
  "find_attribute (desc sample_header) 1 = Some 1" "room_for (desc sample_header ! 0) (Suc 0) sample_boot"
  "sane_OSIP (memset_OSIP 0)" "sig (memset_OSIP 0) \<noteq> OSIP_SIG"
proof -
  have "disk_ok (sample_world (replicate 200 0))" by simp
  then show "disk_ok sample_boot"
    unfolding sample_boot_def by (simp add: disk_ok_def sysfs_ok_def reliable_def page_size_of_def)
  have at: "osip_at a sample_boot = osip_at a (sample_world (replicate 200 0))" for a
    by (simp add: sample_boot_def osip_at_def)
  then show "osip_at 0 sample_boot = sample_header" "osip_at BACKUP_LOC sample_boot = memset_OSIP 0"
    by (simp_all add: memset_OSIP_def sizeof_OSIP_def)
  show "files sample_boot ''boot.bin'' = Some sample_image" "stitched sample_image (Suc 0)"
    by (simp_all add: sample_boot_def stitched_sample)
  show "find_attribute (desc sample_header) 1 = Some 1" by simp
  show "room_for (desc sample_header ! 0) (Suc 0) sample_boot" by (simp add: room_for_def sample_boot_def)
  show "sane_OSIP (memset_OSIP 0)" "sig (memset_OSIP 0) \<noteq> OSIP_SIG"
    using zero_header memset_OSIP_enc(2) by (simp_all add: sane_OSIP_def OSIP_SIG_def)
qed

end
