(* ===== verification/Ifwi_Check.thy ===== *)
theory Ifwi_Check
  imports Flashing
begin

text \<open>
  \<^verbatim>\<open>flash_stitched/ifwi_version_check.c\<close>: compares the version of the firmware on the board, which the
  SCU driver reports, with the version in the FIP header of a firmware file. The file is scanned byte by byte for the
  header's signature.
\<close>

subsection \<open>The FIP header\<close>

record IFWI_rev =
  IFWI_minor :: u8
  IFWI_major :: u8
  ifwi_reserved :: u16

record FIP_header =
  FIP_SIG :: u32
  header_info :: u32
  ia32_rev :: "u8 list"
  punit_rev :: "u8 list"
  oem_rev :: "u8 list"
  suppia32_rev :: "u8 list"
  scu_rev :: "u8 list"
  chaabi_rev :: "u32 list"
  ifwi_rev :: IFWI_rev

definition FIP_pattern :: u32 where "FIP_pattern = 0x50494624"

definition sizeof_FIP :: nat where "sizeof_FIP = 44"

definition dec_FIP :: "byte list \<Rightarrow> FIP_header" where
  "dec_FIP bs = \<lparr>FIP_SIG = le_word (bslice 0 4 bs), header_info = le_word (bslice 4 4 bs),
     ia32_rev = bslice 8 4 bs, punit_rev = bslice 12 4 bs, oem_rev = bslice 16 4 bs,
     suppia32_rev = bslice 20 4 bs, scu_rev = bslice 24 4 bs,
     chaabi_rev = map (\<lambda>i. le_word (bslice (28 + 4 * i) 4 bs)) [0..<3],
     ifwi_rev = \<lparr>IFWI_minor = le_word (bslice 40 1 bs), IFWI_major = le_word (bslice 41 1 bs),
       ifwi_reserved = le_word (bslice 42 2 bs)\<rparr>\<rparr>"

subsection \<open>The two versions\<close>

text \<open>
  The driver's answer to the version request is a parameter: the bytes it puts into \<open>version.data\<close>.
  When the request fails the descriptor stays open.
\<close>

definition find_fw_rev :: "(nat \<Rightarrow> byte) \<Rightarrow> u32 io" where
  "find_fw_rev version_data = bnd open_fd (\<lambda>devfd. case devfd of
       None \<Rightarrow> ret (- 1)
     | Some _ \<Rightarrow> bnd ask (\<lambda>errNo.
         if errNo = Fail then ret (- 1)
         else bnd close_fd (\<lambda>_.
           ret (push_bit 8 (ucast (version_data 15)) + ucast (version_data 14)))))"

text \<open>
  The search loop reads four bytes, steps back and advances by one. The list is the file from the current position; an error of the stream
  and the end of the file end the search.
\<close>

fun find_FIP :: "byte list \<Rightarrow> byte list option io" where
  "find_FIP [] = bnd ask (\<lambda>_. ret None)"
| "find_FIP (b # bs) = bnd ask (\<lambda>out.
     if out = Fail \<or> length (b # bs) < 4 then ret None
     else if le_word (take 4 (b # bs)) = FIP_pattern then ret (Some (b # bs))
     else find_FIP bs)"

definition crack_update_fw :: "string \<Rightarrow> u32 io" where
  "crack_update_fw fw_file = bnd ask (\<lambda>out w. case (out, files w fw_file) of
       (Fail, _) \<Rightarrow> (Ret (- 1), w)
     | (_, None) \<Rightarrow> (Ret (- 1), w)
     | (_, Some data) \<Rightarrow> bnd (find_FIP data) (\<lambda>found. case found of
           None \<Rightarrow> bnd close_fd (\<lambda>_. ret (- 1))
         | Some rest \<Rightarrow> bnd ask (\<lambda>out.
             if out = Fail \<or> length rest < sizeof_FIP then bnd close_fd (\<lambda>_. ret (- 1))
             else bnd close_fd (\<lambda>_. (let fip = dec_FIP (take sizeof_FIP rest) in
               ret (push_bit 8 (ucast (IFWI_major (ifwi_rev fip))) + ucast (IFWI_minor (ifwi_rev fip)))))))
         (w\<lparr>nfds := Suc (nfds w)\<rparr>))"

definition compare_fw_rev :: "(nat \<Rightarrow> byte) \<Rightarrow> string \<Rightarrow> int io" where
  "compare_fw_rev version_data filename = bnd (find_fw_rev version_data) (\<lambda>cur_fw.
     bnd (crack_update_fw filename) (\<lambda>upd_fw.
       if cur_fw = - 1 \<or> upd_fw = - 1 then ret (- 1)
       else if cur_fw < upd_fw then ret 0
       else if upd_fw < cur_fw then ret 1
       else ret 2))"

definition ifwi_check_main :: "(nat \<Rightarrow> byte) \<Rightarrow> string list \<Rightarrow> int io" where
  "ifwi_check_main version_data argv =
     (if length argv \<noteq> 2 then ret (- 1) else compare_fw_rev version_data (argv ! 1))"

subsection \<open>The search\<close>

text \<open>The first offset at which the signature stands.\<close>

definition FIP_at :: "byte list \<Rightarrow> nat \<Rightarrow> bool" where
  "FIP_at data p \<longleftrightarrow> p + 4 \<le> length data \<and> le_word (bslice p 4 data) = FIP_pattern"

fun first_FIP :: "byte list \<Rightarrow> nat option" where
  "first_FIP [] = None"
| "first_FIP (b # bs) = (if FIP_at (b # bs) 0 then Some 0 else map_option Suc (first_FIP bs))"

lemma FIP_at_Cons: "FIP_at (b # bs) (Suc p) = FIP_at bs p"
  by (simp add: FIP_at_def bslice_def add.commute)

lemma first_FIP_Some:
  "first_FIP data = Some p \<longleftrightarrow> FIP_at data p \<and> (\<forall>q<p. \<not> FIP_at data q)"
proof (induction data arbitrary: p)
  case Nil
  show ?case by (simp add: FIP_at_def)
next
  case (Cons b bs)
  then show ?case by (cases p) (auto simp: FIP_at_Cons All_less_Suc2)
qed

lemma first_FIP_None: "first_FIP data = None \<longleftrightarrow> (\<forall>p. \<not> FIP_at data p)"
  by (metis first_FIP_Some not_None_eq exists_least_iff)

lemma find_FIP_reliable:
  "reliable w \<Longrightarrow> \<exists>c. find_FIP data w = (Ret (map_option (\<lambda>p. drop p data) (first_FIP data)), w\<lparr>calls := c\<rparr>)"
proof (induction data arbitrary: w)
  case Nil
  then show ?case by (auto simp: bnd_def ask_def ret_def)
next
  case (Cons b bs)
  let ?w = "w\<lparr>calls := Suc (calls w)\<rparr>"
  obtain c where c: "find_FIP bs ?w = (Ret (map_option (\<lambda>p. drop p bs) (first_FIP bs)), ?w\<lparr>calls := c\<rparr>)"
    using Cons.IH [of ?w] Cons.prems by auto
  show ?case
  proof (cases "length (b # bs) < 4")
    case True
    then have "first_FIP (b # bs) = None" by (auto simp: first_FIP_None FIP_at_def)
    with True Cons.prems show ?thesis by (auto simp: bnd_def ask_def ret_def)
  next
    case False
    then show ?thesis
      using Cons.prems c by (auto simp: bnd_def ask_def ret_def FIP_at_def bslice_def option.map_comp comp_def)
  qed
qed

subsection \<open>Properties\<close>

lemma fw_version:
  fixes a b :: byte
  shows "(push_bit 8 (ucast a) + ucast b :: u32) = of_nat (256 * unat a + unat b)"
    and "unat (push_bit 8 (ucast a) + ucast b :: u32) = 256 * unat a + unat b"
proof -
  show *: "(push_bit 8 (ucast a) + ucast b :: u32) = of_nat (256 * unat a + unat b)"
    by (simp add: push_bit_eq_mult mult.commute)
  have "unat a < 2 ^ 8" "unat b < 2 ^ 8" using unsigned_less [of a] unsigned_less [of b] by simp_all
  then show "unat (push_bit 8 (ucast a) + ucast b :: u32) = 256 * unat a + unat b"
    unfolding * by (intro unat_of_nat32) simp
qed

lemma crack_update_fw_version_reliable:
  assumes "reliable w" and "files w fw_file = Some data"
  shows "\<exists>c. crack_update_fw fw_file w = (Ret (case first_FIP data of
      None \<Rightarrow> - 1
    | Some p \<Rightarrow> if p + 44 \<le> length data then of_nat (256 * unat (data ! (p + 41)) + unat (data ! (p + 40))) else - 1),
    w\<lparr>calls := c\<rparr>)"
proof -
  let ?w = "w\<lparr>calls := Suc (calls w), nfds := Suc (nfds w)\<rparr>"
  obtain c where c: "find_FIP data ?w = (Ret (map_option (\<lambda>p. drop p data) (first_FIP data)), ?w\<lparr>calls := c\<rparr>)"
    using find_FIP_reliable [of ?w data] assms by auto
  have byte: "(le_word (bslice i (Suc 0) (take 44 (drop p data))) :: byte) = data ! (p + i)"
    if "p + 44 \<le> length data" "i < 44" for i p
    using that by (simp add: bslice_def take_Suc_conv_app_nth hd_drop_conv_nth)
  show ?thesis
  proof (cases "first_FIP data")
    case None
    then show ?thesis
      using c assms by (intro exI [of _ c]) (simp add: crack_update_fw_def bnd_def ask_def ret_def close_fd_def)
  next
    case (Some p)
    then show ?thesis
      using c assms byte [of p 40] byte [of p 41]
      by (intro exI [of _ "Suc c"]) (auto simp: crack_update_fw_def bnd_def ask_def ret_def close_fd_def
        sizeof_FIP_def dec_FIP_def Let_def fw_version(1))
  qed
qed

text \<open>
  C14: the version of a firmware file is the one in the first FIP header of the file: major and minor revision stand 41 and
  40 bytes behind the first occurrence of the signature. Without a signature, or with a header cut off by the end of the file, the
  result is -1. The search ends on every file.
\<close>

theorem crack_update_fw_version:
  assumes "reliable w" and "files w fw_file = Some data"
  shows "\<exists>c. crack_update_fw fw_file w = (Ret (case first_FIP data of
      None \<Rightarrow> - 1
    | Some p \<Rightarrow> if p + 44 \<le> length data then of_nat (256 * unat (data ! (p + 41)) + unat (data ! (p + 40))) else - 1),
    w\<lparr>calls := c\<rparr>)"
  by (rule crack_update_fw_version_reliable [OF assms])

definition sample_fw :: "byte list" where
  "sample_fw = [1, 2, 3, 0x24, 0x46, 0x49, 0x50] @ replicate 36 0 @ [7, 3, 0, 0]"

definition fw_world :: world where
  "fw_world = (sample_world [])\<lparr>files := [''fw.bin'' \<mapsto> sample_fw]\<rparr>"

lemma first_FIP_sample:
  "first_FIP sample_fw = Some 3" "length sample_fw = 47" "sample_fw ! 43 = 7" "sample_fw ! 44 = 3"
  by code_simp+

lemma fw_world_simps: "reliable fw_world" "files fw_world ''fw.bin'' = Some sample_fw"
  using sample_world_simps(1) [of "[]"] by (simp_all add: fw_world_def reliable_def)

theorem crack_update_fw_version_witness:
  "\<exists>c. crack_update_fw ''fw.bin'' fw_world = (Ret 775, fw_world\<lparr>calls := c\<rparr>)"
  using crack_update_fw_version [OF fw_world_simps] by (simp add: first_FIP_sample)

text \<open>
  C15: the verdict on a firmware file with a complete header: 0 when the file is newer than the firmware on the
  board, 1 when it is older, 2 when the versions are equal; the descriptors are closed. A file without
  a complete header gives -1.
\<close>

theorem compare_fw_rev_verdict:
  assumes "reliable w" and "files w filename = Some data"
    and "cur = 256 * unat (version_data 15) + unat (version_data 14)"
  shows "\<exists>c. compare_fw_rev version_data filename w = (Ret (case first_FIP data of
      None \<Rightarrow> - 1
    | Some p \<Rightarrow>
        if length data < p + 44 then - 1
        else (let upd = 256 * unat (data ! (p + 41)) + unat (data ! (p + 40)) in
          if cur < upd then 0 else if upd < cur then 1 else 2)), w\<lparr>calls := c\<rparr>)"
proof -
  let ?w = "w\<lparr>calls := calls w + 2\<rparr>"
  let ?cur = "of_nat cur :: u32"
  have byte: "unat b < 256" for b :: byte using unsigned_less [of b] by simp
  have unat_v: "unat (of_nat (256 * unat a + unat b) :: u32) = 256 * unat a + unat b" for a b :: byte
    using fw_version [of a b] by simp
  have not_err: "(of_nat (256 * unat a + unat b) :: u32) \<noteq> - 1" for a b :: byte
  proof
    assume "(of_nat (256 * unat a + unat b) :: u32) = - 1"
    then have "unat (of_nat (256 * unat a + unat b) :: u32) = unat (- 1 :: u32)" by simp
    then show False unfolding unat_v using byte [of a] byte [of b] by (simp add: unsigned_minus_1_eq_mask mask_eq_exp_minus_1)
  qed
  have 1: "find_fw_rev version_data w = (Ret ?cur, ?w)"
    using assms(1,3) by (simp add: find_fw_rev_def bnd_def open_fd_reliable ask_def close_fd_def ret_def fw_version(1))
  obtain c where 2: "crack_update_fw filename ?w = (Ret (case first_FIP data of None \<Rightarrow> - 1
    | Some p \<Rightarrow> if p + 44 \<le> length data then of_nat (256 * unat (data ! (p + 41)) + unat (data ! (p + 40))) else - 1),
    ?w\<lparr>calls := c\<rparr>)"
    using crack_update_fw_version_reliable [of ?w filename data] assms by auto
  have ne: "?cur \<noteq> - 1" "unat ?cur = cur" unfolding assms(3) using not_err unat_v by blast+
  show ?thesis
    using 1 2 ne
    by (intro exI [of _ c]) (auto simp: compare_fw_rev_def bnd_def ret_def Let_def word_less_nat_alt unat_v not_err
      simp del: of_nat_add of_nat_mult split: option.split)
qed

theorem compare_fw_rev_verdict_witness:
  "\<exists>c. compare_fw_rev (\<lambda>i. if i = 15 then 3 else 6) ''fw.bin'' fw_world = (Ret 0, fw_world\<lparr>calls := c\<rparr>)"
  using compare_fw_rev_verdict [OF fw_world_simps refl, of "\<lambda>i. if i = 15 then 3 else 6"]
  by (simp add: first_FIP_sample)

end
