(* ===== verification/Firmware_IO.thy ===== *)
theory Firmware_IO
  imports Posix
begin

text \<open>
  The system interface of the firmware loaders \<^verbatim>\<open>firmware_loader/ifwi-update.c\<close> and \<^verbatim>\<open>loadfw/loadfw.c\<close>: files
  that are read, and a log of the effects: descriptors and buffers that come and go, the device
  node, shell commands and the requests that the IPC driver receives.
\<close>

text \<open>The request of \<open>ifwi-update\<close>: \<open>struct fw_ud\<close> with the buffers its pointers refer to.\<close>

record fw_ud =
  fwFileData :: "byte list"
  fsize :: u32
  dnxhdr :: "byte list"
  dnxFileData :: "byte list"
  dnxsize :: u32
  fuph_hdr_len :: u32

datatype event =
    Opened string
  | Closed string
  | Allocated nat
  | Freed
  | Unlinked string
  | Node string int int
  | System string
  | Ioctl_update fw_ud
  | Ioctl_upgrade "byte list"

record sys =
  fs :: "string \<Rightarrow> byte list option"
  outcomes :: "nat \<Rightarrow> outcome"
  asked :: nat
  log :: "event list"

type_synonym 'a fw = "('a, sys) prog"

definition next_outcome :: "outcome fw" where
  "next_outcome s = (Ret (outcomes s (asked s)), s\<lparr>asked := Suc (asked s)\<rparr>)"

definition emit :: "event \<Rightarrow> unit fw" where
  "emit e s = (Ret (), s\<lparr>log := log s @ [e]\<rparr>)"

text \<open>Opening a file for reading: its content, when the file exists and the call succeeds.\<close>

definition open_file :: "string \<Rightarrow> byte list option fw" where
  "open_file path = bnd next_outcome (\<lambda>out s. case (out, fs s path) of
       (Fail, _) \<Rightarrow> (Ret None, s)
     | (_, None) \<Rightarrow> (Ret None, s)
     | (_, Some bs) \<Rightarrow> bnd (emit (Opened path)) (\<lambda>_. ret (Some bs)) s)"

text \<open>Opening a device node that need not be a file of the model.\<close>

definition open_node :: "string \<Rightarrow> bool fw" where
  "open_node path = bnd next_outcome (\<lambda>out. if out = Fail then ret False
     else bnd (emit (Opened path)) (\<lambda>_. ret True))"

definition calloc :: "nat \<Rightarrow> bool fw" where
  "calloc n = bnd next_outcome (\<lambda>out. if out = Fail then ret False
     else bnd (emit (Allocated n)) (\<lambda>_. ret True))"

text \<open>
  \<open>read(fd, buf, n)\<close> of a file of \<open>n\<close> bytes into a cleared buffer of \<open>n\<close> bytes: the buffer afterwards (\<open>None\<close>: -1), with
  the rest still zero after a short transfer.
\<close>

definition read_file :: "byte list \<Rightarrow> byte list option fw" where
  "read_file bs = bnd next_outcome (\<lambda>out. if out = Fail then ret None
     else (let k = transfer out (length bs) in ret (Some (take k bs @ replicate (length bs - k) 0))))"

lemma length_read_file: "read_file bs s = (Ret (Some buf), s') \<Longrightarrow> length buf = length bs"
  using transfer_le [of "outcomes s (asked s)" "length bs"]
  by (auto simp: read_file_def bnd_def next_outcome_def ret_def Let_def split: if_splits)

subsection \<open>Contracts of programs\<close>

text \<open>
  \<open>logs P m\<close>: whatever the environment does, a run of \<open>m\<close> that returns \<open>x\<close> extends the log by
  events \<open>es\<close> with \<open>P x es\<close>.
\<close>

definition logs :: "('a \<Rightarrow> event list \<Rightarrow> bool) \<Rightarrow> 'a fw \<Rightarrow> bool" where
  "logs P m \<longleftrightarrow> (\<forall>s x s'. m s = (Ret x, s') \<longrightarrow> (\<exists>es. log s' = log s @ es \<and> P x es))"

lemma logsD: "logs P m \<Longrightarrow> m s = (Ret x, s') \<Longrightarrow> \<exists>es. log s' = log s @ es \<and> P x es"
  by (simp add: logs_def)

lemma logs_ret: "P x [] \<Longrightarrow> logs P (ret x)"
  by (simp add: logs_def ret_def)

lemma logs_crash: "logs P (crash f)"
  by (simp add: logs_def crash_def)

lemma logs_bnd:
  assumes m: "logs P m" and k: "\<And>x es. P x es \<Longrightarrow> logs (\<lambda>y fs. Q y (es @ fs)) (k x)"
  shows "logs Q (bnd m k)"
  unfolding logs_def bnd_eq_Ret
proof (intro allI impI, elim exE conjE)
  fix s y s' x v
  assume x: "m s = (Ret x, v)" and y: "k x v = (Ret y, s')"
  from logsD [OF m x] obtain es where es: "log v = log s @ es" "P x es" by blast
  from logsD [OF k [OF es(2)] y] es(1) show "\<exists>es. log s' = log s @ es \<and> Q y es" by auto
qed

lemma logs_weaken: "logs P m \<Longrightarrow> (\<And>x es. P x es \<Longrightarrow> Q x es) \<Longrightarrow> logs Q m"
  unfolding logs_def by blast

lemma logs_next: "logs (\<lambda>_ es. es = []) next_outcome"
  by (simp add: logs_def next_outcome_def)

lemma logs_emit: "logs (\<lambda>_ es. es = [e]) (emit e)"
  by (simp add: logs_def emit_def)

lemma logs_if: "(c \<Longrightarrow> logs P m) \<Longrightarrow> (\<not> c \<Longrightarrow> logs P m') \<Longrightarrow> logs P (if c then m else m')"
  by simp

lemma logs_open_file:
  "logs (\<lambda>x es. case x of None \<Rightarrow> es = [] | Some _ \<Rightarrow> es = [Opened path]) (open_file path)"
  by (auto simp: logs_def open_file_def bnd_def next_outcome_def emit_def ret_def
    split: outcome.splits option.splits)

lemma logs_open_node: "logs (\<lambda>x es. es = (if x then [Opened path] else [])) (open_node path)"
  by (auto simp: logs_def open_node_def bnd_def next_outcome_def emit_def ret_def split: if_splits)

lemma logs_calloc: "logs (\<lambda>x es. es = (if x then [Allocated n] else [])) (calloc n)"
  by (auto simp: logs_def calloc_def bnd_def next_outcome_def emit_def ret_def split: if_splits)

lemma logs_read_file:
  "logs (\<lambda>x es. es = [] \<and> (\<forall>buf. x = Some buf \<longrightarrow> length buf = length bs)) (read_file bs)"
  unfolding logs_def
proof (intro allI impI)
  fix s x s'
  assume r: "read_file bs s = (Ret x, s')"
  then have "log s' = log s"
    by (auto simp: read_file_def bnd_def next_outcome_def ret_def Let_def split: if_splits)
  with r length_read_file [of bs s] show "\<exists>es. log s' = log s @ es \<and> es = [] \<and> (\<forall>buf. x = Some buf \<longrightarrow> length buf = length bs)"
    by auto
qed

end
