(* ===== verification/Ifwi_Update.thy ===== *)
theory Ifwi_Update
  imports Firmware_IO
begin

text \<open>
  \<^verbatim>\<open>firmware_loader/ifwi-update.c\<close>: hands a DnX image and an IFWI image to the IPC driver, which
  updates the firmware, and reboots. The error labels of \<open>main\<close> release what was acquired so far, in reverse
  order; each stage below is the code between two acquisitions.
\<close>

subsection \<open>Constants\<close>

definition DEVICE_NAME :: string where "DEVICE_NAME = ''/dev/mid_ipc''"
definition DEV_LIST :: string where "DEV_LIST = ''/proc/devices''"
definition MISC_LIST :: string where "MISC_LIST = ''/proc/misc''"
definition IPC_DEV :: string where "IPC_DEV = ''mid_ipc''"
definition MISC_DEV :: string where "MISC_DEV = ''misc''"
definition DNX_SIZE :: nat where "DNX_SIZE = 128 * 1024"
definition IFWI_SIZE :: nat where "IFWI_SIZE = 1024 * 1024 * 3"
definition FUPH_STR :: "byte list" where "FUPH_STR = [0x55, 0x50, 0x48, 0x24]"
definition FUPH_MAX_LEN :: nat where "FUPH_MAX_LEN = 36"
definition SKIP_BYTES :: nat where "SKIP_BYTES = 8"

subsection \<open>Helpers\<close>

definition checksufix :: "string \<Rightarrow> int" where
  "checksufix fw = (case strrchr fw CHR ''.'' of
       None \<Rightarrow> -1
     | Some sufix \<Rightarrow> if strcmp sufix ''.bin'' \<noteq> 0 then -1 else 0)"

text \<open>The lines that \<open>getline\<close> delivers, and the search in them: the first line that contains the name decides.\<close>

fun getlines :: "byte list \<Rightarrow> byte list \<Rightarrow> byte list list" where
  "getlines acc [] = (if acc = [] then [] else [rev acc])"
| "getlines acc (b # bs) = (if b = 10 then rev (b # acc) # getlines [] bs else getlines (b # acc) bs)"

fun find_line :: "byte list list \<Rightarrow> string \<Rightarrow> int option" where
  "find_line [] dev_name = None"
| "find_line (line # ls) dev_name =
     (if strstr (cstr line) dev_name then sscanf_d (cstr line) else find_line ls dev_name)"

definition find_device_id :: "string \<Rightarrow> string \<Rightarrow> int option fw" where
  "find_device_id proc_file dev_name = bnd (open_file proc_file) (\<lambda>fp. case fp of
       None \<Rightarrow> ret None
     | Some bs \<Rightarrow> bnd (emit (Closed proc_file)) (\<lambda>_. ret (find_line (getlines [] bs) dev_name)))"

text \<open>
  The search for \<open>UPH$\<close> from the end of the file, four bytes at a time. A position before the
  buffer is an access outside it.
\<close>

function fuph_loop :: "byte list \<Rightarrow> nat \<Rightarrow> nat option fw" where
  "fuph_loop file_data cnt =
     (if cnt \<le> FUPH_MAX_LEN then
        if length file_data < cnt + SKIP_BYTES then crash OutOfBounds
        else if bslice (length file_data - SKIP_BYTES - cnt) 4 file_data = FUPH_STR
        then ret (Some (cnt + SKIP_BYTES))
        else fuph_loop file_data (cnt + 4)
      else ret None)"
  by pat_completeness auto
termination
  by (relation "measure (\<lambda>(_, cnt). FUPH_MAX_LEN + 1 - cnt)") auto

declare fuph_loop.simps [simp del]

definition find_fuph_header_len :: "byte list \<Rightarrow> nat option fw" where
  "find_fuph_header_len file_data = (if file_data = [] then ret None else fuph_loop file_data 0)"

definition gpFlags :: u32 where "gpFlags = push_bit 31 1"

text \<open>The 24-byte header in front of the DnX image: its size, the flags, and their exclusive or.\<close>

definition dnxSH :: "u32 \<Rightarrow> byte list" where
  "dnxSH sz = le_bytes 4 sz @ le_bytes 4 gpFlags @ replicate 12 0 @ le_bytes 4 (sz XOR gpFlags)"

subsection \<open>The main program\<close>

text \<open>Each stage returns the exit status and whether to reboot.\<close>

definition stage_ioctl :: "byte list \<Rightarrow> byte list \<Rightarrow> (int \<times> bool) fw" where
  "stage_ioctl dnx fw = bnd (find_fuph_header_len fw) (\<lambda>len. case len of
       None \<Rightarrow> ret (-1, False)
     | Some len \<Rightarrow> bnd (open_node DEVICE_NAME) (\<lambda>opened.
         if \<not> opened then ret (-1, False)
         else bnd (emit (System ''sync'')) (\<lambda>_.
              bnd (emit (Ioctl_update \<lparr>fwFileData = fw, fsize = of_nat (length fw),
                dnxhdr = dnxSH (of_nat (length dnx)), dnxFileData = dnx, dnxsize = of_nat (length dnx),
                fuph_hdr_len = of_nat len\<rparr>)) (\<lambda>_.
              bnd next_outcome (\<lambda>errNo.
              bnd (emit (Closed DEVICE_NAME)) (\<lambda>_.
                ret (if errNo = Fail then -1 else 0, True)))))))"

definition stage_ifwi :: "byte list \<Rightarrow> byte list \<Rightarrow> (int \<times> bool) fw" where
  "stage_ifwi dnx bs = bnd next_outcome (\<lambda>stat.
     if stat = Fail then ret (-1, False)
     else if IFWI_SIZE < length bs \<or> length bs = 0 then ret (-1, False)
     else bnd (calloc (length bs)) (\<lambda>mem. if \<not> mem then ret (-1, False)
     else bnd (bnd (read_file bs) (\<lambda>buf. case buf of
         None \<Rightarrow> ret (-1, False)
       | Some fw \<Rightarrow> stage_ioctl dnx fw)) (\<lambda>res.
     bnd (emit Freed) (\<lambda>_. ret res))))"

definition stage_dnx :: "string \<Rightarrow> byte list \<Rightarrow> (int \<times> bool) fw" where
  "stage_dnx fwBinFile bs = bnd next_outcome (\<lambda>stat.
     if stat = Fail then ret (-1, False)
     else if DNX_SIZE < length bs \<or> length bs = 0 then ret (-1, False)
     else bnd (calloc (length bs)) (\<lambda>mem. if \<not> mem then ret (-1, False)
     else bnd (bnd (read_file bs) (\<lambda>buf. case buf of
         None \<Rightarrow> ret (-1, False)
       | Some dnx \<Rightarrow> bnd (open_file fwBinFile) (\<lambda>ifwi_fd. case ifwi_fd of
           None \<Rightarrow> ret (-1, False)
         | Some fw \<Rightarrow> bnd (stage_ifwi dnx fw) (\<lambda>res. bnd (emit (Closed fwBinFile)) (\<lambda>_. ret res))))) (\<lambda>res.
     bnd (emit Freed) (\<lambda>_. ret res))))"

definition stage_files :: "string \<Rightarrow> string \<Rightarrow> (int \<times> bool) fw" where
  "stage_files dnxBinFile fwBinFile = bnd (open_file dnxBinFile) (\<lambda>dnx_fd. case dnx_fd of
       None \<Rightarrow> ret (-1, False)
     | Some bs \<Rightarrow> bnd (stage_dnx fwBinFile bs) (\<lambda>res. bnd (emit (Closed dnxBinFile)) (\<lambda>_. ret res)))"

definition stage_node :: "string \<Rightarrow> string \<Rightarrow> (int \<times> bool) fw" where
  "stage_node dnxBinFile fwBinFile = bnd (find_device_id DEV_LIST MISC_DEV) (\<lambda>major. case major of
       None \<Rightarrow> ret (-1, False)
     | Some major \<Rightarrow> bnd (find_device_id MISC_LIST IPC_DEV) (\<lambda>minor. case minor of
         None \<Rightarrow> ret (-1, False)
       | Some minor \<Rightarrow> bnd (emit (Unlinked DEVICE_NAME)) (\<lambda>_. bnd next_outcome (\<lambda>out.
           if out = Fail then ret (-1, False)
           else bnd (emit (Node DEVICE_NAME major minor)) (\<lambda>_. stage_files dnxBinFile fwBinFile)))))"

definition finish :: "int \<times> bool \<Rightarrow> int fw" where
  "finish res = (if snd res
     then bnd (emit (System ''sync'')) (\<lambda>_. bnd (emit (System ''reboot -f'')) (\<lambda>_. ret (fst res)))
     else ret (fst res))"

definition ifwi_update_main :: "string list \<Rightarrow> int fw" where
  "ifwi_update_main argv =
     bnd (if length argv \<noteq> 3 then ret (-1, False)
          else if checksufix (argv ! 1) \<noteq> 0 then ret (-1, False)
          else if checksufix (argv ! 2) \<noteq> 0 then ret (-1, False)
          else stage_node (argv ! 1) (argv ! 2)) finish"

subsection \<open>The helpers\<close>

lemma getlines_concat: "concat (getlines acc bs) = rev acc @ bs"
  by (induction acc bs rule: getlines.induct) auto

lemma getlines_line:
  "10 \<notin> set acc \<Longrightarrow> line \<in> set (getlines acc bs) \<Longrightarrow> line \<noteq> [] \<and> 10 \<notin> set (butlast line)"
  by (induction acc bs rule: getlines.induct) (auto split: if_splits simp: in_set_butlast_appendI dest: in_set_butlastD list.set_sel(2))

lemma find_line_first:
  "find_line ls dev_name = (case dropWhile (\<lambda>l. \<not> strstr (cstr l) dev_name) ls of [] \<Rightarrow> None | l # _ \<Rightarrow> sscanf_d (cstr l))"
  by (induction ls) auto

definition fuph_lens :: "nat list" where
  "fuph_lens = [8, 12, 16, 20, 24, 28, 32, 36, 40, 44]"

definition fuph_stop :: "byte list \<Rightarrow> nat \<Rightarrow> bool" where
  "fuph_stop data len \<longleftrightarrow> length data < len \<or> bslice (length data - len) 4 data = FUPH_STR"

lemma find_fuph_run:
  "find_fuph_header_len data s =
    (if data = [] then Ret None
     else case find (fuph_stop data) fuph_lens of
       None \<Rightarrow> Ret None
     | Some len \<Rightarrow> if length data < len then Fault OutOfBounds else Ret (Some len), s)"
  by (simp add: find_fuph_header_len_def fuph_lens_def fuph_stop_def ret_def crash_def
    fuph_loop.simps [of _ 0] fuph_loop.simps [of _ 4] fuph_loop.simps [of _ 8] fuph_loop.simps [of _ 12]
    fuph_loop.simps [of _ 16] fuph_loop.simps [of _ 20] fuph_loop.simps [of _ 24] fuph_loop.simps [of _ 28]
    fuph_loop.simps [of _ 32] fuph_loop.simps [of _ 36] fuph_loop.simps [of _ 40]
    FUPH_MAX_LEN_def SKIP_BYTES_def)

text \<open>A header length that the search may report for a file.\<close>

definition fuph_ok :: "byte list \<Rightarrow> nat \<Rightarrow> bool" where
  "fuph_ok fw len \<longleftrightarrow> len \<in> set fuph_lens \<and> len \<le> length fw \<and> bslice (length fw - len) 4 fw = FUPH_STR"

lemma logs_find_fuph:
  "logs (\<lambda>x es. es = [] \<and> (\<forall>len. x = Some len \<longrightarrow> fuph_ok fw len)) (find_fuph_header_len fw)"
  by (auto simp: logs_def find_fuph_run fuph_ok_def fuph_stop_def find_Some_iff split: if_splits option.splits)

subsection \<open>What every run does\<close>

fun opens :: "event list \<Rightarrow> int" where
  "opens [] = 0"
| "opens (e # es) = (case e of Opened _ \<Rightarrow> 1 | Closed _ \<Rightarrow> - 1 | _ \<Rightarrow> 0) + opens es"

fun allocs :: "event list \<Rightarrow> int" where
  "allocs [] = 0"
| "allocs (e # es) = (case e of Allocated _ \<Rightarrow> 1 | Freed \<Rightarrow> - 1 | _ \<Rightarrow> 0) + allocs es"

fun requests :: "event list \<Rightarrow> fw_ud list" where
  "requests [] = []"
| "requests (e # es) = (case e of Ioctl_update u \<Rightarrow> u # requests es | _ \<Rightarrow> requests es)"

lemma tally_append [simp]:
  "opens (a @ b) = opens a + opens b" "allocs (a @ b) = allocs a + allocs b"
  "requests (a @ b) = requests a @ requests b"
  by (induction a) (simp_all split: event.split)

text \<open>A request that respects the size limits and describes its buffers.\<close>

definition request_ok :: "fw_ud \<Rightarrow> bool" where
  "request_ok u \<longleftrightarrow> 0 < length (dnxFileData u) \<and> length (dnxFileData u) \<le> DNX_SIZE
     \<and> dnxsize u = of_nat (length (dnxFileData u))
     \<and> length (dnxhdr u) = 24 \<and> le_word (bslice 0 4 (dnxhdr u)) = dnxsize u
     \<and> le_word (bslice 0 4 (dnxhdr u)) XOR le_word (bslice 4 4 (dnxhdr u)) XOR le_word (bslice 20 4 (dnxhdr u)) = (0 :: u32)
     \<and> 0 < length (fwFileData u) \<and> length (fwFileData u) \<le> IFWI_SIZE
     \<and> fsize u = of_nat (length (fwFileData u))
     \<and> (\<exists>len. fuph_hdr_len u = of_nat len \<and> fuph_ok (fwFileData u) len)"

definition stage_ok :: "int \<times> bool \<Rightarrow> event list \<Rightarrow> bool" where
  "stage_ok res es \<longleftrightarrow> opens es = 0 \<and> allocs es = 0 \<and> System ''reboot -f'' \<notin> set es
     \<and> (if snd res then (\<exists>u. requests es = [u] \<and> request_ok u) else requests es = [] \<and> fst res = -1)"

lemma stage_ok_fail: "stage_ok (-1, False) []"
  by (simp add: stage_ok_def)

lemma dnxSH_words:
  "length (dnxSH sz) = 24" "le_word (bslice 0 4 (dnxSH sz)) = sz" "le_word (bslice 4 4 (dnxSH sz)) = gpFlags"
  "le_word (bslice 20 4 (dnxSH sz)) = sz XOR gpFlags"
  by (simp_all add: dnxSH_def buf_simps bslice_all)

lemma xor_pair: "a XOR b XOR a XOR b = (0 :: u32)"
  by (rule bit_word_eqI) (auto simp: bit_xor_iff)

lemma logs_stage_ioctl:
  assumes dnx: "0 < length dnx" "length dnx \<le> DNX_SIZE" and fw: "0 < length fw" "length fw \<le> IFWI_SIZE"
  shows "logs stage_ok (stage_ioctl dnx fw)"
  unfolding stage_ioctl_def
proof (rule logs_bnd [OF logs_find_fuph], clarify)
  fix x
  assume len: "\<forall>len. x = Some len \<longrightarrow> fuph_ok fw len"
  show "logs (\<lambda>y fs. stage_ok y ([] @ fs)) (case x of None \<Rightarrow> ret (-1, False)
     | Some len \<Rightarrow> bnd (open_node DEVICE_NAME) (\<lambda>opened.
         if \<not> opened then ret (-1, False)
         else bnd (emit (System ''sync'')) (\<lambda>_.
              bnd (emit (Ioctl_update \<lparr>fwFileData = fw, fsize = of_nat (length fw),
                dnxhdr = dnxSH (of_nat (length dnx)), dnxFileData = dnx, dnxsize = of_nat (length dnx),
                fuph_hdr_len = of_nat len\<rparr>)) (\<lambda>_.
              bnd next_outcome (\<lambda>errNo.
              bnd (emit (Closed DEVICE_NAME)) (\<lambda>_.
                ret (if errNo = Fail then -1 else 0, True)))))))"
  proof (cases x)
    case None
    then show ?thesis by (simp add: logs_ret stage_ok_fail)
  next
    case (Some l)
    with len have "request_ok \<lparr>fwFileData = fw, fsize = of_nat (length fw),
                dnxhdr = dnxSH (of_nat (length dnx)), dnxFileData = dnx, dnxsize = of_nat (length dnx),
                fuph_hdr_len = of_nat l\<rparr>"
      using dnx fw by (auto simp: request_ok_def dnxSH_words xor_pair)
    with Some show ?thesis
      by (auto simp: logs_def open_node_def bnd_def next_outcome_def emit_def ret_def stage_ok_def split: if_splits)
  qed
qed

text \<open>A stage that acquires something, runs the rest and releases it whatever the rest returned.\<close>

lemma logs_held:
  assumes "logs stage_ok m" and "opens [a, e] = 0" "allocs [a, e] = 0" "requests [a, e] = []"
    and "System ''reboot -f'' \<notin> {a, e}"
  shows "logs (\<lambda>res fs. stage_ok res (a # fs)) (bnd m (\<lambda>res. bnd (emit e) (\<lambda>_. ret res)))"
proof (rule logs_bnd [OF assms(1)])
  fix res es
  assume "stage_ok res es"
  moreover have "requests (a # es @ [e]) = requests es"
    using assms(4) by (auto split: event.splits)
  ultimately have "stage_ok res (a # es @ [e])"
    using assms(2,3,5) by (simp add: stage_ok_def)
  then show "logs (\<lambda>y fs. stage_ok y (a # es @ fs)) (bnd (emit e) (\<lambda>_. ret res))"
    by (auto simp: logs_def bnd_def emit_def ret_def)
qed

lemma logs_with_buffer:
  assumes "logs stage_ok m"
  shows "logs stage_ok (bnd (calloc n) (\<lambda>mem. if \<not> mem then ret (-1, False)
    else bnd m (\<lambda>res. bnd (emit Freed) (\<lambda>_. ret res))))"
  by (rule logs_bnd [OF logs_calloc])
    (use logs_held [OF assms, of "Allocated n" Freed] in \<open>auto simp: logs_ret stage_ok_fail\<close>)

lemma logs_with_file:
  assumes "\<And>bs. logs stage_ok (m bs)"
  shows "logs stage_ok (bnd (open_file path) (\<lambda>fd. case fd of None \<Rightarrow> ret (-1, False)
    | Some bs \<Rightarrow> bnd (m bs) (\<lambda>res. bnd (emit (Closed path)) (\<lambda>_. ret res))))"
  by (rule logs_bnd [OF logs_open_file])
    (use logs_held [OF assms, of "Opened path" "Closed path"] in \<open>auto simp: logs_ret stage_ok_fail split: option.splits\<close>)

lemma logs_read_then:
  assumes "\<And>buf. length buf = length bs \<Longrightarrow> logs stage_ok (m buf)"
  shows "logs stage_ok (bnd (read_file bs) (\<lambda>buf. case buf of None \<Rightarrow> ret (-1, False) | Some buf \<Rightarrow> m buf))"
  by (rule logs_bnd [OF logs_read_file]) (use assms in \<open>auto simp: logs_ret stage_ok_fail split: option.splits\<close>)

lemma logs_next_then: "(\<And>out. logs P (k out)) \<Longrightarrow> logs P (bnd next_outcome k)"
  by (rule logs_bnd [OF logs_next]) simp

lemma logs_stage_ifwi:
  assumes "0 < length dnx" "length dnx \<le> DNX_SIZE"
  shows "logs stage_ok (stage_ifwi dnx bs)"
  unfolding stage_ifwi_def
  by (intro logs_next_then logs_if logs_ret stage_ok_fail logs_with_buffer logs_read_then logs_stage_ioctl assms)
    auto

lemma logs_stage_dnx: "logs stage_ok (stage_dnx fwBinFile bs)"
  unfolding stage_dnx_def
  by (intro logs_next_then logs_if logs_ret stage_ok_fail logs_with_buffer logs_read_then logs_with_file logs_stage_ifwi)
    auto

lemma logs_stage_files: "logs stage_ok (stage_files dnxBinFile fwBinFile)"
  unfolding stage_files_def by (intro logs_with_file logs_stage_dnx)

lemma logs_find_device_id:
  "logs (\<lambda>_ es. opens es = 0 \<and> allocs es = 0 \<and> requests es = [] \<and> System ''reboot -f'' \<notin> set es)
    (find_device_id proc_file dev_name)"
  unfolding find_device_id_def
  by (rule logs_bnd [OF logs_open_file]) (auto simp: logs_def bnd_def emit_def ret_def split: option.splits)

lemma logs_quiet:
  assumes "logs stage_ok m" and "opens es = 0" "allocs es = 0" "requests es = []" "System ''reboot -f'' \<notin> set es"
  shows "logs (\<lambda>res fs. stage_ok res (es @ fs)) m"
  by (rule logs_weaken [OF assms(1)]) (use assms(2-) in \<open>simp add: stage_ok_def\<close>)

lemma logs_device_then:
  assumes "\<And>y. logs stage_ok (k y)"
  shows "logs stage_ok (bnd (find_device_id p d) (\<lambda>x. case x of None \<Rightarrow> ret (-1, False) | Some y \<Rightarrow> k y))"
proof (rule logs_bnd [OF logs_find_device_id], elim conjE)
  fix x es
  assume q: "opens es = 0" "allocs es = 0" "requests es = []" "System ''reboot -f'' \<notin> set es"
  have "logs stage_ok (case x of None \<Rightarrow> ret (-1, False) | Some y \<Rightarrow> k y)"
    using assms by (simp add: logs_ret stage_ok_fail split: option.split)
  then show "logs (\<lambda>y fs. stage_ok y (es @ fs)) (case x of None \<Rightarrow> ret (-1, False) | Some y \<Rightarrow> k y)"
    using q by (rule logs_quiet)
qed

lemma logs_stage_node: "logs stage_ok (stage_node dnxBinFile fwBinFile)"
proof -
  have node: "logs stage_ok (bnd (emit (Unlinked DEVICE_NAME)) (\<lambda>_. bnd next_outcome (\<lambda>out.
      if out = Fail then ret (-1, False)
      else bnd (emit (Node DEVICE_NAME a b)) (\<lambda>_. stage_files dnxBinFile fwBinFile))))" for a b
    by (rule logs_bnd [OF logs_emit], simp, rule logs_next_then, rule logs_if, rule logs_ret, simp add: stage_ok_def,
        rule logs_bnd [OF logs_emit], simp, rule logs_quiet [OF logs_stage_files, where es = "[_, _]", simplified])
      simp_all
  show ?thesis
    unfolding stage_node_def by (intro logs_device_then node)
qed

subsection \<open>Properties\<close>

text \<open>
  C16: whatever the system calls answer, a run of \<open>ifwi-update\<close> that returns has closed every descriptor and freed
  every buffer, sent the driver at most one request, and only one whose images respect the size limits,
  whose DnX header words cancel out and whose update header starts with \<open>UPH$\<close>. It reboots exactly when it sent a request,
  and without one it returns -1.
\<close>

theorem ifwi_update_contract:
  assumes "ifwi_update_main argv s = (Ret code, s')"
  shows "\<exists>es. log s' = log s @ es \<and> opens es = 0 \<and> allocs es = 0
    \<and> length (requests es) \<le> 1 \<and> (\<forall>u\<in>set (requests es). request_ok u)
    \<and> (System ''reboot -f'' \<in> set es \<longleftrightarrow> requests es \<noteq> []) \<and> (requests es = [] \<longrightarrow> code = -1)"
proof -
  let ?m = "if length argv \<noteq> 3 then ret (-1, False) else if checksufix (argv ! 1) \<noteq> 0 then ret (-1, False)
      else if checksufix (argv ! 2) \<noteq> 0 then ret (-1, False) else stage_node (argv ! 1) (argv ! 2)"
  have "logs stage_ok ?m" by (intro logs_if logs_ret stage_ok_fail logs_stage_node)
  moreover obtain res v where v: "?m s = (Ret res, v)" and f: "finish res v = (Ret code, s')"
    using assms unfolding ifwi_update_main_def bnd_eq_Ret by blast
  ultimately obtain es where es: "log v = log s @ es" "stage_ok res es" by (blast dest: logsD)
  from f have "log s' = log v @ (if snd res then [System ''sync'', System ''reboot -f''] else []) \<and> code = fst res"
    by (auto simp: finish_def bnd_def emit_def ret_def split: if_splits)
  with es show ?thesis
    by (intro exI [of _ "es @ (if snd res then [System ''sync'', System ''reboot -f''] else [])"])
      (auto simp: stage_ok_def split: if_splits)
qed

text \<open>Runs in which no call fails; transfers may still be short.\<close>

definition steady :: "sys \<Rightarrow> bool" where
  "steady s \<longleftrightarrow> (\<forall>n. outcomes s n \<noteq> Fail)"

lemma steady_update [simp]:
  "steady (s\<lparr>asked := n\<rparr>) = steady s" "steady (s\<lparr>log := l\<rparr>) = steady s"
  by (simp_all add: steady_def)

lemma steady_open_file:
  "steady s \<Longrightarrow> fs s path = Some bs \<Longrightarrow>
    open_file path s = (Ret (Some bs), s\<lparr>asked := Suc (asked s), log := log s @ [Opened path]\<rparr>)"
  by (cases "outcomes s (asked s)") (auto simp: steady_def open_file_def bnd_def next_outcome_def emit_def ret_def)

text \<open>The buffer after a read that delivered as many bytes as the environment chose.\<close>

definition filled :: "sys \<Rightarrow> nat \<Rightarrow> byte list \<Rightarrow> byte list" where
  "filled s n bs = take (transfer (outcomes s n) (length bs)) bs
     @ replicate (length bs - transfer (outcomes s n) (length bs)) 0"

lemma length_filled [simp]: "length (filled s n bs) = length bs"
  using transfer_le [of "outcomes s n" "length bs"] by (simp add: filled_def)

lemma filled_update [simp]: "filled (s\<lparr>asked := m\<rparr>) n bs = filled s n bs" "filled (s\<lparr>log := l\<rparr>) n bs = filled s n bs"
  by (simp_all add: filled_def)

lemma steady_steps:
  assumes "steady s"
  shows "open_node path s = (Ret True, s\<lparr>asked := Suc (asked s), log := log s @ [Opened path]\<rparr>)"
    and "calloc n s = (Ret True, s\<lparr>asked := Suc (asked s), log := log s @ [Allocated n]\<rparr>)"
    and "read_file bs s = (Ret (Some (filled s (asked s) bs)), s\<lparr>asked := Suc (asked s)\<rparr>)"
    and "\<exists>out. out \<noteq> Fail \<and> next_outcome s = (Ret out, s\<lparr>asked := Suc (asked s)\<rparr>)"
  using assms
  by (simp_all add: steady_def open_node_def calloc_def read_file_def bnd_def next_outcome_def emit_def ret_def Let_def
    filled_def)

lemma steady_next: "steady s \<Longrightarrow> outcomes s (asked s) \<noteq> Fail"
  by (simp add: steady_def)

lemma steady_device:
  assumes "steady s" and "fs s p = Some bs" and "find_line (getlines [] bs) d = Some v"
  shows "find_device_id p d s = (Ret (Some v), s\<lparr>asked := Suc (asked s), log := log s @ [Opened p, Closed p]\<rparr>)"
  using assms by (simp add: find_device_id_def bnd_def steady_open_file emit_def ret_def)

lemma steady_stage_ioctl:
  assumes "steady s" and "fw \<noteq> []" and "find (fuph_stop fw) fuph_lens = Some len" and "len \<le> length fw"
  shows "stage_ioctl dnx fw s = (Ret (0, True), s\<lparr>asked := asked s + 2, log := log s @
    [Opened DEVICE_NAME, System ''sync'', Ioctl_update \<lparr>fwFileData = fw, fsize = of_nat (length fw),
      dnxhdr = dnxSH (of_nat (length dnx)), dnxFileData = dnx, dnxsize = of_nat (length dnx),
      fuph_hdr_len = of_nat len\<rparr>, Closed DEVICE_NAME]\<rparr>)"
  using assms steady_next [of "s\<lparr>asked := Suc (asked s)\<rparr>"]
  by (simp add: stage_ioctl_def bnd_def find_fuph_run steady_steps emit_def ret_def next_outcome_def)

definition request :: "byte list \<Rightarrow> byte list \<Rightarrow> nat \<Rightarrow> fw_ud" where
  "request dnx fw len = \<lparr>fwFileData = fw, fsize = of_nat (length fw), dnxhdr = dnxSH (of_nat (length dnx)),
     dnxFileData = dnx, dnxsize = of_nat (length dnx), fuph_hdr_len = of_nat len\<rparr>"

lemma steady_stage_ifwi:
  assumes s: "steady s" and b: "0 < length bs" "length bs \<le> IFWI_SIZE"
    and fbuf: "fbuf = filled s (asked s + 2) bs"
    and u: "find (fuph_stop fbuf) fuph_lens = Some len" "len \<le> length fbuf"
  shows "stage_ifwi dnx bs s = (Ret (0, True), s\<lparr>asked := asked s + 5, log := log s @
    [Allocated (length bs), Opened DEVICE_NAME, System ''sync'', Ioctl_update (request dnx fbuf len),
     Closed DEVICE_NAME, Freed]\<rparr>)"
proof -
  let ?s = "s\<lparr>log := log s @ [Allocated (length bs)], asked := asked s + 3\<rparr>"
  have "length fbuf = length bs" by (simp add: fbuf)
  then have "fbuf \<noteq> []" using b(1) by auto
  from steady_stage_ioctl [OF _ this u, of ?s dnx] s show ?thesis
    using b steady_next [OF s]
    by (simp add: stage_ifwi_def bnd_def next_outcome_def steady_steps emit_def ret_def fbuf request_def numeral_eq_Suc)
qed

lemma steady_stage_dnx:
  assumes s: "steady s" and f: "fs s fwf = Some fw"
    and d: "0 < length dnx" "length dnx \<le> DNX_SIZE" and b: "0 < length fw" "length fw \<le> IFWI_SIZE"
    and dbuf: "dbuf = filled s (asked s + 2) dnx" and fbuf: "fbuf = filled s (asked s + 6) fw"
    and u: "find (fuph_stop fbuf) fuph_lens = Some len" "len \<le> length fbuf"
  shows "stage_dnx fwf dnx s = (Ret (0, True), s\<lparr>asked := asked s + 9, log := log s @
    [Allocated (length dnx), Opened fwf, Allocated (length fw), Opened DEVICE_NAME, System ''sync'',
     Ioctl_update (request dbuf fbuf len), Closed DEVICE_NAME, Freed, Closed fwf, Freed]\<rparr>)"
proof -
  let ?s = "s\<lparr>asked := asked s + 4, log := log s @ [Allocated (length dnx), Opened fwf]\<rparr>"
  have "stage_ifwi dbuf fw ?s = (Ret (0, True), ?s\<lparr>asked := asked ?s + 5, log := log ?s @
    [Allocated (length fw), Opened DEVICE_NAME, System ''sync'', Ioctl_update (request dbuf fbuf len),
     Closed DEVICE_NAME, Freed]\<rparr>)"
    using s b fbuf u by (intro steady_stage_ifwi) (simp_all add: add_ac)
  then show ?thesis
    using d steady_next [OF s] s f
    by (simp add: stage_dnx_def bnd_def next_outcome_def steady_steps steady_open_file emit_def ret_def
      dbuf numeral_eq_Suc)
qed

lemma ifwi_update_run:
  assumes "steady s" and "checksufix dnxf = 0" and "checksufix fwf = 0"
    and "fs s DEV_LIST = Some devices" and "find_line (getlines [] devices) MISC_DEV = Some major"
    and "fs s MISC_LIST = Some misc" and "find_line (getlines [] misc) IPC_DEV = Some minor"
    and "fs s dnxf = Some dnx" and "fs s fwf = Some fw"
    and "0 < length dnx" "length dnx \<le> DNX_SIZE" "0 < length fw" "length fw \<le> IFWI_SIZE"
    and "dbuf = filled s (asked s + 6) dnx" and "fbuf = filled s (asked s + 10) fw"
    and "find (fuph_stop fbuf) fuph_lens = Some len" "len \<le> length fbuf"
  shows "ifwi_update_main [prog, dnxf, fwf] s = (Ret 0, s\<lparr>asked := asked s + 13, log := log s @
    [Opened DEV_LIST, Closed DEV_LIST, Opened MISC_LIST, Closed MISC_LIST, Unlinked DEVICE_NAME,
     Node DEVICE_NAME major minor, Opened dnxf, Allocated (length dnx), Opened fwf, Allocated (length fw),
     Opened DEVICE_NAME, System ''sync'', Ioctl_update (request dbuf fbuf len), Closed DEVICE_NAME,
     Freed, Closed fwf, Freed, Closed dnxf, System ''sync'', System ''reboot -f'']\<rparr>)"
proof -
  let ?es = "[Opened DEV_LIST, Closed DEV_LIST, Opened MISC_LIST, Closed MISC_LIST, Unlinked DEVICE_NAME,
     Node DEVICE_NAME major minor, Opened dnxf]"
  let ?s = "s\<lparr>asked := asked s + 4, log := log s @ ?es\<rparr>"
  have "stage_dnx fwf dnx ?s = (Ret (0, True), ?s\<lparr>asked := asked ?s + 9, log := log ?s @
    [Allocated (length dnx), Opened fwf, Allocated (length fw), Opened DEVICE_NAME, System ''sync'',
     Ioctl_update (request dbuf fbuf len), Closed DEVICE_NAME, Freed, Closed fwf, Freed]\<rparr>)"
    using assms by (intro steady_stage_dnx) (simp_all add: add_ac)
  then show ?thesis
    using assms(1-9) steady_next [of "s\<lparr>asked := asked s + 2\<rparr>"]
    by (simp add: ifwi_update_main_def stage_node_def stage_files_def bnd_def next_outcome_def steady_device
      steady_open_file emit_def ret_def finish_def numeral_eq_Suc)
qed

text \<open>
  C17: a run in which no call fails hands the driver one request with both images, their sizes, the DnX header and the length of the
  update header, reboots and returns 0. The images are what \<open>read\<close> delivered: the program does not notice a short transfer, and the driver
  then receives an image whose tail is zero.
\<close>

theorem ifwi_update_request:
  assumes "steady s" and "checksufix dnxf = 0" and "checksufix fwf = 0"
    and "fs s DEV_LIST = Some devices" and "find_line (getlines [] devices) MISC_DEV = Some major"
    and "fs s MISC_LIST = Some misc" and "find_line (getlines [] misc) IPC_DEV = Some minor"
    and "fs s dnxf = Some dnx" and "fs s fwf = Some fw"
    and "0 < length dnx" "length dnx \<le> DNX_SIZE" "0 < length fw" "length fw \<le> IFWI_SIZE"
    and "dbuf = filled s (asked s + 6) dnx" and "fbuf = filled s (asked s + 10) fw"
    and "find (fuph_stop fbuf) fuph_lens = Some len" "len \<le> length fbuf"
  shows "ifwi_update_main [prog, dnxf, fwf] s = (Ret 0, s\<lparr>asked := asked s + 13, log := log s @
    [Opened DEV_LIST, Closed DEV_LIST, Opened MISC_LIST, Closed MISC_LIST, Unlinked DEVICE_NAME,
     Node DEVICE_NAME major minor, Opened dnxf, Allocated (length dnx), Opened fwf, Allocated (length fw),
     Opened DEVICE_NAME, System ''sync'', Ioctl_update (request dbuf fbuf len), Closed DEVICE_NAME,
     Freed, Closed fwf, Freed, Closed dnxf, System ''sync'', System ''reboot -f'']\<rparr>)"
  by (rule ifwi_update_run [OF assms])

text \<open>
  C18: the search for the update header. It looks at the offsets 8, 12, ..., 44 from the end of the file, in this
  order, and reports the first one at which \<open>UPH$\<close> stands; when an offset lies before the start of the file the search reads
  outside the buffer, so a file shorter than 44 bytes without the signature is a fault. It always ends.
\<close>

theorem find_fuph_header_len_search:
  "find_fuph_header_len data s =
    (if data = [] then Ret None
     else case find (fuph_stop data) fuph_lens of
       None \<Rightarrow> Ret None
     | Some len \<Rightarrow> if length data < len then Fault OutOfBounds else Ret (Some len), s)"
  by (rule find_fuph_run)

text \<open>
  The device number. The file is cut into lines at its newlines, without loss, and the number at the start of
  the first line that contains the device name is the answer; the file is closed again.
\<close>

lemma find_device_id_first_line:
  assumes "steady s" and "fs s proc_file = Some bs"
  shows "concat (getlines [] bs) = bs \<and> (\<forall>l\<in>set (getlines [] bs). l \<noteq> [] \<and> 10 \<notin> set (butlast l))
    \<and> find_device_id proc_file dev_name s =
      (Ret (case dropWhile (\<lambda>l. \<not> strstr (cstr l) dev_name) (getlines [] bs) of
          [] \<Rightarrow> None | l # _ \<Rightarrow> sscanf_d (cstr l)),
       s\<lparr>asked := Suc (asked s), log := log s @ [Opened proc_file, Closed proc_file]\<rparr>)"
  using assms getlines_line [of "[]" _ bs]
  by (simp add: getlines_concat find_device_id_def bnd_def steady_open_file emit_def ret_def find_line_first)

subsection \<open>A concrete run\<close>

text \<open>The bytes of \<open>"10 misc\n"\<close> and \<open>"59 mid_ipc\n"\<close>, a DnX image of three bytes, and a firmware image of 44 bytes.\<close>

definition sample_devices :: "byte list" where
  "sample_devices = [0x31, 0x30, 0x20, 0x6D, 0x69, 0x73, 0x63, 0x0A]"

definition sample_misc :: "byte list" where
  "sample_misc = [0x35, 0x39, 0x20, 0x6D, 0x69, 0x64, 0x5F, 0x69, 0x70, 0x63, 0x0A]"

definition sample_ifwi :: "byte list" where
  "sample_ifwi = replicate 20 7 @ FUPH_STR @ replicate 20 9"

definition sample_sys :: sys where
  "sample_sys = \<lparr>fs = (\<lambda>p. if p = ''/proc/devices'' then Some sample_devices else if p = ''/proc/misc'' then Some sample_misc
     else if p = ''dnx.bin'' then Some [1, 2, 3] else if p = ''ifwi.bin'' then Some sample_ifwi else None),
     outcomes = (\<lambda>n. if n = 10 then Short 30 else Ok), asked = 0, log = []\<rparr>"

lemma sample_sys_simps [simp]:
  "steady sample_sys" "fs sample_sys DEV_LIST = Some sample_devices" "fs sample_sys MISC_LIST = Some sample_misc"
  "fs sample_sys ''dnx.bin'' = Some [1, 2, 3]" "fs sample_sys ''ifwi.bin'' = Some sample_ifwi"
  "asked sample_sys = 0" "log sample_sys = []"
  by (simp_all add: sample_sys_def steady_def DEV_LIST_def MISC_LIST_def)

lemma sample_sys_facts:
  "checksufix ''dnx.bin'' = 0" "checksufix ''ifwi.bin'' = 0"
  "find_line (getlines [] sample_devices) MISC_DEV = Some 10"
  "find_line (getlines [] sample_misc) IPC_DEV = Some 59"
  "0 < length [1, 2, 3 :: byte]" "length [1, 2, 3 :: byte] \<le> DNX_SIZE"
  "0 < length sample_ifwi" "length sample_ifwi \<le> IFWI_SIZE" "length sample_ifwi = 44"
  "filled sample_sys 6 [1, 2, 3] = [1, 2, 3]"
  "filled sample_sys 10 sample_ifwi = replicate 20 7 @ FUPH_STR @ replicate 6 9 @ replicate 14 0"
  "find (fuph_stop (replicate 20 7 @ FUPH_STR @ replicate 6 9 @ replicate 14 0)) fuph_lens = Some 24"
  "24 \<le> length (replicate 20 7 @ FUPH_STR @ replicate 6 9 @ replicate 14 0)"
proof -
  show l: "length sample_ifwi = 44" by code_simp
  show "length sample_ifwi \<le> IFWI_SIZE" "0 < length sample_ifwi" "length [1, 2, 3 :: byte] \<le> DNX_SIZE"
    by (simp_all add: l IFWI_SIZE_def DNX_SIZE_def)
qed (code_simp+)

lemma sample_bufs:
  "[1, 2, 3] = filled sample_sys (asked sample_sys + 6) [1, 2, 3]"
  "replicate 20 7 @ FUPH_STR @ replicate 6 9 @ replicate 14 0 = filled sample_sys (asked sample_sys + 10) sample_ifwi"
  using sample_sys_facts(10,11) by simp_all

lemmas sample_hyps = sample_sys_simps(1) sample_sys_facts(1,2) sample_sys_simps(2) sample_sys_facts(3)
  sample_sys_simps(3) sample_sys_facts(4) sample_sys_simps(4,5) sample_sys_facts(5-8) sample_bufs sample_sys_facts(12,13)

theorem ifwi_update_request_witness:
  "ifwi_update_main [''ifwi-update'', ''dnx.bin'', ''ifwi.bin''] sample_sys = (Ret 0, sample_sys\<lparr>asked := 13, log :=
    [Opened DEV_LIST, Closed DEV_LIST, Opened MISC_LIST, Closed MISC_LIST, Unlinked DEVICE_NAME,
     Node DEVICE_NAME 10 59, Opened ''dnx.bin'', Allocated 3, Opened ''ifwi.bin'', Allocated 44,
     Opened DEVICE_NAME, System ''sync'',
     Ioctl_update (request [1, 2, 3] (replicate 20 7 @ FUPH_STR @ replicate 6 9 @ replicate 14 0) 24),
     Closed DEVICE_NAME, Freed, Closed ''ifwi.bin'', Freed, Closed ''dnx.bin'', System ''sync'', System ''reboot -f'']\<rparr>)"
  using ifwi_update_request [OF sample_hyps, of "''ifwi-update''"]
  by (simp add: sample_sys_facts(9) numeral_3_eq_3)

theorem ifwi_update_contract_witness:
  "\<exists>es. opens es = 0 \<and> allocs es = 0 \<and> (\<forall>u\<in>set (requests es). request_ok u)
    \<and> (System ''reboot -f'' \<in> set es \<longleftrightarrow> requests es \<noteq> [])
    \<and> log (snd (ifwi_update_main [''ifwi-update'', ''dnx.bin'', ''ifwi.bin''] sample_sys)) = es"
proof -
  let ?run = "ifwi_update_main [''ifwi-update'', ''dnx.bin'', ''ifwi.bin''] sample_sys"
  have "?run = (Ret 0, snd ?run)"
    using ifwi_update_run [OF sample_hyps, of "''ifwi-update''"] by simp
  from ifwi_update_contract [OF this] show ?thesis by auto
qed

end
