(* ===== verification/Loadfw.thy ===== *)
theory Loadfw
  imports Ifwi_Update
begin

text \<open>
  \<^verbatim>\<open>loadfw/loadfw.c\<close>: hands a firmware image of a fixed size to the IPC driver. Every error path
  releases what it holds and exits with status 1.
\<close>

definition FW_BIN_FILE_SIZE :: nat where "FW_BIN_FILE_SIZE = 258 * 1024"

text \<open>\<open>fread\<close> of the whole file: the bytes, or \<open>None\<close> when fewer than requested arrive.\<close>

definition fread_all :: "byte list \<Rightarrow> byte list option fw" where
  "fread_all bs = bnd next_outcome (\<lambda>out.
     if out = Fail \<or> transfer out (length bs) < length bs then ret None else ret (Some bs))"

text \<open>The part of \<open>main\<close> after the arguments have been checked.\<close>

definition load_image :: "string \<Rightarrow> unit fw" where
  "load_image fwBinFile = bnd (open_file fwBinFile) (\<lambda>fwp. case fwp of
       None \<Rightarrow> exit_with 1
     | Some bs \<Rightarrow> bnd next_outcome (\<lambda>stat.
         if stat = Fail then bnd (emit (Closed fwBinFile)) (\<lambda>_. exit_with 1)
         else if length bs \<noteq> FW_BIN_FILE_SIZE then bnd (emit (Closed fwBinFile)) (\<lambda>_. exit_with 1)
         else bnd (calloc (length bs)) (\<lambda>mem.
           if \<not> mem then bnd (emit (Closed fwBinFile)) (\<lambda>_. exit_with 1)
           else bnd (fread_all bs) (\<lambda>r. case r of
               None \<Rightarrow> bnd (emit Freed) (\<lambda>_. bnd (emit (Closed fwBinFile)) (\<lambda>_. exit_with 1))
             | Some fwData \<Rightarrow> bnd (open_node DEVICE_NAME) (\<lambda>devfd.
                 if \<not> devfd then bnd (emit Freed) (\<lambda>_. bnd (emit (Closed fwBinFile)) (\<lambda>_. exit_with 1))
                 else bnd (emit (Ioctl_upgrade fwData)) (\<lambda>_.
                      bnd next_outcome (\<lambda>errNo.
                      bnd (emit Freed) (\<lambda>_. bnd (emit (Closed fwBinFile)) (\<lambda>_.
                      bnd (emit (Closed DEVICE_NAME)) (\<lambda>_. exit_with 0))))))))))"

definition loadfw_main :: "int \<Rightarrow> string list \<Rightarrow> unit fw" where
  "loadfw_main uid argv =
     (if uid \<noteq> 0 then exit_with 1
      else if length argv \<noteq> 2 then exit_with 1
      else (case strrchr (argv ! 1) CHR ''.'' of
          None \<Rightarrow> exit_with 1
        | Some tempPtr \<Rightarrow>
            if \<not> strncmp_eq tempPtr ''.bin'' (length ''.bin'') then exit_with 1
            else load_image (argv ! 1)))"

subsection \<open>Properties\<close>

text \<open>The images the driver was given.\<close>

fun upgrades :: "event list \<Rightarrow> byte list list" where
  "upgrades [] = []"
| "upgrades (e # es) = (case e of Ioctl_upgrade bs \<Rightarrow> bs # upgrades es | _ \<Rightarrow> upgrades es)"

lemma upgrades_append [simp]: "upgrades (a @ b) = upgrades a @ upgrades b"
  by (induction a) (simp_all split: event.split)

definition load_ok :: "byte list option \<Rightarrow> int \<Rightarrow> event list \<Rightarrow> bool" where
  "load_ok file code es \<longleftrightarrow> opens es = 0 \<and> allocs es = 0
     \<and> (if code = 0 then \<exists>bs. file = Some bs \<and> length bs = FW_BIN_FILE_SIZE \<and> upgrades es = [bs]
        else code = 1 \<and> upgrades es = [])"

text \<open>The run of \<open>load_image\<close>, as a function of the answers to its calls.\<close>

definition load_events :: "string \<Rightarrow> byte list option \<Rightarrow> (nat \<Rightarrow> outcome) \<Rightarrow> int \<times> nat \<times> event list" where
  "load_events path file out =
     (case file of None \<Rightarrow> (1, 1, []) | Some bs \<Rightarrow>
      if out 0 = Fail then (1, 1, [])
      else if out 1 = Fail \<or> length bs \<noteq> FW_BIN_FILE_SIZE then (1, 2, [Opened path, Closed path])
      else if out 2 = Fail then (1, 3, [Opened path, Closed path])
      else if out 3 = Fail \<or> transfer (out 3) (length bs) < length bs
      then (1, 4, [Opened path, Allocated (length bs), Freed, Closed path])
      else if out 4 = Fail then (1, 5, [Opened path, Allocated (length bs), Freed, Closed path])
      else (0, 6, [Opened path, Allocated (length bs), Opened DEVICE_NAME, Ioctl_upgrade bs, Freed, Closed path,
        Closed DEVICE_NAME]))"

lemma load_image_run:
  "load_image path s = (case load_events path (fs s path) (\<lambda>n. outcomes s (asked s + n)) of
    (code, n, es) \<Rightarrow> (Exit code, s\<lparr>asked := asked s + n, log := log s @ es\<rparr>))"
  by (cases "outcomes s (asked s)"; cases "fs s path")
    (simp_all add: load_image_def load_events_def open_file_def open_node_def calloc_def fread_all_def
      bnd_def next_outcome_def emit_def ret_def exit_with_def numeral_eq_Suc)


lemma load_events_ok:
  "load_events path file out = (code, n, es) \<Longrightarrow> load_ok file code es"
  by (auto simp: load_events_def load_ok_def split: option.splits if_splits)

lemma load_events_ioctl:
  "(\<And>i. i \<noteq> 5 \<Longrightarrow> out i = out' i) \<Longrightarrow> load_events path file out = load_events path file out'"
  by (simp add: load_events_def split: option.split)

text \<open>
  C19: \<open>loadfw\<close> always exits, with 0 or 1, and has then closed and freed all it acquired, whatever the calls answer. Status 0
  means that the driver was given exactly the file, which has exactly 258 KiB; with status 1 the driver was given nothing.
\<close>

theorem loadfw_exits:
  "\<exists>code s' es. loadfw_main uid argv s = (Exit code, s') \<and> log s' = log s @ es
    \<and> opens es = 0 \<and> allocs es = 0 \<and> code \<in> {0, 1}
    \<and> (if code = 0 then upgrades es = [the (fs s (argv ! 1))] \<and> length (the (fs s (argv ! 1))) = FW_BIN_FILE_SIZE
       else upgrades es = [])"
proof -
  have refuse: "\<exists>code s' es. (Exit 1, s) = (Exit code, s') \<and> log s' = log s @ es \<and> load_ok f code es" for f
    by (intro exI [of _ 1] exI [of _ s] exI [of _ "[]"]) (simp add: load_ok_def)
  have load: "\<exists>code s' es. load_image p s = (Exit code, s') \<and> log s' = log s @ es \<and> load_ok (fs s p) code es" for p
    using load_events_ok [of p "fs s p"] by (simp add: load_image_run split: prod.split)
  have "\<exists>code s' es. loadfw_main uid argv s = (Exit code, s') \<and> log s' = log s @ es \<and> load_ok (fs s (argv ! 1)) code es"
    using refuse load unfolding loadfw_main_def exit_with_def by (simp split: option.split)
  then show ?thesis
    unfolding load_ok_def by (elim exE conjE) (auto split: if_splits)
qed

text \<open>
  The answer of the driver does not reach the caller: replacing the result of the \<open>ioctl\<close>, the sixth call of the program, by any
  other changes neither the exit status nor the effects, so a failed upgrade exits with 0 too.
\<close>

lemma loadfw_ignores_driver:
  "fst (loadfw_main uid argv (s\<lparr>outcomes := (outcomes s)(asked s + 5 := answer)\<rparr>)) = fst (loadfw_main uid argv s)
    \<and> log (snd (loadfw_main uid argv (s\<lparr>outcomes := (outcomes s)(asked s + 5 := answer)\<rparr>))) = log (snd (loadfw_main uid argv s))"
proof -
  have "load_events p f (\<lambda>n. ((outcomes s)(asked s + 5 := answer)) (asked s + n)) =
      load_events p f (\<lambda>n. outcomes s (asked s + n))" for p f
    by (rule load_events_ioctl) simp
  then show ?thesis
    by (simp add: loadfw_main_def load_image_run exit_with_def split: option.split prod.split)
qed

text \<open>
  The two suffix tests differ. \<open>loadfw\<close> loads every file whose last dot is followed by \<open>bin\<close>
  and anything else, and exits with 1 for other names; \<open>ifwi-update\<close> accepts only names that end in \<open>.bin\<close>.
\<close>

lemma suffix_tests:
  assumes "CHR 0x00 \<notin> set name"
  shows "(checksufix name = 0 \<longleftrightarrow> (\<exists>stem. name = stem @ ''.bin''))
    \<and> loadfw_main 0 [prog, name] =
        (if \<exists>stem rest. name = stem @ ''.bin'' @ rest \<and> CHR ''.'' \<notin> set rest then load_image name else exit_with 1)"
proof -
  have "strcmp r ''.bin'' = 0 \<longleftrightarrow> r = ''.bin''" if "strrchr name CHR ''.'' = Some r" for r
    using that assms by (intro strcmp_0) (auto simp: strrchr_Some)
  then have "checksufix name = 0 \<longleftrightarrow> strrchr name CHR ''.'' = Some ''.bin''"
    by (auto simp: checksufix_def split: option.split)
  also have "\<dots> \<longleftrightarrow> (\<exists>stem. name = stem @ ''.bin'')" by (simp add: strrchr_Some)
  finally have exact: "checksufix name = 0 \<longleftrightarrow> (\<exists>stem. name = stem @ ''.bin'')" .
  have bin: "strncmp_eq (CHR ''.'' # b) ''.bin'' 4 \<longleftrightarrow> (\<exists>rest. b = ''bin'' @ rest)" for b
    by (cases b; cases "tl b"; cases "tl (tl b)") (auto simp: strncmp_eq_def)
  have "(\<exists>p. strrchr name CHR ''.'' = Some p \<and> strncmp_eq p ''.bin'' 4) \<longleftrightarrow>
      (\<exists>stem b. name = stem @ CHR ''.'' # b \<and> CHR ''.'' \<notin> set b \<and> strncmp_eq (CHR ''.'' # b) ''.bin'' 4)"
    unfolding strrchr_Some by blast
  also have "\<dots> \<longleftrightarrow> (\<exists>stem rest. name = stem @ ''.bin'' @ rest \<and> CHR ''.'' \<notin> set rest)"
    unfolding bin by force
  finally have prefix: "(\<exists>p. strrchr name CHR ''.'' = Some p \<and> strncmp_eq p ''.bin'' 4) \<longleftrightarrow>
      (\<exists>stem rest. name = stem @ ''.bin'' @ rest \<and> CHR ''.'' \<notin> set rest)" .
  have "loadfw_main 0 [prog, name] =
      (if \<exists>p. strrchr name CHR ''.'' = Some p \<and> strncmp_eq p ''.bin'' 4 then load_image name else exit_with 1)"
    by (simp add: loadfw_main_def eval_nat_numeral split: option.split)
  with exact prefix show ?thesis by (simp only:)
qed

end
