(* ===== verification/Expr.thy ===== *)
theory Expr
  imports CString
begin

text \<open>
  \<^verbatim>\<open>busybox/coreutils/expr.c\<close>: the \<open>expr\<close> applet, which the disk scripts use for their size
  arithmetic. The code evaluates while it parses, one function per precedence level; each level
  below \<open>eval\<close> takes the function of the next level as an argument, and \<open>eval_fuel\<close> ties the knot. The regular
  expression matcher belongs to the C library and is a parameter.
\<close>

subsection \<open>Values\<close>

datatype VALUE = INTEGER int | STRING string

datatype expr_error = Syntax | NonNumeric | DivisionByZero | BadPattern | TooFewArguments | Trap | OutOfFuel

type_synonym 'a res = "expr_error + 'a"

text \<open>
  The answer of \<open>regcomp\<close> and \<open>regexec\<close> for a pattern and a subject: the number of groups, the span of the
  match and the span of the first group; \<open>None\<close> when the pattern does not compile.
\<close>

record match =
  re_nsub :: nat
  rm_whole :: "(nat \<times> nat) option"
  rm_group :: "(nat \<times> nat) option"

type_synonym matcher = "string \<Rightarrow> string \<Rightarrow> match option"

fun null :: "VALUE \<Rightarrow> bool" where
  "null (INTEGER i) = (i = 0)"
| "null (STRING s) = (s = [] \<or> s = ''0'')"

fun tostring :: "VALUE \<Rightarrow> string" where
  "tostring (INTEGER i) = show_int i"
| "tostring (STRING s) = s"

fun toarith :: "VALUE \<Rightarrow> int option" where
  "toarith (INTEGER i) = Some i"
| "toarith (STRING s) = (case strtol10 s of
       None \<Rightarrow> None
     | Some (i, e) \<Rightarrow> if e \<noteq> [] then None else Some (clamp64 i))"

text \<open>The value after \<open>toarith\<close>, which leaves a string that is not a number as it is.\<close>

definition coerce :: "VALUE \<Rightarrow> VALUE" where
  "coerce v = (case toarith v of None \<Rightarrow> v | Some i \<Rightarrow> INTEGER i)"

definition nextarg :: "string list \<Rightarrow> string \<Rightarrow> nat" where
  "nextarg args str = (case args of
       [] \<Rightarrow> 0
     | a # _ \<Rightarrow> if a \<noteq> str then 0
         else of_char (str ! 0) + (if 1 < length str then of_char (str ! 1) else 0))"

subsection \<open>Operators\<close>

definition cmp_common :: "VALUE \<Rightarrow> VALUE \<Rightarrow> nat \<Rightarrow> bool" where
  "cmp_common l r op =
     (let (ll, rr) = (case (l, r) of
          (INTEGER i, INTEGER j) \<Rightarrow> (i, j)
        | _ \<Rightarrow> (strcmp (tostring l) (tostring r), 0))
      in if op = of_char CHR ''<'' then ll < rr
         else if op = of_char CHR ''<'' + of_char CHR ''='' then ll \<le> rr
         else if op = of_char CHR ''='' \<or> op = of_char CHR ''='' + of_char CHR ''='' then ll = rr
         else if op = of_char CHR ''!'' + of_char CHR ''='' then ll \<noteq> rr
         else if op = of_char CHR ''>'' then ll > rr
         else ll \<ge> rr)"

text \<open>
  Arithmetic on 64-bit integers. The quotient of the smallest integer by -1 does not fit and the division instruction
  traps; the remainder is computed by the same instruction.
\<close>

definition arithmetic_common :: "VALUE \<Rightarrow> VALUE \<Rightarrow> nat \<Rightarrow> int res" where
  "arithmetic_common l r op = (case (toarith l, toarith r) of
       (Some li, Some ri) \<Rightarrow>
         if op = of_char CHR ''+'' then Inr (wrap64 (li + ri))
         else if op = of_char CHR ''-'' then Inr (wrap64 (li - ri))
         else if op = of_char CHR ''*'' then Inr (wrap64 (li * ri))
         else if ri = 0 then Inl DivisionByZero
         else if li = - (2 ^ 63) \<and> ri = -1 then Inl Trap
         else if op = of_char CHR ''/'' then Inr (tdiv li ri)
         else Inr (tmod li ri)
     | _ \<Rightarrow> Inl NonNumeric)"

definition docolon :: "matcher \<Rightarrow> VALUE \<Rightarrow> VALUE \<Rightarrow> VALUE res" where
  "docolon re sv pv = (case re (tostring pv) (tostring sv) of
       None \<Rightarrow> Inl BadPattern
     | Some m \<Rightarrow> Inr (case rm_whole m of
           Some (0, eo) \<Rightarrow> (case (0 < re_nsub m, rm_group m) of
               (True, Some (so1, eo1)) \<Rightarrow> STRING (drop so1 (take eo1 (tostring sv)))
             | _ \<Rightarrow> INTEGER (int eo))
         | _ \<Rightarrow> if 0 < re_nsub m then STRING [] else INTEGER 0))"

text \<open>\<open>xstrndup\<close> of \<open>libbb\<close>: its count is an \<open>int\<close>; a negative one does not stop the copy.\<close>

fun xstrndup :: "string \<Rightarrow> int \<Rightarrow> string" where
  "xstrndup [] n = []"
| "xstrndup (c # cs) n = (if n = 0 then [] else c # xstrndup cs (n - 1))"

definition to_int32 :: "int \<Rightarrow> int" where
  "to_int32 v = (v + 2 ^ 31) mod 2 ^ 32 - 2 ^ 31"

definition substr :: "VALUE \<Rightarrow> VALUE \<Rightarrow> VALUE \<Rightarrow> VALUE" where
  "substr l i1 i2 = (case (toarith i1, toarith i2) of
       (Some p, Some n) \<Rightarrow>
         if int (length (tostring l)) < p \<or> p \<le> 0 \<or> n \<le> 0 then STRING []
         else STRING (xstrndup (drop (nat (p - 1)) (tostring l)) (to_int32 n))
     | _ \<Rightarrow> STRING [])"

definition strcspn :: "string \<Rightarrow> string \<Rightarrow> nat" where
  "strcspn s reject = length (takeWhile (\<lambda>c. c \<notin> set reject) s)"

definition index_of :: "VALUE \<Rightarrow> VALUE \<Rightarrow> VALUE" where
  "index_of l r = (let i = strcspn (tostring l) (tostring r) + 1 in
     INTEGER (if i = length (tostring l) + 1 then 0 else int i))"

subsection \<open>Levels\<close>

type_synonym parser = "string list \<Rightarrow> (VALUE \<times> string list) res"

text \<open>The operator that the next argument is, tried in the order of the code; 0 when it is none of them.\<close>

fun first_op :: "string list \<Rightarrow> string list \<Rightarrow> nat" where
  "first_op args [] = 0"
| "first_op args (s # ss) = (let op = nextarg args s in if op \<noteq> 0 then op else first_op args ss)"

text \<open>
  The loop of a level: while the next argument is one of its operators, read an operand of the next level and combine. The count is
  a bound on the operators left.
\<close>

primrec level_loop :: "nat \<Rightarrow> string list \<Rightarrow> (nat \<Rightarrow> VALUE \<Rightarrow> VALUE \<Rightarrow> VALUE res) \<Rightarrow> parser \<Rightarrow> VALUE \<Rightarrow> parser" where
  "level_loop 0 ops f next l args = (if first_op args ops = 0 then Inr (l, args) else Inl OutOfFuel)"
| "level_loop (Suc n) ops f next l args =
     (let op = first_op args ops in
      if op = 0 then Inr (l, args)
      else rbind (next (tl args)) (\<lambda>(r, rest). rbind (f op l r) (\<lambda>v. level_loop n ops f next v rest)))"

definition level :: "string list \<Rightarrow> (nat \<Rightarrow> VALUE \<Rightarrow> VALUE \<Rightarrow> VALUE res) \<Rightarrow> parser \<Rightarrow> parser" where
  "level ops f next args = rbind (next args) (\<lambda>(l, rest). level_loop (length rest) ops f next l rest)"

definition eval7 :: "parser \<Rightarrow> parser" where
  "eval7 ev args = (case args of
       [] \<Rightarrow> Inl Syntax
     | a # rest \<Rightarrow>
         if nextarg args ''('' \<noteq> 0 then
           rbind (ev rest) (\<lambda>(v, rest). if nextarg rest '')'' = 0 then Inl Syntax else Inr (v, tl rest))
         else if nextarg args '')'' \<noteq> 0 then Inl Syntax
         else Inr (STRING a, rest))"

definition expr_keywords :: "string list" where
  "expr_keywords = [''quote'', ''length'', ''match'', ''index'', ''substr'']"

fun index_in_strings :: "string list \<Rightarrow> string \<Rightarrow> int" where
  "index_in_strings [] key = -1"
| "index_in_strings (s # ss) key = (if s = key then 0 else
     (let i = index_in_strings ss key in if i < 0 then -1 else i + 1))"

definition keyword :: "string list \<Rightarrow> int" where
  "keyword args = (case args of [] \<Rightarrow> 0 | a # _ \<Rightarrow> index_in_strings expr_keywords a + 1)"

fun eval6 :: "matcher \<Rightarrow> parser \<Rightarrow> nat \<Rightarrow> parser" where
  "eval6 re ev 0 args = (if keyword args = 0 then eval7 ev args else Inl OutOfFuel)"
| "eval6 re ev (Suc n) args =
     (let key = keyword args in
      if key = 0 then eval7 ev args
      else if key = 1 then (case tl args of [] \<Rightarrow> Inl Syntax | a # rest \<Rightarrow> Inr (STRING a, rest))
      else rbind (eval6 re ev n (tl args)) (\<lambda>(l, rest).
        if key = 2 then Inr (INTEGER (int (length (tostring l))), rest)
        else rbind (eval6 re ev n rest) (\<lambda>(r, rest).
          if key = 3 then rbind (docolon re l r) (\<lambda>v. Inr (v, rest))
          else if key = 4 then Inr (index_of l r, rest)
          else rbind (eval6 re ev n rest) (\<lambda>(i2, rest). Inr (substr l r i2, rest)))))"

definition eval5 :: "matcher \<Rightarrow> parser \<Rightarrow> parser" where
  "eval5 re = level ['':''] (\<lambda>_. docolon re)"

definition arith_op :: "nat \<Rightarrow> VALUE \<Rightarrow> VALUE \<Rightarrow> VALUE res" where
  "arith_op op l r = rbind (arithmetic_common l r op) (\<lambda>val. Inr (INTEGER val))"

definition eval4 :: "parser \<Rightarrow> parser" where
  "eval4 = level [''*'', ''/'', ''%''] arith_op"

definition eval3 :: "parser \<Rightarrow> parser" where
  "eval3 = level [''+'', ''-''] arith_op"

definition cmp_op :: "nat \<Rightarrow> VALUE \<Rightarrow> VALUE \<Rightarrow> VALUE res" where
  "cmp_op op l r = Inr (INTEGER (if cmp_common (coerce l) (coerce r) op then 1 else 0))"

definition eval2 :: "parser \<Rightarrow> parser" where
  "eval2 = level [''<'', ''<='', ''='', ''=='', ''!='', ''>='', ''>''] cmp_op"

definition and_op :: "nat \<Rightarrow> VALUE \<Rightarrow> VALUE \<Rightarrow> VALUE res" where
  "and_op _ l r = Inr (if null l \<or> null r then INTEGER 0 else l)"

definition eval1 :: "parser \<Rightarrow> parser" where
  "eval1 = level [''&''] and_op"

definition or_op :: "nat \<Rightarrow> VALUE \<Rightarrow> VALUE \<Rightarrow> VALUE res" where
  "or_op _ l r = Inr (if null l then r else l)"

definition eval_or :: "parser \<Rightarrow> parser" where
  "eval_or = level [''|''] or_op"

fun eval_fuel :: "matcher \<Rightarrow> nat \<Rightarrow> parser" where
  "eval_fuel re 0 args = Inl OutOfFuel"
| "eval_fuel re (Suc n) args =
     eval_or (eval1 (eval2 (eval3 (eval4 (eval5 re (eval6 re (eval_fuel re n) n)))))) args"

definition eval :: "matcher \<Rightarrow> parser" where
  "eval re args = eval_fuel re (Suc (length args)) args"

text \<open>The line the program prints and its exit status; every error but the trap exits with status 2.\<close>

definition expr_main :: "matcher \<Rightarrow> string list \<Rightarrow> (string \<times> int) res" where
  "expr_main re args =
     (if args = [] then Inl TooFewArguments
      else rbind (eval re args) (\<lambda>(v, rest).
        if rest \<noteq> [] then Inl Syntax
        else Inr (tostring v @ [CHR 0x0A], if null v then 1 else 0)))"

subsection \<open>Consumption and fuel\<close>

lemma first_op_Nil [simp]: "first_op [] ops = 0"
  by (induction ops) (simp_all add: nextarg_def)

lemma ops_total:
  "docolon re l r \<noteq> Inl OutOfFuel" "arith_op op l r \<noteq> Inl OutOfFuel" "cmp_op op l r \<noteq> Inl OutOfFuel"
  "and_op op l r \<noteq> Inl OutOfFuel" "or_op op l r \<noteq> Inl OutOfFuel"
  by (auto simp: docolon_def arith_op_def arithmetic_common_def cmp_op_def and_op_def or_op_def rbind_Inl
    split: option.splits if_splits)

definition fueled :: "'a res \<Rightarrow> bool" where
  "fueled r \<longleftrightarrow> r \<noteq> Inl OutOfFuel"

lemma fueled_Inr: "fueled (Inr x)" and fueled_Syntax: "fueled (Inl Syntax)"
  by (simp_all add: fueled_def)

lemma fueled_if: "fueled a \<Longrightarrow> fueled b \<Longrightarrow> fueled (if c then a else b)"
  by simp

lemma keyword_0_Nil [simp]: "keyword [] = 0"
  by (simp add: keyword_def)

text \<open>What a level relies on: the function of the next level consumes at least one argument.\<close>

locale shrinking =
  fixes p :: parser
  assumes shrinks: "p args = Inr (v, rest) \<Longrightarrow> length rest < length args"
begin

lemma loop_shrinks: "level_loop k ops f p l args = Inr (v, rest) \<Longrightarrow> length rest \<le> length args"
proof (induction k arbitrary: l args)
  case (Suc k)
  then show ?case by (cases args) (auto simp: Let_def rbind_Inr split: if_splits dest!: shrinks Suc.IH)
qed (auto split: if_splits)

lemma loop_fuel:
  "length args \<le> k \<Longrightarrow> length args \<le> k' \<Longrightarrow> level_loop k ops f p l args = level_loop k' ops f p l args"
proof (induction k arbitrary: k' l args)
  case 0
  then show ?case by (cases k') (simp_all add: Let_def)
next
  case (Suc k)
  show ?case
  proof (cases "first_op args ops = 0")
    case True
    then show ?thesis by (cases k') (simp_all add: Let_def)
  next
    case False
    then obtain a as where args: "args = a # as" by (cases args) auto
    with Suc.prems obtain j where k': "k' = Suc j" by (cases k') auto
    have "level_loop k ops f p v rest = level_loop j ops f p v rest" if "p as = Inr (r, rest)" for r rest v
      using Suc.IH [of rest j v] shrinks [OF that] Suc.prems args k' by simp
    with False args k' show ?thesis by (auto simp: Let_def rbind_def split: sum.split)
  qed
qed

lemma level_shrinks: "level ops f p args = Inr (v, rest) \<Longrightarrow> length rest < length args"
  using shrinks loop_shrinks by (fastforce simp: level_def rbind_Inr)

text \<open>Two functions of the next level that agree on short argument lists give levels that do.\<close>

lemma loop_agree:
  "(\<And>as. length as \<le> m \<Longrightarrow> p as = q as) \<Longrightarrow> length args \<le> m \<Longrightarrow>
    level_loop k ops f p l args = level_loop k ops f q l args"
proof (induction k arbitrary: l args)
  case (Suc k)
  have "level_loop k ops f p v rest = level_loop k ops f q v rest" if "p (tl args) = Inr (r, rest)" for r rest v
  proof (rule Suc.IH [OF Suc.prems(1)])
    show "length rest \<le> m" using shrinks [OF that] Suc.prems(2) by simp
  qed
  moreover have "p (tl args) = q (tl args)" using Suc.prems by simp
  ultimately show ?case by (auto simp: Let_def rbind_def split: sum.split)
qed simp

lemma level_agree:
  assumes "\<And>as. length as \<le> m \<Longrightarrow> p as = q as" and "length args \<le> m"
  shows "level ops f p args = level ops f q args"
proof -
  have "level_loop (length rest) ops f p v rest = level_loop (length rest) ops f q v rest" if "p args = Inr (v, rest)" for v rest
    using shrinks [OF that] assms by (intro loop_agree) auto
  moreover have "p args = q args" using assms by simp
  ultimately show ?thesis by (auto simp: level_def rbind_def split: sum.split)
qed

lemma eval7_shrinks: "eval7 p args = Inr (v, rest) \<Longrightarrow> length rest < length args"
  using shrinks by (fastforce simp: eval7_def rbind_Inr split: list.splits if_splits)

lemma eval6_shrinks: "eval6 re p k args = Inr (v, rest) \<Longrightarrow> length rest < length args"
proof (induction k arbitrary: args v rest)
  case 0
  then show ?case by (auto split: if_splits dest: eval7_shrinks)
next
  case (Suc k)
  show ?case
  proof (cases "keyword args = 0")
    case True
    with Suc.prems show ?thesis by (auto simp: Let_def dest: eval7_shrinks)
  next
    case False
    then obtain a as where "args = a # as" by (cases args) auto
    with False Suc.prems show ?thesis
      by (fastforce simp: Let_def rbind_Inr split: if_splits list.splits dest!: Suc.IH)
  qed
qed

end

text \<open>In addition, on at most \<open>n\<close> arguments it does not run out of fuel.\<close>

locale consuming = shrinking +
  fixes n :: nat
  assumes enough: "length args \<le> n \<Longrightarrow> p args \<noteq> Inl OutOfFuel"
begin

lemma loop_enough:
  "length args \<le> k \<Longrightarrow> length args \<le> n \<Longrightarrow> (\<And>op l r. f op l r \<noteq> Inl OutOfFuel) \<Longrightarrow>
    level_loop k ops f p l args \<noteq> Inl OutOfFuel"
proof (induction k arbitrary: l args)
  case (Suc k)
  show ?case
  proof (cases "first_op args ops = 0")
    case False
    then obtain a as where args: "args = a # as" by (cases args) auto
    have "level_loop k ops f p v rest \<noteq> Inl OutOfFuel" if "p as = Inr (r, rest)" for r rest v
      using Suc.IH [of rest v] Suc.prems shrinks [OF that] args by simp
    with False args Suc.prems enough [of as] show ?thesis by (auto simp: Let_def rbind_Inl)
  qed simp
qed simp

lemma level_consuming:
  assumes "\<And>op l r. f op l r \<noteq> Inl OutOfFuel"
  shows "consuming (level ops f p) n"
proof
  show "length rest < length args" if "level ops f p args = Inr (v, rest)" for args v rest
    using that by (rule level_shrinks)
  show "level ops f p args \<noteq> Inl OutOfFuel" if "length args \<le> n" for args
    using that assms enough [of args] shrinks [of args] loop_enough [of _ _ f]
    by (fastforce simp: level_def rbind_Inl)
qed

lemma eval7_enough: "length args \<le> Suc n \<Longrightarrow> eval7 p args \<noteq> Inl OutOfFuel"
  using enough by (auto simp: eval7_def rbind_Inl split: list.split if_splits)

lemma eval6_enough: "length args \<le> Suc n \<Longrightarrow> length args \<le> k \<Longrightarrow> eval6 re p k args \<noteq> Inl OutOfFuel"
proof (induction k arbitrary: args)
  case 0
  then show ?case using eval7_enough by simp
next
  case (Suc k)
  show ?case
  proof (cases "keyword args = 0")
    case True
    with Suc.prems eval7_enough show ?thesis by (simp add: Let_def)
  next
    case False
    then obtain a as where args: "args = a # as" by (cases args) auto
    have e6: "fueled (rbind (eval6 re p k xs) g)"
      if "length xs \<le> length as" "\<And>v rest. length rest \<le> length as \<Longrightarrow> fueled (g (v, rest))"
      for xs and g :: "VALUE \<times> string list \<Rightarrow> (VALUE \<times> string list) res"
      using that Suc.IH [of xs] Suc.prems args eval6_shrinks [of re k xs]
      by (fastforce simp: fueled_def rbind_Inl)
    have colon: "fueled (rbind (docolon re l r) (\<lambda>v. Inr (v, rest)))" for l r and rest :: "string list"
      using ops_total(1) by (auto simp: fueled_def rbind_Inl)
    have "fueled (eval6 re p (Suc k) args)"
      using False args by (auto simp: Let_def fueled_Inr fueled_Syntax split: list.split intro!: e6 fueled_if colon)
    then show ?thesis unfolding fueled_def .
  qed
qed

lemma eval6_consuming: "consuming (eval6 re p (Suc n)) (Suc n)"
proof
  show "length rest < length args" if "eval6 re p (Suc n) args = Inr (v, rest)" for args v rest
    using that by (rule eval6_shrinks)
  show "eval6 re p (Suc n) args \<noteq> Inl OutOfFuel" if "length args \<le> Suc n" for args
    using that by (intro eval6_enough)
qed

end

subsection \<open>The levels of the program\<close>

text \<open>The levels above \<open>eval6\<close>, as one function of it.\<close>

definition tower :: "matcher \<Rightarrow> parser \<Rightarrow> parser" where
  "tower re p = eval_or (eval1 (eval2 (eval3 (eval4 (eval5 re p)))))"

lemma tower_consuming: "consuming p n \<Longrightarrow> consuming (tower re p) n"
  unfolding tower_def eval_or_def eval1_def eval2_def eval3_def eval4_def eval5_def
  by (intro consuming.level_consuming ops_total)

lemma tower_agree:
  assumes "consuming p n" and "\<And>as. length as \<le> m \<Longrightarrow> p as = q as" and "length args \<le> m"
  shows "tower re p args = tower re q args"
proof -
  have step: "\<forall>as. length as \<le> m \<longrightarrow> level ops f p' as = level ops f q' as"
    if "consuming p' n" "\<forall>as. length as \<le> m \<longrightarrow> p' as = q' as" for p' q' ops f
    using that shrinking.level_agree [OF consuming.axioms(1), of p' n m q'] by blast
  note c = consuming.level_consuming [OF _ ops_total(1)] consuming.level_consuming [OF _ ops_total(2)]
    consuming.level_consuming [OF _ ops_total(3)] consuming.level_consuming [OF _ ops_total(4)]
  have "\<forall>as. length as \<le> m \<longrightarrow> tower re p as = tower re q as"
    unfolding tower_def eval_or_def eval1_def eval2_def eval3_def eval4_def eval5_def
    using assms(1,2) by (intro step c) auto
  with assms(3) show ?thesis by blast
qed

lemma eval_fuel_Suc: "eval_fuel re (Suc n) = tower re (eval6 re (eval_fuel re n) n)"
  by (rule ext) (simp add: tower_def)

lemma eval6_fuel_consuming: "consuming (eval6 re (eval_fuel re n) n) n"
proof (induction n)
  case 0
  have "shrinking (eval_fuel re 0)" by unfold_locales simp
  then show ?case
    by unfold_locales (blast dest: shrinking.eval6_shrinks, simp add: eval7_def)
next
  case (Suc n)
  then show ?case
    unfolding eval_fuel_Suc by (intro consuming.eval6_consuming tower_consuming)
qed

lemma eval_fuel_consuming: "consuming (eval_fuel re (Suc n)) n"
  unfolding eval_fuel_Suc by (intro tower_consuming eval6_fuel_consuming)

lemma eval_fuel_shrinking: "shrinking (eval_fuel re n)"
proof (cases n)
  case (Suc m)
  show ?thesis unfolding Suc by (rule consuming.axioms(1) [OF eval_fuel_consuming])
qed (unfold_locales, simp)

lemma eval7_agree:
  "(\<And>as. length as < length args \<Longrightarrow> p as = q as) \<Longrightarrow> eval7 p args = eval7 q args"
  by (cases args) (simp_all add: eval7_def)

lemma eval6_agree:
  assumes "shrinking p" and "\<And>as. length as < m \<Longrightarrow> p as = q as"
  shows "length args \<le> m \<Longrightarrow> length args \<le> k \<Longrightarrow> length args \<le> k' \<Longrightarrow> eval6 re p k args = eval6 re q k' args"
proof (induction k arbitrary: k' args)
  case 0
  then show ?case using eval7_agree [of args p q] assms(2) by (cases k') simp_all
next
  case (Suc k)
  have e7: "eval7 p args = eval7 q args" using assms(2) Suc.prems by (intro eval7_agree) auto
  show ?case
  proof (cases "keyword args = 0")
    case True
    then show ?thesis using e7 by (cases k') (simp_all add: Let_def)
  next
    case False
    then obtain a as where args: "args = a # as" by (cases args) auto
    with Suc.prems obtain j where k': "k' = Suc j" by (cases k') auto
    have IH: "eval6 re p k xs = eval6 re q j xs" if "length xs \<le> length as" for xs
      using that Suc.prems args k' by (intro Suc.IH) auto
    have sh: "length rest \<le> length as" if "eval6 re q j xs = Inr (v, rest)" "length xs \<le> length as" for xs v rest
      using shrinking.eval6_shrinks [OF assms(1), of re k xs v rest] IH [OF that(2)] that by simp
    have bind: "rbind (eval6 re p k xs) g = rbind (eval6 re q j xs) h"
      if "length xs \<le> length as" "\<And>v rest. length rest \<le> length as \<Longrightarrow> g (v, rest) = h (v, rest)"
      for xs and g h :: "VALUE \<times> string list \<Rightarrow> (VALUE \<times> string list) res"
      using that IH [of xs] sh [of xs] by (auto simp: rbind_def split: sum.split)
    show ?thesis
      unfolding k' eval6.simps(2) Let_def using False args
      by (simp only: simp_thms if_False list.sel) (intro if_cong refl bind, auto intro!: bind)
  qed
qed

lemma eval6_Nil: "eval6 re p k [] = Inl Syntax"
  by (cases k) (simp_all add: eval7_def Let_def)

lemma eval_fuel_agree:
  "length args \<le> n \<Longrightarrow> length args \<le> m \<Longrightarrow> eval_fuel re (Suc n) args = eval_fuel re (Suc m) args"
proof (induction n arbitrary: m args)
  case 0
  then show ?case
    unfolding eval_fuel_Suc
    by (intro tower_agree [OF eval6_fuel_consuming, where m = 0]) (auto simp: eval6_Nil simp del: eval6.simps)
next
  case (Suc n)
  show ?case
    unfolding eval_fuel_Suc [of re "Suc n"] eval_fuel_Suc [of re m]
  proof (rule tower_agree [OF eval6_fuel_consuming, where m = "length args"])
    fix as :: "string list"
    assume as: "length as \<le> length args"
    show "eval6 re (eval_fuel re (Suc n)) (Suc n) as = eval6 re (eval_fuel re m) m as"
    proof (rule eval6_agree [OF eval_fuel_shrinking, where m = "length as"])
      show "eval_fuel re (Suc n) xs = eval_fuel re m xs" if "length xs < length as" for xs
      proof (cases m)
        case (Suc j)
        then show ?thesis
          using Suc.IH [of xs j] that as Suc.prems by (simp del: eval_fuel.simps)
      qed (use that as Suc.prems in simp)
    qed (use as Suc.prems in auto)
  qed simp
qed

text \<open>Without fuel: \<open>eval\<close> and \<open>eval6\<close> call each other, each on fewer arguments.\<close>

definition eval6_full :: "matcher \<Rightarrow> parser" where
  "eval6_full re args = eval6 re (eval re) (length args) args"

lemma eval_shrinking: "shrinking (eval re)"
  by unfold_locales (use shrinking.shrinks [OF eval_fuel_shrinking] in \<open>auto simp: eval_def simp del: eval_fuel.simps\<close>)

lemma eval_unfold: "eval re = tower re (eval6_full re)"
proof
  fix args :: "string list"
  let ?n = "length args"
  show "eval re args = tower re (eval6_full re) args"
    unfolding eval_def eval_fuel_Suc
  proof (rule tower_agree [OF eval6_fuel_consuming, where m = "length args"])
    fix as :: "string list"
    assume as: "length as \<le> ?n"
    show "eval6 re (eval_fuel re ?n) ?n as = eval6_full re as"
      unfolding eval6_full_def
    proof (rule eval6_agree [OF eval_fuel_shrinking, where m = "length as"])
      fix xs :: "string list"
      assume "length xs < length as"
      with as obtain j where "?n = Suc j" "length xs \<le> j" by (cases ?n) auto
      then show "eval_fuel re ?n xs = eval re xs"
        using eval_fuel_agree [of xs j "length xs" re] by (simp add: eval_def del: eval_fuel.simps)
    qed (use as in auto)
  qed simp
qed

lemma eval6_full_consuming: "consuming (eval6_full re) n"
proof
  show "length rest < length args" if "eval6_full re args = Inr (v, rest)" for args v rest
    using shrinking.eval6_shrinks [OF eval_shrinking] that unfolding eval6_full_def by blast
  show "eval6_full re args \<noteq> Inl OutOfFuel" if "length args \<le> n" for args
  proof -
    have "eval6_full re args = eval6 re (eval_fuel re (length args)) (length args) args"
      unfolding eval6_full_def
    proof (rule eval6_agree [OF eval_shrinking, where m = "length args"])
      fix xs :: "string list"
      assume "length xs < length args"
      then obtain j where "length args = Suc j" "length xs \<le> j" by (cases "length args") auto
      then show "eval re xs = eval_fuel re (length args) xs"
        using eval_fuel_agree [of xs j "length xs" re] by (simp add: eval_def del: eval_fuel.simps)
    qed simp_all
    then show ?thesis using consuming.enough [OF eval6_fuel_consuming] by simp
  qed
qed

interpretation expr6: consuming "eval6_full re" n for re n
  by (rule eval6_full_consuming)

end
