(* ===== verification/Expr_Grammar.thy ===== *)
theory Expr_Grammar
  imports Expr
begin

text \<open>
  What \<open>expr\<close> computes, stated on expression trees: a tree is printed with the fewest parentheses that the
  precedence levels and their left associativity allow, and evaluating the printed arguments gives the value of
  the tree.
\<close>

subsection \<open>The levels as a table\<close>

definition ops_at :: "nat \<Rightarrow> string list" where
  "ops_at k = (if k = 0 then [''|''] else if k = 1 then [''&'']
     else if k = 2 then [''<'', ''<='', ''='', ''=='', ''!='', ''>='', ''>'']
     else if k = 3 then [''+'', ''-''] else if k = 4 then [''*'', ''/'', ''%''] else ['':''])"

definition fun_at :: "matcher \<Rightarrow> nat \<Rightarrow> nat \<Rightarrow> VALUE \<Rightarrow> VALUE \<Rightarrow> VALUE res" where
  "fun_at re k = (if k = 0 then or_op else if k = 1 then and_op else if k = 2 then cmp_op
     else if k \<le> 4 then arith_op else (\<lambda>_. docolon re))"

function parser_at :: "matcher \<Rightarrow> nat \<Rightarrow> parser" where
  "parser_at re k = (if k < 6 then level (ops_at k) (fun_at re k) (parser_at re (Suc k)) else eval6_full re)"
  by pat_completeness auto
termination
  by (relation "measure (\<lambda>(_, k). 6 - k)") auto

declare parser_at.simps [simp del]

lemma parser_at_simps:
  "k < 6 \<Longrightarrow> parser_at re k = level (ops_at k) (fun_at re k) (parser_at re (Suc k))"
  "parser_at re 6 = eval6_full re"
  by (subst parser_at.simps, simp)+

lemma parser_at_eval: "parser_at re 0 = eval re"
proof -
  have "parser_at re 5 = eval5 re (eval6_full re)"
    by (simp add: parser_at_simps(1) [of 5] parser_at_simps(2) eval5_def ops_at_def fun_at_def)
  then have "parser_at re 4 = eval4 (eval5 re (eval6_full re))"
    by (simp add: parser_at_simps(1) [of 4] eval4_def ops_at_def fun_at_def)
  then have "parser_at re 3 = eval3 (eval4 (eval5 re (eval6_full re)))"
    by (simp add: parser_at_simps(1) [of 3] eval3_def ops_at_def fun_at_def)
  then have "parser_at re 2 = eval2 (eval3 (eval4 (eval5 re (eval6_full re))))"
    by (simp add: parser_at_simps(1) [of 2] eval2_def ops_at_def fun_at_def)
  then have "parser_at re 1 = eval1 (eval2 (eval3 (eval4 (eval5 re (eval6_full re)))))"
    by (simp add: parser_at_simps(1) [of "Suc 0"] eval1_def ops_at_def fun_at_def numeral_2_eq_2)
  then show ?thesis
    by (simp add: parser_at_simps(1) [of 0] eval_or_def ops_at_def fun_at_def eval_unfold tower_def)
qed

lemma fun_at_total: "fun_at re k op l r \<noteq> Inl OutOfFuel"
  by (simp add: fun_at_def ops_total)

lemma parser_at_consuming: "consuming (parser_at re k) n"
proof (induction re k rule: parser_at.induct)
  case (1 re k)
  show ?case
  proof (cases "k < 6")
    case True
    then show ?thesis
      using 1 consuming.level_consuming [OF _ fun_at_total] by (simp add: parser_at_simps(1))
  next
    case False
    then have "parser_at re k = eval6_full re" by (subst parser_at.simps) simp
    then show ?thesis by (simp add: eval6_full_consuming)
  qed
qed

text \<open>The loop of a level from a value on.\<close>

definition loop_at :: "matcher \<Rightarrow> nat \<Rightarrow> VALUE \<Rightarrow> parser" where
  "loop_at re k v rest = (if k < 6
     then level_loop (length rest) (ops_at k) (fun_at re k) (parser_at re (Suc k)) v rest else Inr (v, rest))"

definition opcode :: "string \<Rightarrow> nat" where
  "opcode s = nextarg [s] s"

lemma ops_at_code: "s \<in> set (ops_at k) \<Longrightarrow> opcode s \<noteq> 0"
  by (auto simp: ops_at_def opcode_def nextarg_def split: if_splits)

lemma first_op_Cons:
  "(\<And>s. s \<in> set ops \<Longrightarrow> opcode s \<noteq> 0) \<Longrightarrow> first_op (t # xs) ops = (if t \<in> set ops then opcode t else 0)"
  by (induction ops) (auto simp: Let_def opcode_def nextarg_def)

lemmas first_op_at = first_op_Cons [OF ops_at_code]

definition stops :: "nat \<Rightarrow> string list \<Rightarrow> bool" where
  "stops k rest \<longleftrightarrow> (case rest of [] \<Rightarrow> True | t # _ \<Rightarrow> \<forall>j. k \<le> j \<and> j < 6 \<longrightarrow> t \<notin> set (ops_at j))"

lemma loop_stop: "stops k rest \<Longrightarrow> loop_at re k v rest = Inr (v, rest)"
  by (cases rest) (auto simp: loop_at_def stops_def first_op_at Let_def)

lemma stops_mono: "stops k rest \<Longrightarrow> k \<le> j \<Longrightarrow> stops j rest"
  by (cases rest) (auto simp: stops_def)

lemma descend:
  assumes "parser_at re (Suc k) ts = rbind s (\<lambda>v. loop_at re (Suc k) v rest)" and "stops (Suc k) rest" and "k < 6"
  shows "parser_at re k ts = rbind s (\<lambda>v. loop_at re k v rest)"
proof -
  have "parser_at re (Suc k) ts = rbind s (\<lambda>v. Inr (v, rest))"
    using assms(1,2) by (simp add: loop_stop)
  then show ?thesis
    using assms(3) by (cases s) (simp_all add: parser_at_simps(1) [of k] level_def loop_at_def)
qed

lemma descend_to:
  assumes "parser_at re j ts = rbind s (\<lambda>v. loop_at re j v rest)" and "stops (Suc k) rest" and "k \<le> j" "j \<le> 6"
  shows "parser_at re k ts = rbind s (\<lambda>v. loop_at re k v rest)"
  using assms
proof (induction "j - k" arbitrary: k)
  case (Suc d)
  then have k: "k < 6" "d = j - Suc k" "Suc k \<le> j" by auto
  have "parser_at re (Suc k) ts = rbind s (\<lambda>v. loop_at re (Suc k) v rest)"
    using Suc.hyps(1) [OF k(2) Suc.prems(1) _ k(3)] Suc.prems(2,4) by (simp add: stops_mono)
  then show ?case using Suc.prems(2) k(1) by (rule descend)
qed simp

subsection \<open>Trees\<close>

datatype ast = Lit string | Bin string ast ast

definition oplevel :: "string \<Rightarrow> nat" where
  "oplevel op = (if op \<in> set (ops_at 0) then 0 else if op \<in> set (ops_at 1) then 1 else if op \<in> set (ops_at 2) then 2
     else if op \<in> set (ops_at 3) then 3 else if op \<in> set (ops_at 4) then 4 else 5)"

definition operators :: "string list" where
  "operators = concat (map ops_at [0, 1, 2, 3, 4, 5])"

fun wf_ast :: "ast \<Rightarrow> bool" where
  "wf_ast (Lit s) \<longleftrightarrow> s \<notin> set ([''('', '')''] @ expr_keywords)"
| "wf_ast (Bin op a b) \<longleftrightarrow> op \<in> set operators \<and> wf_ast a \<and> wf_ast b"

text \<open>Printing at a level: parentheses only around an operator of a lower level.\<close>

fun toks :: "nat \<Rightarrow> ast \<Rightarrow> string list" where
  "toks k (Lit s) = [s]"
| "toks k (Bin op a b) =
     (let body = toks (oplevel op) a @ [op] @ toks (Suc (oplevel op)) b
      in if k \<le> oplevel op then body else [''(''] @ body @ ['')''])"

fun sem :: "matcher \<Rightarrow> ast \<Rightarrow> VALUE res" where
  "sem re (Lit s) = Inr (STRING s)"
| "sem re (Bin op a b) = rbind (sem re a) (\<lambda>l. rbind (sem re b) (\<lambda>r. fun_at re (oplevel op) (opcode op) l r))"

lemma oplevel_ops: "op \<in> set operators \<Longrightarrow> op \<in> set (ops_at (oplevel op)) \<and> oplevel op < 6"
  by (auto simp: operators_def oplevel_def)

lemma ops_at_oplevel: "op \<in> set (ops_at j) \<Longrightarrow> j < 6 \<Longrightarrow> oplevel op = j"
  by (auto simp: ops_at_def oplevel_def split: if_splits)

lemma keyword_Lit: "s \<notin> set expr_keywords \<Longrightarrow> keyword (s # rest) = 0"
  by (auto simp: keyword_def expr_keywords_def)

lemma nextarg_paren:
  "nextarg (s # rest) ''('' = (if s = ''('' then of_char CHR ''('' else 0)"
  "nextarg (s # rest) '')'' = (if s = '')'' then of_char CHR '')'' else 0)"
  by (simp_all add: nextarg_def)

lemma eval6_full_Lit:
  "s \<notin> set ([''('', '')''] @ expr_keywords) \<Longrightarrow> eval6_full re (s # rest) = Inr (STRING s, rest)"
  by (simp add: eval6_full_def Let_def keyword_Lit eval7_def nextarg_paren)

lemma eval6_full_paren:
  assumes "eval re ts = rbind s (\<lambda>v. Inr (v, '')'' # rest))"
  shows "eval6_full re (''('' # ts) = rbind s (\<lambda>v. Inr (v, rest))"
  using assms by (cases s)
    (simp_all add: eval6_full_def Let_def keyword_Lit eval7_def nextarg_paren expr_keywords_def)

lemma stops_paren: "stops k ('')'' # rest)"
  by (auto simp: stops_def ops_at_def split: if_splits)

lemma stops_op: "op \<in> set operators \<Longrightarrow> stops (Suc (oplevel op)) (op # rest)"
  by (auto simp: stops_def dest: ops_at_oplevel)

text \<open>One operator of a level: the loop reads it, its right operand, and goes on with the combined value.\<close>

lemma loop_at_op:
  assumes op: "op \<in> set operators" and j: "j = oplevel op"
    and r: "parser_at re (Suc j) (ts @ rest) = rbind s (\<lambda>r. Inr (r, rest))"
  shows "loop_at re j l (op # ts @ rest) = rbind s (\<lambda>r. rbind (fun_at re j (opcode op) l r) (\<lambda>v. loop_at re j v rest))"
proof -
  have lvl: "op \<in> set (ops_at j)" "j < 6" using oplevel_ops [OF op] j by auto
  have "level_loop (length (ts @ rest)) (ops_at j) (fun_at re j) (parser_at re (Suc j)) v rest =
      level_loop (length rest) (ops_at j) (fun_at re j) (parser_at re (Suc j)) v rest" for v
    by (rule shrinking.loop_fuel [OF consuming.axioms(1) [OF parser_at_consuming]]) simp_all
  with lvl r ops_at_code [OF lvl(1)] show ?thesis
    by (cases s) (simp_all add: loop_at_def first_op_at Let_def)
qed

lemma parse_toks:
  "wf_ast e \<Longrightarrow> k \<le> 6 \<Longrightarrow> stops (Suc k) rest \<Longrightarrow>
    parser_at re k (toks k e @ rest) = rbind (sem re e) (\<lambda>v. loop_at re k v rest)"
proof (induction e arbitrary: k rest)
  case (Lit s)
  then have "parser_at re 6 ([s] @ rest) = rbind (sem re (Lit s)) (\<lambda>v. loop_at re 6 v rest)"
    by (simp add: parser_at_simps(2) eval6_full_Lit loop_at_def)
  from descend_to [OF this Lit.prems(3,2)] show ?case by simp
next
  case (Bin op a b)
  let ?j = "oplevel op"
  let ?body = "toks ?j a @ [op] @ toks (Suc ?j) b"
  have op: "op \<in> set operators" "?j < 6" "wf_ast a" "wf_ast b"
    using Bin.prems(1) oplevel_ops [of op] by auto
  have body: "parser_at re i (?body @ xs) = rbind (sem re (Bin op a b)) (\<lambda>v. loop_at re i v xs)"
    if "i \<le> ?j" "stops (Suc i) xs" for i xs
  proof (rule descend_to [OF _ that(2,1)])
    have st: "stops (Suc ?j) xs" "stops (Suc (Suc ?j)) xs" using that by (auto intro: stops_mono)
    have "parser_at re (Suc ?j) (toks (Suc ?j) b @ xs) = rbind (sem re b) (\<lambda>r. Inr (r, xs))"
      using Bin.IH(2) [OF op(4), of "Suc ?j" xs] op(2) st by (simp add: loop_stop)
    from loop_at_op [OF op(1) refl this] Bin.IH(1) [OF op(3), of ?j "op # toks (Suc ?j) b @ xs"] op(1,2)
    show "parser_at re ?j (?body @ xs) = rbind (sem re (Bin op a b)) (\<lambda>v. loop_at re ?j v xs)"
      by (cases "sem re a"; cases "sem re b") (simp_all add: stops_op)
  qed (use op(2) in simp)
  show ?case
  proof (cases "k \<le> ?j")
    case True
    with body [OF True Bin.prems(3)] show ?thesis by (simp add: Let_def)
  next
    case False
    have "eval re (?body @ '')'' # rest) = rbind (sem re (Bin op a b)) (\<lambda>v. Inr (v, '')'' # rest))"
      using body [of 0 "'')'' # rest"] by (simp add: parser_at_eval stops_paren loop_stop)
    from eval6_full_paren [OF this]
    have "parser_at re 6 (''('' # ?body @ '')'' # rest) = rbind (sem re (Bin op a b)) (\<lambda>v. loop_at re 6 v rest)"
      by (simp add: parser_at_simps(2) loop_at_def)
    from descend_to [OF this Bin.prems(3,2)] False show ?thesis by (simp add: Let_def)
  qed
qed

subsection \<open>Properties\<close>

text \<open>
  C20: \<open>expr\<close> evaluates expressions by precedence and from left to right. A tree printed with the fewest
  parentheses evaluates to the value of the tree, or to its first error, and all arguments are consumed.
  Operands may be any strings but parentheses and keywords, operator names included.
\<close>

theorem expr_evaluates_tree:
  assumes "wf_ast e"
  shows "eval re (toks 0 e) = rbind (sem re e) (\<lambda>v. Inr (v, []))"
  using parse_toks [OF assms, of 0 "[]" re]
  by (simp add: parser_at_eval stops_def loop_at_def)

definition sample_ast :: ast where
  "sample_ast = Bin ''*'' (Bin ''+'' (Lit ''2'') (Lit ''3'')) (Bin ''-'' (Bin ''-'' (Lit ''10'') (Lit ''4'')) (Lit ''1''))"

lemma toks_sample: "toks 0 sample_ast =
    [''('', ''2'', ''+'', ''3'', '')'', ''*'', ''('', ''10'', ''-'', ''4'', ''-'', ''1'', '')'']"
  by code_simp

theorem expr_evaluates_tree_witness:
  "eval (\<lambda>_ _. None) [''('', ''2'', ''+'', ''3'', '')'', ''*'', ''('', ''10'', ''-'', ''4'', ''-'', ''1'', '')''] =
    Inr (INTEGER 25, [])"
proof -
  have "wf_ast sample_ast" by code_simp
  moreover have "sem (\<lambda>_ _. None) sample_ast = Inr (INTEGER 25)" by code_simp
  ultimately show ?thesis
    using expr_evaluates_tree [of sample_ast "\<lambda>_ _. None"] by (simp add: toks_sample)
qed

lemma show_int_0: "show_int i = ''0'' \<longleftrightarrow> i = 0" and show_int_not_Nil: "show_int i \<noteq> []"
proof -
  have "show_int 0 = ''0''" by code_simp
  moreover have "i = j" if "show_int i = show_int j" for i j
    using that strtol10_show_int [of i] strtol10_show_int [of j] by (metis option.inject prod.inject)
  ultimately show "show_int i = ''0'' \<longleftrightarrow> i = 0" by metis
  show "show_int i \<noteq> []" using show_nat_digits by (simp add: show_int_def del: show_nat.simps)
qed

text \<open>
  C21: \<open>expr\<close> ends on every argument list: the recursion through parentheses and keywords and the loops of the
  levels never exceed the number of arguments. The status of a run without an error is 1 exactly when the printed line is empty or \<open>0\<close>.
\<close>

theorem expr_main_total:
  "expr_main re args \<noteq> Inl OutOfFuel
    \<and> (\<forall>out status. expr_main re args = Inr (out, status) \<longrightarrow> status = (if out \<in> {[CHR 0x0A], CHR ''0'' # [CHR 0x0A]} then 1 else 0))"
proof -
  have "eval re args \<noteq> Inl OutOfFuel"
    using consuming.enough [OF eval_fuel_consuming] by (simp add: eval_def del: eval_fuel.simps)
  then have "expr_main re args \<noteq> Inl OutOfFuel"
    by (auto simp: expr_main_def rbind_Inl split: if_splits)
  moreover have "null v \<longleftrightarrow> tostring v \<in> {[], ''0''}" for v
    using show_int_0 show_int_not_Nil by (cases v) auto
  ultimately show ?thesis
    by (auto simp: expr_main_def rbind_Inr split: if_splits)
qed

theorem expr_main_total_witness:
  "expr_main (\<lambda>_ _. None) [''3'', ''-'', ''3''] = Inr (''0'' @ [CHR 0x0A], 1)"
proof -
  have "map_sum id fst (expr_main (\<lambda>_ _. None) [''3'', ''-'', ''3'']) = Inr (''0'' @ [CHR 0x0A])" by code_simp
  then obtain status where "expr_main (\<lambda>_ _. None) [''3'', ''-'', ''3''] = Inr (''0'' @ [CHR 0x0A], status)"
    by (cases "expr_main (\<lambda>_ _. None) [''3'', ''-'', ''3'']") auto
  with expr_main_total [of "\<lambda>_ _. None" "[''3'', ''-'', ''3'']"] show ?thesis by simp
qed

end
