(* ===== verification/Partition_Disk.thy ===== *)
theory Partition_Disk
  imports Expr_Grammar
begin

text \<open>
  \<^verbatim>\<open>in/PartitionDisk.sh\<close>: the computation of the partition table. The script computes with \<open>expr\<close> on the words
  the shell gives it, so the model runs \<open>expr_main\<close> on strings. What \<open>fdisk -l\<close> and \<open>awk\<close> print about the device (the bytes of a
  cylinder, the size and its unit) is the input.
\<close>

subsection \<open>Words and command substitution\<close>

text \<open>An unquoted variable is one word, or none when it is empty; the values here contain no white space.\<close>

definition unquoted :: "string \<Rightarrow> string list" where
  "unquoted v = (if v = [] then [] else [v])"

text \<open>A command substitution is the output without the newlines at its end; a failing \<open>expr\<close> prints nothing there.\<close>

definition backquote_expr :: "matcher \<Rightarrow> string list \<Rightarrow> string" where
  "backquote_expr re ws = (case expr_main re ws of
       Inl _ \<Rightarrow> []
     | Inr (out, _) \<Rightarrow> rev (dropWhile ((=) CHR 0x0A) (rev out)))"

subsection \<open>The layout\<close>

record layout =
  FACTORY_START_CYL :: string
  DATA_START_CYL :: string
  SDCARD_START_CYL :: string
  SDCARD_SIZE :: string
  EXTEND_START_CYL :: string

definition MILLION :: string where "MILLION = ''1000000''"
definition NDA_OFFSET_SIZE :: string where "NDA_OFFSET_SIZE = ''100''"
definition FACTORY_SIZE :: string where "FACTORY_SIZE = ''256''"
definition DATA_SIZE :: string where "DATA_SIZE = ''512''"
definition RECOVERY_SIZE :: string where "RECOVERY_SIZE = ''128''"
definition SYSTEM_SIZE :: string where "SYSTEM_SIZE = ''512''"
definition CACHE_SIZE :: string where "CACHE_SIZE = ''256''"
definition CONFIG_SIZE :: string where "CONFIG_SIZE = ''16''"
definition PANIC_SIZE :: string where "PANIC_SIZE = ''2''"
definition ILOG_SIZE :: string where "ILOG_SIZE = ''1024''"

lemmas disk_sizes = MILLION_def NDA_OFFSET_SIZE_def FACTORY_SIZE_def DATA_SIZE_def RECOVERY_SIZE_def SYSTEM_SIZE_def
  CACHE_SIZE_def CONFIG_SIZE_def PANIC_SIZE_def ILOG_SIZE_def

text \<open>Start of the next partition: \<open>expr $size \* $MILLION / $CYL_SIZE_BYTES + $start + 2\<close>.\<close>

definition next_start :: "matcher \<Rightarrow> string \<Rightarrow> string \<Rightarrow> string \<Rightarrow> string" where
  "next_start re sz cyl_size start = backquote_expr re
     (unquoted sz @ [''*''] @ unquoted MILLION @ [''/''] @ unquoted cyl_size @ [''+''] @ unquoted start @ [''+'', ''2''])"

definition partition_layout :: "matcher \<Rightarrow> string \<Rightarrow> string \<Rightarrow> string \<Rightarrow> string \<Rightarrow> layout" where
  "partition_layout re device cyl_size device_size size_in_GB =
     (let nda_offset_cyls = backquote_expr re
            (unquoted NDA_OFFSET_SIZE @ [''*''] @ unquoted MILLION @ [''/''] @ unquoted cyl_size);
          factory_start =
            (if device = ''/dev/nda'' \<or> device = ''/dev/mmcblk0''
             then backquote_expr re (unquoted nda_offset_cyls @ [''+'', ''1'']) else ''1'');
          data_start = next_start re FACTORY_SIZE cyl_size factory_start;
          sdcard_start = next_start re DATA_SIZE cyl_size data_start;
          device_size =
            (if size_in_GB = ''GB,'' then backquote_expr re (unquoted device_size @ [''*'', ''1000'']) else device_size);
          fixed_part_total = backquote_expr re (unquoted FACTORY_SIZE @ [''+''] @ unquoted DATA_SIZE @ [''+''] @ unquoted ''0'' @ [''+''] @
            unquoted RECOVERY_SIZE @ [''+''] @ unquoted SYSTEM_SIZE @ [''+''] @ unquoted CACHE_SIZE @ [''+''] @ unquoted PANIC_SIZE @ [''+''] @
            unquoted CONFIG_SIZE @ [''+''] @ unquoted ILOG_SIZE @ [''+''] @ unquoted NDA_OFFSET_SIZE);
          sdcard_size = backquote_expr re (unquoted device_size @ [''-''] @ unquoted fixed_part_total)
      in \<lparr>FACTORY_START_CYL = factory_start, DATA_START_CYL = data_start, SDCARD_START_CYL = sdcard_start,
          SDCARD_SIZE = sdcard_size, EXTEND_START_CYL = next_start re sdcard_size cyl_size sdcard_start\<rparr>)"

text \<open>The lines \<open>fdisk\<close> reads from the script.\<close>

definition plus_M :: "string \<Rightarrow> string" where
  "plus_M sz = ''+'' @ sz @ ''M''"

definition fdisk_script :: "layout \<Rightarrow> string list" where
  "fdisk_script l =
     [''o'',
      ''n'', ''p'', ''1'', FACTORY_START_CYL l, plus_M FACTORY_SIZE,
      ''n'', ''p'', ''2'', DATA_START_CYL l, plus_M DATA_SIZE,
      ''n'', ''p'', ''3'', SDCARD_START_CYL l, plus_M (SDCARD_SIZE l),
      ''n'', ''e'', EXTEND_START_CYL l, [],
      ''n'', [], plus_M RECOVERY_SIZE,
      ''n'', [], plus_M SYSTEM_SIZE,
      ''n'', [], plus_M CACHE_SIZE,
      ''n'', [], plus_M CONFIG_SIZE,
      ''n'', [], plus_M PANIC_SIZE,
      ''n'', [], [],
      ''w'']"

subsection \<open>Running expr on numerals\<close>

lemma script_ops:
  "oplevel ''+'' = 3" "oplevel ''-'' = 3" "oplevel ''*'' = 4" "oplevel ''/'' = 4"
  "opcode ''+'' = 43" "opcode ''-'' = 45" "opcode ''*'' = 42" "opcode ''/'' = 47"
  "set [''+'', ''-'', ''*'', ''/''] \<subseteq> set operators"
  by code_simp+

lemma fun_at_arith: "fun_at re 3 = arith_op" "fun_at re 4 = arith_op"
  by (simp_all add: fun_at_def)

lemma arith_op_numbers:
  assumes "toarith l = Some a" and "toarith r = Some b"
  shows "in64 (a + b) \<Longrightarrow> arith_op 43 l r = Inr (INTEGER (a + b))"
    and "in64 (a - b) \<Longrightarrow> arith_op 45 l r = Inr (INTEGER (a - b))"
    and "in64 (a * b) \<Longrightarrow> arith_op 42 l r = Inr (INTEGER (a * b))"
    and "0 < b \<Longrightarrow> arith_op 47 l r = Inr (INTEGER (tdiv a b))"
  using assms by (simp_all add: arith_op_def arithmetic_common_def wrap64_id)

lemma toarith_numeral: "in64 i \<Longrightarrow> toarith (STRING (show_int i)) = Some i"
  by (simp add: strtol10_show_int clamp64_id)

text \<open>A numeral is neither a parenthesis nor a keyword.\<close>

lemma wf_numeral: "wf_ast (Lit (show_int i))"
proof -
  have "strtol10 s = None \<or> (\<exists>i r. strtol10 s = Some (i, r) \<and> r \<noteq> [])" if "s \<in> set ([''('', '')''] @ expr_keywords)" for s
    using that unfolding expr_keywords_def by (auto simp: strtol10_def strip_sign_def isspace_c_def isdigit_c_def)
  from this [of "show_int i"] show ?thesis using strtol10_show_int [of i] by auto
qed

lemma show_int_last: "dropWhile ((=) CHR 0x0A) (rev (show_int i)) = rev (show_int i)"
proof (cases "rev (show_int i)")
  case (Cons c cs)
  then have "c \<in> set (show_int i)" using set_rev [of "show_int i"] by (metis list.set_intros(1))
  then have "c = CHR ''-'' \<or> isdigit_c c" using show_nat_digits by (auto simp: show_int_def split: if_splits)
  then have "c \<noteq> CHR 0x0A" by (auto simp: isdigit_c_def)
  with Cons show ?thesis by auto
qed simp

lemma backquote_tree:
  assumes "wf_ast e" and "sem re e = Inr (INTEGER i)"
  shows "backquote_expr re (toks 0 e) = show_int i"
proof -
  have "eval re (toks 0 e) = Inr (INTEGER i, [])"
    using parse_toks [OF assms(1), of 0 "[]" re] assms(2) by (simp add: parser_at_eval stops_def loop_at_def)
  moreover have "toks 0 e \<noteq> []" by (cases e) (simp_all add: Let_def)
  ultimately show ?thesis by (simp add: backquote_expr_def expr_main_def show_int_last)
qed

lemma numerals:
  "show_int 0 = ''0''" "show_int 1 = ''1''" "show_int 2 = ''2''" "show_int 16 = ''16''" "show_int 100 = ''100''"
  "show_int 128 = ''128''" "show_int 256 = ''256''" "show_int 512 = ''512''"
  "show_int 1000 = ''1000''" "show_int 1024 = ''1024''" "show_int 1000000 = ''1000000''"
  using digit_chars by (simp_all add: show_int_def show_nat.simps)

lemma unquoted_numeral [simp]: "unquoted (show_int i) = [show_int i]"
  by (simp add: unquoted_def show_int_not_Nil)

lemmas tree_simps = script_ops(1-8) fun_at_arith arith_op_numbers toarith_numeral rbind_Inr

lemma wf_script [simp]:
  "wf_ast (Lit (show_int i))" "wf_ast (Bin ''+'' a b) = (wf_ast a \<and> wf_ast b)" "wf_ast (Bin ''-'' a b) = (wf_ast a \<and> wf_ast b)"
  "wf_ast (Bin ''*'' a b) = (wf_ast a \<and> wf_ast b)" "wf_ast (Bin ''/'' a b) = (wf_ast a \<and> wf_ast b)"
  using wf_numeral script_ops(9) by simp_all

abbreviation num :: "int \<Rightarrow> ast" where "num i \<equiv> Lit (show_int i)"

lemma next_start_value:
  assumes "0 < c" and "in64 c" and "in64 s" and "in64 (s * 1000000)" and "in64 p"
    and "in64 (tdiv (s * 1000000) c + p)" and "in64 (tdiv (s * 1000000) c + p + 2)"
  shows "next_start re (show_int s) (show_int c) (show_int p) = show_int (tdiv (s * 1000000) c + p + 2)"
proof -
  let ?e = "Bin ''+'' (Bin ''+'' (Bin ''/'' (Bin ''*'' (num s) (num 1000000)) (num c)) (num p)) (num 2)"
  have "in64 1000000" "in64 2" by (simp_all add: in64_def)
  then have "sem re ?e = Inr (INTEGER (tdiv (s * 1000000) c + p + 2))"
    using assms by (simp add: tree_simps del: toarith.simps(2))
  moreover have "wf_ast ?e" by (simp del: wf_ast.simps)
  moreover have "toks 0 ?e = [show_int s, ''*'', ''1000000'', ''/'', show_int c, ''+'', show_int p, ''+'', ''2'']"
    by (simp add: script_ops numerals Let_def)
  ultimately show ?thesis
    using backquote_tree [of ?e] by (simp add: next_start_def MILLION_def unquoted_def show_int_not_Nil)
qed

lemma backquote_ops:
  assumes "in64 a" and "in64 b"
  shows "in64 (a + b) \<Longrightarrow> backquote_expr re [show_int a, ''+'', show_int b] = show_int (a + b)"
    and "in64 (a - b) \<Longrightarrow> backquote_expr re [show_int a, ''-'', show_int b] = show_int (a - b)"
    and "in64 (a * b) \<Longrightarrow> backquote_expr re [show_int a, ''*'', show_int b] = show_int (a * b)"
    and "in64 (a * b) \<Longrightarrow> 0 < c \<Longrightarrow> in64 c \<Longrightarrow>
      backquote_expr re [show_int a, ''*'', show_int b, ''/'', show_int c] = show_int (tdiv (a * b) c)"
  using assms backquote_tree [of "Bin ''+'' (num a) (num b)" re "a + b"] backquote_tree [of "Bin ''-'' (num a) (num b)" re "a - b"]
    backquote_tree [of "Bin ''*'' (num a) (num b)" re "a * b"]
    backquote_tree [of "Bin ''/'' (Bin ''*'' (num a) (num b)) (num c)" re "tdiv (a * b) c"]
  by (simp_all add: tree_simps Let_def del: toarith.simps(2) wf_ast.simps)

text \<open>The sum of the fixed sizes.\<close>

lemma fixed_part_total:
  "backquote_expr re [''256'', ''+'', ''512'', ''+'', ''0'', ''+'', ''128'', ''+'', ''512'', ''+'', ''256'', ''+'', ''2'', ''+'', ''16'', ''+'', ''1024'', ''+'', ''100''] =
    show_int 2806"
proof -
  let ?e = "foldl (Bin ''+'') (num 256) (map num [512, 0, 128, 512, 256, 2, 16, 1024, 100])"
  have "wf_ast ?e" by (simp del: wf_ast.simps)
  moreover have "sem re ?e = Inr (INTEGER 2806)"
    by (simp add: tree_simps in64_def del: toarith.simps(2))
  moreover have "toks 0 ?e = [''256'', ''+'', ''512'', ''+'', ''0'', ''+'', ''128'', ''+'', ''512'', ''+'', ''256'', ''+'', ''2'', ''+'', ''16'', ''+'', ''1024'', ''+'', ''100'']"
    by (simp add: script_ops numerals Let_def)
  ultimately show ?thesis using backquote_tree [of ?e] by simp
qed

text \<open>A quotient and the cylinders it stands for.\<close>

lemma tdiv_cylinders:
  assumes "0 < c" and "0 \<le> x"
  shows "tdiv x c = x div c" and "tdiv x c * c \<le> x" and "x < tdiv x c * c + c" and "0 \<le> tdiv x c" and "tdiv x c \<le> x"
proof -
  show q: "tdiv x c = x div c" using assms by (cases "x = 0") (simp_all add: tdiv_def)
  have "x = x div c * c + x mod c" "0 \<le> x mod c" "x mod c < c" using assms by simp_all
  then show "tdiv x c * c \<le> x" "x < tdiv x c * c + c" unfolding q by linarith+
  show n: "0 \<le> tdiv x c" unfolding q using assms by (simp add: pos_imp_zdiv_nonneg_iff)
  show "tdiv x c \<le> x" using mult_left_mono [of 1 c "tdiv x c"] n assms(1) \<open>tdiv x c * c \<le> x\<close> by simp
qed

text \<open>The start of a partition of \<open>s\<close> megabytes leaves its predecessor room and between one and two cylinders more.\<close>

definition follows :: "int \<Rightarrow> int \<Rightarrow> int \<Rightarrow> int \<Rightarrow> bool" where
  "follows c s p q \<longleftrightarrow> p * c + s * 1000000 + c < q * c \<and> q * c \<le> p * c + s * 1000000 + 2 * c"

lemma next_start_follows:
  assumes c: "0 < c" "in64 c" and s: "0 \<le> s" "s \<le> 1000000000000" and p: "0 \<le> p" "p \<le> 2 ^ 61"
  shows "\<exists>q. next_start re (show_int s) (show_int c) (show_int p) = show_int q \<and> follows c s p q
    \<and> 0 \<le> q \<and> q \<le> s * 1000000 + p + 2"
proof -
  let ?t = "tdiv (s * 1000000) c"
  have x: "0 \<le> s * 1000000" using s(1) by simp
  note t = tdiv_cylinders [OF c(1) x]
  have "next_start re (show_int s) (show_int c) (show_int p) = show_int (?t + p + 2)"
    using c s p t(4,5) by (intro next_start_value) (simp_all add: in64_def)
  moreover have "follows c s p (?t + p + 2)"
    using t(2,3) c(1) by (simp add: follows_def algebra_simps)
  ultimately show ?thesis
    using t(4,5) p(1) by (intro exI [of _ "?t + p + 2"]) simp
qed

subsection \<open>The property\<close>

text \<open>
  C40: the partition table. For a device of \<open>m\<close> megabytes with cylinders of \<open>c\<close> bytes, large enough for the fixed partitions (2806 megabytes),
  every number the script computes is a numeral: the media partition gets what the fixed ones leave, the first partition starts
  at the first cylinder or, on the internal devices, in the cylinder that holds byte 100000000, and each later start leaves the partition before it its size and at least one whole
  cylinder more, but not more than two. No intermediate result overflows.
\<close>

theorem partition_layout_separated:
  assumes "0 < c" and "in64 c" and "0 \<le> d" and "d \<le> 1000000000" and "m = (if unit = ''GB,'' then d * 1000 else d)" and "2806 \<le> m"
  shows "\<exists>F A S E. partition_layout re device (show_int c) (show_int d) unit =
      \<lparr>FACTORY_START_CYL = show_int F, DATA_START_CYL = show_int A, SDCARD_START_CYL = show_int S,
       SDCARD_SIZE = show_int (m - 2806), EXTEND_START_CYL = show_int E\<rparr>
    \<and> (if device \<in> {''/dev/nda'', ''/dev/mmcblk0''} then (F - 1) * c \<le> 100000000 \<and> 100000000 < F * c else F = 1)
    \<and> follows c 256 F A \<and> follows c 512 A S \<and> follows c (m - 2806) S E"
proof -
  let ?o = "tdiv 100000000 c"
  let ?F = "if device = ''/dev/nda'' \<or> device = ''/dev/mmcblk0'' then ?o + 1 else 1"
  note o = tdiv_cylinders [OF assms(1), of 100000000]
  have F: "0 \<le> ?F" "?F \<le> 100000001" using o by auto
  have off: "backquote_expr re [''100'', ''*'', ''1000000'', ''/'', show_int c] = show_int ?o"
    using backquote_ops(4) [of 100 1000000 c re] assms(1,2) by (simp add: in64_def numerals)
  have one: "backquote_expr re [show_int ?o, ''+'', ''1''] = show_int (?o + 1)"
    using backquote_ops(1) [of ?o 1 re] o by (simp add: in64_def numerals)
  obtain A where A: "next_start re (show_int 256) (show_int c) (show_int ?F) = show_int A" "follows c 256 ?F A" "0 \<le> A" "A \<le> 1000000000"
    using next_start_follows [OF assms(1,2), of 256 ?F re] F by fastforce
  obtain S where S: "next_start re (show_int 512) (show_int c) (show_int A) = show_int S" "follows c 512 A S" "0 \<le> S" "S \<le> 2000000000"
    using next_start_follows [OF assms(1,2), of 512 A re] A by fastforce
  have m: "0 \<le> m" "m \<le> 1000000000000" using assms(3-5) by (auto split: if_splits)
  obtain E where E: "next_start re (show_int (m - 2806)) (show_int c) (show_int S) = show_int E" "follows c (m - 2806) S E"
    using next_start_follows [OF assms(1,2), of "m - 2806" S re] S m assms(6) by fastforce
  have gb: "backquote_expr re [show_int d, ''*'', ''1000''] = show_int (d * 1000)"
    using backquote_ops(3) [of d 1000 re] assms(3,4) by (simp add: in64_def numerals)
  have sd: "backquote_expr re [show_int m, ''-'', show_int 2806] = show_int (m - 2806)"
    using backquote_ops(2) [of m 2806 re] m by (simp add: in64_def)
  have start: "(if device = ''/dev/nda'' \<or> device = ''/dev/mmcblk0'' then backquote_expr re [show_int ?o, ''+'', ''1''] else ''1'') = show_int ?F"
    using one by (simp add: numerals)
  have size: "(if unit = ''GB,'' then backquote_expr re [show_int d, ''*'', ''1000''] else show_int d) = show_int m"
    using gb assms(5) by simp
  have "partition_layout re device (show_int c) (show_int d) unit =
      \<lparr>FACTORY_START_CYL = show_int ?F, DATA_START_CYL = show_int A, SDCARD_START_CYL = show_int S,
       SDCARD_SIZE = show_int (m - 2806), EXTEND_START_CYL = show_int E\<rparr>"
    unfolding partition_layout_def disk_sizes Let_def
    by (simp add: unquoted_def show_int_not_Nil off start size sd fixed_part_total E(1) A(1) [unfolded numerals(7)] S(1) [unfolded numerals(8)]
        cong del: if_weak_cong split del: if_split)
  moreover have "if device \<in> {''/dev/nda'', ''/dev/mmcblk0''} then (?F - 1) * c \<le> 100000000 \<and> 100000000 < ?F * c else ?F = 1"
    using o(2,3) by (auto simp: algebra_simps)
  ultimately show ?thesis using A(2) S(2) E(2) by blast
qed

theorem partition_layout_separated_witness:
  "\<exists>F A S E. partition_layout (\<lambda>_ _. None) ''/dev/mmcblk0'' (show_int 8192) (show_int 16) ''GB,'' =
      \<lparr>FACTORY_START_CYL = show_int F, DATA_START_CYL = show_int A, SDCARD_START_CYL = show_int S,
       SDCARD_SIZE = show_int 13194, EXTEND_START_CYL = show_int E\<rparr>
    \<and> (F - 1) * 8192 \<le> 100000000 \<and> 100000000 < F * 8192
    \<and> follows 8192 256 F A \<and> follows 8192 512 A S \<and> follows 8192 13194 S E"
  using partition_layout_separated [of 8192 16 16000 "''GB,''" "\<lambda>_ _. None" "''/dev/mmcblk0''"] by (simp add: in64_def)

end
