(* ===== verification/Shell_Math.thy ===== *)
theory Shell_Math
  imports CString
begin

text \<open>
  \<^verbatim>\<open>busybox/shell/math.c\<close>: the arithmetic expansion \<open>$((...))\<close> of the shells. One loop reads
  the text and moves operators and operands between two stacks; operators are applied as soon as their precedence allows.
  Variables are looked up when an operator needs their value, and their text is evaluated in turn. \<open>arith_t\<close> is a 64-bit
  integer (\<open>SH_MATH_SUPPORT_64\<close>), written as an \<open>int\<close> with \<open>wrap64\<close> where the code can overflow.
\<close>

subsection \<open>Operators\<close>

datatype operator =
  TOK_LPAREN | TOK_COMMA
| TOK_ASSIGN | TOK_AND_ASSIGN | TOK_OR_ASSIGN | TOK_XOR_ASSIGN | TOK_PLUS_ASSIGN | TOK_MINUS_ASSIGN
| TOK_LSHIFT_ASSIGN | TOK_RSHIFT_ASSIGN | TOK_MUL_ASSIGN | TOK_DIV_ASSIGN | TOK_REM_ASSIGN
| TOK_CONDITIONAL | TOK_CONDITIONAL_SEP | TOK_OR | TOK_AND | TOK_BOR | TOK_BXOR | TOK_BAND
| TOK_EQ | TOK_NE | TOK_LT | TOK_GT | TOK_GE | TOK_LE | TOK_LSHIFT | TOK_RSHIFT | TOK_ADD | TOK_SUB
| TOK_MUL | TOK_DIV | TOK_REM | TOK_EXPONENT | TOK_BNOT | TOK_NOT | TOK_UMINUS | TOK_UPLUS
| TOK_PRE_INC | TOK_PRE_DEC | TOK_POST_INC | TOK_POST_DEC | TOK_NUM | TOK_RPAREN

definition tok_decl :: "nat \<Rightarrow> nat \<Rightarrow> nat" where
  "tok_decl prec ident = push_bit 5 ident OR prec"

definition UNARYPREC :: nat where "UNARYPREC = 16"
definition PREC_PRE :: nat where "PREC_PRE = UNARYPREC + 2"
definition PREC_POST :: nat where "PREC_POST = UNARYPREC + 3"
definition SPEC_PREC :: nat where "SPEC_PREC = UNARYPREC + 4"

fun tok_code :: "operator \<Rightarrow> nat" where
  "tok_code TOK_LPAREN = tok_decl 0 0"
| "tok_code TOK_COMMA = tok_decl 1 0"
| "tok_code TOK_ASSIGN = tok_decl 2 0"
| "tok_code TOK_AND_ASSIGN = tok_decl 2 1"
| "tok_code TOK_OR_ASSIGN = tok_decl 2 2"
| "tok_code TOK_XOR_ASSIGN = tok_decl 2 3"
| "tok_code TOK_PLUS_ASSIGN = tok_decl 2 4"
| "tok_code TOK_MINUS_ASSIGN = tok_decl 2 5"
| "tok_code TOK_LSHIFT_ASSIGN = tok_decl 2 6"
| "tok_code TOK_RSHIFT_ASSIGN = tok_decl 2 7"
| "tok_code TOK_MUL_ASSIGN = tok_decl 3 0"
| "tok_code TOK_DIV_ASSIGN = tok_decl 3 1"
| "tok_code TOK_REM_ASSIGN = tok_decl 3 2"
| "tok_code TOK_CONDITIONAL = tok_decl 4 0"
| "tok_code TOK_CONDITIONAL_SEP = tok_decl 4 1"
| "tok_code TOK_OR = tok_decl 5 0"
| "tok_code TOK_AND = tok_decl 6 0"
| "tok_code TOK_BOR = tok_decl 7 0"
| "tok_code TOK_BXOR = tok_decl 8 0"
| "tok_code TOK_BAND = tok_decl 9 0"
| "tok_code TOK_EQ = tok_decl 10 0"
| "tok_code TOK_NE = tok_decl 10 1"
| "tok_code TOK_LT = tok_decl 11 0"
| "tok_code TOK_GT = tok_decl 11 1"
| "tok_code TOK_GE = tok_decl 11 2"
| "tok_code TOK_LE = tok_decl 11 3"
| "tok_code TOK_LSHIFT = tok_decl 12 0"
| "tok_code TOK_RSHIFT = tok_decl 12 1"
| "tok_code TOK_ADD = tok_decl 13 0"
| "tok_code TOK_SUB = tok_decl 13 1"
| "tok_code TOK_MUL = tok_decl 14 0"
| "tok_code TOK_DIV = tok_decl 14 1"
| "tok_code TOK_REM = tok_decl 14 2"
| "tok_code TOK_EXPONENT = tok_decl 15 1"
| "tok_code TOK_BNOT = tok_decl UNARYPREC 0"
| "tok_code TOK_NOT = tok_decl UNARYPREC 1"
| "tok_code TOK_UMINUS = tok_decl (UNARYPREC + 1) 0"
| "tok_code TOK_UPLUS = tok_decl (UNARYPREC + 1) 1"
| "tok_code TOK_PRE_INC = tok_decl PREC_PRE 0"
| "tok_code TOK_PRE_DEC = tok_decl PREC_PRE 1"
| "tok_code TOK_POST_INC = tok_decl PREC_POST 0"
| "tok_code TOK_POST_DEC = tok_decl PREC_POST 1"
| "tok_code TOK_NUM = tok_decl SPEC_PREC 0"
| "tok_code TOK_RPAREN = tok_decl SPEC_PREC 1"

definition PREC :: "operator \<Rightarrow> nat" where
  "PREC op = tok_code op AND 0x1F"

lemma PREC_simps [simp]:
  "PREC TOK_LPAREN = 0" "PREC TOK_COMMA = 1" "PREC TOK_ASSIGN = 2" "PREC TOK_AND_ASSIGN = 2"
  "PREC TOK_OR_ASSIGN = 2" "PREC TOK_XOR_ASSIGN = 2" "PREC TOK_PLUS_ASSIGN = 2" "PREC TOK_MINUS_ASSIGN = 2"
  "PREC TOK_LSHIFT_ASSIGN = 2" "PREC TOK_RSHIFT_ASSIGN = 2" "PREC TOK_MUL_ASSIGN = 3" "PREC TOK_DIV_ASSIGN = 3"
  "PREC TOK_REM_ASSIGN = 3" "PREC TOK_CONDITIONAL = 4" "PREC TOK_CONDITIONAL_SEP = 4" "PREC TOK_OR = 5"
  "PREC TOK_AND = 6" "PREC TOK_BOR = 7" "PREC TOK_BXOR = 8" "PREC TOK_BAND = 9" "PREC TOK_EQ = 10"
  "PREC TOK_NE = 10" "PREC TOK_LT = 11" "PREC TOK_GT = 11" "PREC TOK_GE = 11" "PREC TOK_LE = 11"
  "PREC TOK_LSHIFT = 12" "PREC TOK_RSHIFT = 12" "PREC TOK_ADD = 13" "PREC TOK_SUB = 13" "PREC TOK_MUL = 14"
  "PREC TOK_DIV = 14" "PREC TOK_REM = 14" "PREC TOK_EXPONENT = 15" "PREC TOK_BNOT = 16" "PREC TOK_NOT = 16"
  "PREC TOK_UMINUS = 17" "PREC TOK_UPLUS = 17" "PREC TOK_PRE_INC = 18" "PREC TOK_PRE_DEC = 18"
  "PREC TOK_POST_INC = 19" "PREC TOK_POST_DEC = 19" "PREC TOK_NUM = 20" "PREC TOK_RPAREN = 20"
  by (simp_all add: PREC_def tok_decl_def UNARYPREC_def PREC_PRE_def PREC_POST_def SPEC_PREC_def)

definition convert_prec_is_assing :: "nat \<Rightarrow> nat" where
  "convert_prec_is_assing prec = (if prec = 3 then 2 else prec)"

definition tok_have_assign :: "operator \<Rightarrow> bool" where
  "tok_have_assign op = (let prec = convert_prec_is_assing (PREC op) in
     prec = PREC TOK_ASSIGN \<or> prec = PREC_PRE \<or> prec = PREC_POST)"

definition is_right_associativity :: "nat \<Rightarrow> bool" where
  "is_right_associativity prec \<longleftrightarrow>
     prec = PREC TOK_ASSIGN \<or> prec = PREC TOK_EXPONENT \<or> prec = PREC TOK_CONDITIONAL"

subsection \<open>Operands and variables\<close>

text \<open>
  An operand. The code leaves \<open>val\<close> of a variable and \<open>contidional_second_val\<close> unset until they are assigned, and does not
  read them before.
\<close>

record v_n_t =
  val :: int
  contidional_second_val :: int
  contidional_second_val_initialized :: bool
  var :: "string option"

definition num_slot :: "int \<Rightarrow> v_n_t" where
  "num_slot v = \<lparr>val = v, contidional_second_val = 0, contidional_second_val_initialized = False, var = None\<rparr>"

definition var_slot :: "string \<Rightarrow> v_n_t" where
  "var_slot x = \<lparr>val = 0, contidional_second_val = 0, contidional_second_val_initialized = False, var = Some x\<rparr>"

text \<open>
  The results other than a value: the error codes of \<open>arith\<close>, an operation to which C gives no meaning (a shift by a
  negative amount or by the width, the quotient of the least number by -1), a write past a stack, and an exhausted
  recursion bound.
\<close>

datatype math_error = Err int | Undefined | Overrun | NoFuel

type_synonym 'a math = "math_error + 'a"

text \<open>The shell's variables, behind the hooks \<open>lookupvar\<close> and \<open>setvar\<close>.\<close>

type_synonym vars = "(string \<times> string) list"

definition lookupvar :: "vars \<Rightarrow> string \<Rightarrow> string option" where
  "lookupvar vs x = map_of vs x"

fun setvar :: "vars \<Rightarrow> string \<Rightarrow> string \<Rightarrow> vars" where
  "setvar [] x t = [(x, t)]"
| "setvar ((y, u) # vs) x t = (if y = x then (y, t) # vs else (y, u) # setvar vs x t)"

text \<open>
  The value of an operand. \<open>ar\<close> evaluates the text of a variable, given the names that are being evaluated.
\<close>

definition arith_lookup_val ::
  "(string list \<Rightarrow> vars \<Rightarrow> string \<Rightarrow> (int \<times> vars) math) \<Rightarrow> string list \<Rightarrow> v_n_t \<Rightarrow> vars \<Rightarrow> (v_n_t \<times> vars) math" where
  "arith_lookup_val ar chain t vs = (case var t of
       None \<Rightarrow> Inr (t, vs)
     | Some x \<Rightarrow> (case lookupvar vs x of
           Some p \<Rightarrow>
             if x \<in> set chain then Inl (Err (-5))
             else rbind (ar (x # chain) vs p) (\<lambda>(v, vs'). Inr (t\<lparr>val := v\<rparr>, vs'))
         | None \<Rightarrow> Inr (t\<lparr>val := 0\<rparr>, vs)))"

subsection \<open>Applying an operator\<close>

definition of_truth :: "bool \<Rightarrow> int" where
  "of_truth b = (if b then 1 else 0)"

text \<open>The operators with one operand; \<open>None\<close> for the others.\<close>

definition unary_rez :: "operator \<Rightarrow> int \<Rightarrow> int option" where
  "unary_rez op rez =
     (if op = TOK_UMINUS then Some (wrap64 (- rez))
      else if op = TOK_NOT then Some (of_truth (rez = 0))
      else if op = TOK_BNOT then Some (NOT rez)
      else if op = TOK_POST_INC \<or> op = TOK_PRE_INC then Some (wrap64 (rez + 1))
      else if op = TOK_POST_DEC \<or> op = TOK_PRE_DEC then Some (wrap64 (rez - 1))
      else if op = TOK_UPLUS then Some rez
      else None)"

fun exponent_loop :: "nat \<Rightarrow> int \<Rightarrow> int \<Rightarrow> int" where
  "exponent_loop 0 rez c = c"
| "exponent_loop (Suc numptr_val) rez c = exponent_loop numptr_val rez (wrap64 (c * rez))"

definition shift_ok :: "int \<Rightarrow> bool" where
  "shift_ok n \<longleftrightarrow> 0 \<le> n \<and> n < 64"

text \<open>The operators with two operands, the conditional ones apart.\<close>

definition binary_rez :: "operator \<Rightarrow> int \<Rightarrow> int \<Rightarrow> int math" where
  "binary_rez op rez numptr_val =
     (if op = TOK_BOR \<or> op = TOK_OR_ASSIGN then Inr (rez OR numptr_val)
      else if op = TOK_OR then Inr (of_truth (numptr_val \<noteq> 0 \<or> rez \<noteq> 0))
      else if op = TOK_BAND \<or> op = TOK_AND_ASSIGN then Inr (rez AND numptr_val)
      else if op = TOK_BXOR \<or> op = TOK_XOR_ASSIGN then Inr (rez XOR numptr_val)
      else if op = TOK_AND then Inr (of_truth (rez \<noteq> 0 \<and> numptr_val \<noteq> 0))
      else if op = TOK_EQ then Inr (of_truth (rez = numptr_val))
      else if op = TOK_NE then Inr (of_truth (rez \<noteq> numptr_val))
      else if op = TOK_GE then Inr (of_truth (rez \<ge> numptr_val))
      else if op = TOK_RSHIFT \<or> op = TOK_RSHIFT_ASSIGN
      then (if shift_ok numptr_val then Inr (drop_bit (nat numptr_val) rez) else Inl Undefined)
      else if op = TOK_LSHIFT \<or> op = TOK_LSHIFT_ASSIGN
      then (if shift_ok numptr_val then Inr (wrap64 (push_bit (nat numptr_val) rez)) else Inl Undefined)
      else if op = TOK_GT then Inr (of_truth (rez > numptr_val))
      else if op = TOK_LT then Inr (of_truth (rez < numptr_val))
      else if op = TOK_LE then Inr (of_truth (rez \<le> numptr_val))
      else if op = TOK_MUL \<or> op = TOK_MUL_ASSIGN then Inr (wrap64 (rez * numptr_val))
      else if op = TOK_ADD \<or> op = TOK_PLUS_ASSIGN then Inr (wrap64 (rez + numptr_val))
      else if op = TOK_SUB \<or> op = TOK_MINUS_ASSIGN then Inr (wrap64 (rez - numptr_val))
      else if op = TOK_ASSIGN \<or> op = TOK_COMMA then Inr numptr_val
      else if op = TOK_EXPONENT
      then (if numptr_val < 0 then Inl (Err (-3)) else Inr (exponent_loop (nat numptr_val) rez 1))
      else if numptr_val = 0 then Inl (Err (-2))
      else if op = TOK_DIV \<or> op = TOK_DIV_ASSIGN
      then (if rez = - (2 ^ 63) \<and> numptr_val = -1 then Inl Undefined else Inr (tdiv rez numptr_val))
      else if op = TOK_REM \<or> op = TOK_REM_ASSIGN
      then (if rez = - (2 ^ 63) \<and> numptr_val = -1 then Inl Undefined else Inr (tmod rez numptr_val))
      else Inr rez)"

text \<open>The end of \<open>arith_apply\<close>: the result is stored in a variable where the operator assigns, and in the operand.\<close>

definition store_rez :: "operator \<Rightarrow> int \<Rightarrow> v_n_t \<Rightarrow> vars \<Rightarrow> (v_n_t \<times> vars) math" where
  "store_rez op rez m1 vs =
     (if tok_have_assign op then (case var m1 of
          None \<Rightarrow> Inl (Err (-1))
        | Some x \<Rightarrow>
            let rez' = (if op = TOK_POST_INC then wrap64 (rez - 1) else if op = TOK_POST_DEC then wrap64 (rez + 1) else rez)
            in Inr (m1\<lparr>val := rez', var := None\<rparr>, setvar vs x (show_int rez)))
      else Inr (m1\<lparr>val := rez, var := None\<rparr>, vs))"

text \<open>
  The part of \<open>arith_apply\<close> for operators with two operands: \<open>m1\<close> is the right one, already looked up, and \<open>m\<close>
  the one below it. \<open>lk\<close> is \<open>arith_lookup_val\<close>.
\<close>

definition apply_binary ::
  "(v_n_t \<Rightarrow> vars \<Rightarrow> (v_n_t \<times> vars) math) \<Rightarrow> operator \<Rightarrow> v_n_t \<Rightarrow> v_n_t \<Rightarrow> bool \<Rightarrow> vars \<Rightarrow> (v_n_t \<times> vars) math" where
  "apply_binary lk op m1 m bottom vs =
     (if contidional_second_val_initialized m1 \<noteq> (op = TOK_CONDITIONAL) then Inl (Err (-1))
      else rbind (if op \<noteq> TOK_ASSIGN then lk m vs else Inr (m, vs)) (\<lambda>(m2, vs).
        let numptr_val = val m1 in
        if op = TOK_CONDITIONAL_SEP
        then (if bottom then Inl (Err (-1))
              else store_rez op (val m2)
                (m2\<lparr>contidional_second_val := numptr_val, contidional_second_val_initialized := True\<rparr>) vs)
        else if op = TOK_CONDITIONAL
        then store_rez op (if val m2 \<noteq> 0 then numptr_val else contidional_second_val m1)
          (m2\<lparr>contidional_second_val := contidional_second_val m1\<rparr>) vs
        else rbind (binary_rez op (val m2) numptr_val) (\<lambda>rez. store_rez op rez m2 vs)))"

text \<open>\<open>arith_apply\<close> on the operand stack, its top first.\<close>

definition arith_apply ::
  "(v_n_t \<Rightarrow> vars \<Rightarrow> (v_n_t \<times> vars) math) \<Rightarrow> operator \<Rightarrow> v_n_t list \<Rightarrow> vars \<Rightarrow> (v_n_t list \<times> vars) math" where
  "arith_apply lk op numstack vs = (case numstack of
       [] \<Rightarrow> Inl (Err (-1))
     | m0 # below \<Rightarrow> rbind (lk m0 vs) (\<lambda>(m1, vs). case unary_rez op (val m1) of
           Some rez \<Rightarrow> rbind (store_rez op rez m1 vs) (\<lambda>(m, vs). Inr (m # below, vs))
         | None \<Rightarrow> (case below of
               [] \<Rightarrow> Inl (Err (-1))
             | m # rest \<Rightarrow> rbind (apply_binary lk op m1 m (rest = []) vs) (\<lambda>(m, vs). Inr (m # rest, vs)))))"

subsection \<open>Reading the text\<close>

definition arith_isspace :: "char \<Rightarrow> bool" where
  "arith_isspace c \<longleftrightarrow> c = CHR '' '' \<or> c = CHR 0x0A \<or> c = CHR 0x09"

definition isalpha_c :: "char \<Rightarrow> bool" where
  "isalpha_c c \<longleftrightarrow> (let n = (of_char c :: nat) in 65 \<le> n \<and> n \<le> 90 \<or> 97 \<le> n \<and> n \<le> 122)"

definition is_name :: "char \<Rightarrow> bool" where
  "is_name c \<longleftrightarrow> c = CHR ''_'' \<or> isalpha_c c"

definition is_in_name :: "char \<Rightarrow> bool" where
  "is_in_name c \<longleftrightarrow> c = CHR ''_'' \<or> isalpha_c c \<or> isdigit_c c"

text \<open>What follows the name at the start of a text.\<close>

definition endofname :: "string \<Rightarrow> string" where
  "endofname s = (case s of
       [] \<Rightarrow> []
     | c # cs \<Rightarrow> if \<not> is_name c then s else dropWhile is_in_name cs)"

text \<open>
  \<open>strtoull\<close> with base 0, at a digit: the value and the rest of the text. A number that does not fit is 0 (the code resets
  it when \<open>errno\<close> is set); a greater one than the signed type holds wraps.
\<close>

definition digit_in :: "int \<Rightarrow> char \<Rightarrow> bool" where
  "digit_in base c \<longleftrightarrow> (let n = (of_char c :: int) in
     48 \<le> n \<and> n < 48 + min base 10 \<or> 10 < base \<and> (65 \<le> n \<and> n < 55 + base \<or> 97 \<le> n \<and> n < 87 + base))"

definition digit_of :: "char \<Rightarrow> int" where
  "digit_of c = (let n = (of_char c :: int) in if n < 58 then n - 48 else if n < 97 then n - 55 else n - 87)"

fun number_in :: "int \<Rightarrow> int \<Rightarrow> string \<Rightarrow> int \<times> string" where
  "number_in base acc [] = (acc, [])"
| "number_in base acc (c # cs) =
     (if digit_in base c then number_in base (base * acc + digit_of c) cs else (acc, c # cs))"

definition hex_prefix :: "string \<Rightarrow> bool" where
  "hex_prefix s \<longleftrightarrow> 3 \<le> length s \<and> (s ! 1 = CHR ''x'' \<or> s ! 1 = CHR ''X'') \<and> digit_in 16 (s ! 2)"

definition strtoull :: "string \<Rightarrow> int \<times> string" where
  "strtoull s =
     (if take 1 s = ''0'' then if hex_prefix s then number_in 16 0 (drop 2 s) else number_in 8 0 s
      else number_in 10 0 s)"

definition strto_arith_t :: "string \<Rightarrow> int \<times> string" where
  "strto_arith_t s = (case strtoull s of (v, r) \<Rightarrow> (if 2 ^ 64 \<le> v then 0 else wrap64 v, r))"

definition op_tokens :: "(string \<times> operator) list" where
  "op_tokens =
    [(''<<='', TOK_LSHIFT_ASSIGN), (''>>='', TOK_RSHIFT_ASSIGN), (''<<'', TOK_LSHIFT), (''>>'', TOK_RSHIFT),
     (''||'', TOK_OR), (''&&'', TOK_AND), (''!='', TOK_NE), (''<='', TOK_LE), (''>='', TOK_GE), (''=='', TOK_EQ),
     (''|='', TOK_OR_ASSIGN), (''&='', TOK_AND_ASSIGN), (''*='', TOK_MUL_ASSIGN), (''/='', TOK_DIV_ASSIGN),
     (''%='', TOK_REM_ASSIGN), (''+='', TOK_PLUS_ASSIGN), (''-='', TOK_MINUS_ASSIGN), (''--'', TOK_POST_DEC),
     (''^='', TOK_XOR_ASSIGN), (''++'', TOK_POST_INC), (''**'', TOK_EXPONENT), (''!'', TOK_NOT), (''<'', TOK_LT),
     (''>'', TOK_GT), (''='', TOK_ASSIGN), (''|'', TOK_BOR), (''&'', TOK_BAND), (''*'', TOK_MUL), (''/'', TOK_DIV),
     (''%'', TOK_REM), (''+'', TOK_ADD), (''-'', TOK_SUB), (''^'', TOK_BXOR), (''~'', TOK_BNOT), ('','', TOK_COMMA),
     (''?'', TOK_CONDITIONAL), ('':'', TOK_CONDITIONAL_SEP), ('')'', TOK_RPAREN), (''('', TOK_LPAREN)]"

text \<open>The first entry of the table that the text starts with, and the text behind it.\<close>

fun find_op :: "(string \<times> operator) list \<Rightarrow> string \<Rightarrow> (operator \<times> string) option" where
  "find_op [] s = None"
| "find_op ((t, op) # ts) s = (if is_prefix t s then Some (op, drop (length t) s) else find_op ts s)"

subsection \<open>The evaluator\<close>

text \<open>
  The state of the loop: the last token, the two stacks with their tops first, whether something but blanks
  has been read, and the variables.
\<close>

record arith_state =
  lasttok :: operator
  stack :: "operator list"
  numstack :: "v_n_t list"
  seen :: bool
  vars_of :: vars

definition push_num :: "nat \<Rightarrow> v_n_t \<Rightarrow> arith_state \<Rightarrow> arith_state math" where
  "push_num cap t st =
     (if length (numstack st) < cap then Inr (st\<lparr>lasttok := TOK_NUM, numstack := t # numstack st, seen := True\<rparr>)
      else Inl Overrun)"

definition push_op :: "nat \<Rightarrow> operator \<Rightarrow> arith_state \<Rightarrow> arith_state math" where
  "push_op cap op st =
     (if length (stack st) < cap then Inr (st\<lparr>lasttok := op, stack := op # stack st\<rparr>) else Inl Overrun)"

text \<open>Whether an operator on the stack stays there when \<open>op\<close> arrives.\<close>

definition stays :: "operator \<Rightarrow> operator \<Rightarrow> bool" where
  "stays op prev = (let prec = convert_prec_is_assing (PREC op); prev_prec = convert_prec_is_assing (PREC prev) in
     prev_prec < prec \<or> prev_prec = prec \<and> is_right_associativity prec)"

fun reduce_loop ::
  "(v_n_t \<Rightarrow> vars \<Rightarrow> (v_n_t \<times> vars) math) \<Rightarrow> operator \<Rightarrow> operator list \<Rightarrow> v_n_t list \<Rightarrow> vars
    \<Rightarrow> (operator list \<times> v_n_t list \<times> vars) math" where
  "reduce_loop lk op [] ns vs = (if op = TOK_RPAREN then Inl (Err (-1)) else Inr ([], ns, vs))"
| "reduce_loop lk op (t # ts) ns vs =
     (if op = TOK_RPAREN \<and> t = TOK_LPAREN then Inr (ts, ns, vs)
      else if op \<noteq> TOK_RPAREN \<and> stays op t then Inr (t # ts, ns, vs)
      else rbind (arith_apply lk t ns vs) (\<lambda>(ns, vs). reduce_loop lk op ts ns vs))"

definition prefix_form :: "operator \<Rightarrow> operator" where
  "prefix_form op =
     (if op = TOK_ADD then TOK_UPLUS else if op = TOK_SUB then TOK_UMINUS
      else if op = TOK_POST_INC then TOK_PRE_INC else if op = TOK_POST_DEC then TOK_PRE_DEC else op)"

text \<open>An operator has been read.\<close>

definition operator_step ::
  "(v_n_t \<Rightarrow> vars \<Rightarrow> (v_n_t \<times> vars) math) \<Rightarrow> nat \<Rightarrow> operator \<Rightarrow> arith_state \<Rightarrow> arith_state math" where
  "operator_step lk cap op0 st =
     (let last = (if lasttok st = TOK_POST_INC \<or> lasttok st = TOK_POST_DEC then TOK_NUM else lasttok st);
          op = (if last \<noteq> TOK_NUM then prefix_form op0 else op0);
          prec = PREC op in
      if 0 < prec \<and> prec < UNARYPREC \<or> prec = SPEC_PREC then
        (if last \<noteq> TOK_NUM then Inl (Err (-1))
         else rbind (reduce_loop lk op (stack st) (numstack st) (vars_of st)) (\<lambda>(ts, ns, vs).
           let st' = st\<lparr>lasttok := TOK_NUM, stack := ts, numstack := ns, seen := True, vars_of := vs\<rparr> in
           if op = TOK_RPAREN then Inr st' else push_op cap op st'))
      else push_op cap op (st\<lparr>seen := True\<rparr>))"

text \<open>After the last token: one operand must be left.\<close>

definition arith_end :: "(v_n_t \<Rightarrow> vars \<Rightarrow> (v_n_t \<times> vars) math) \<Rightarrow> arith_state \<Rightarrow> (int \<times> vars) math" where
  "arith_end lk st = (case numstack st of
       [t] \<Rightarrow> if var t \<noteq> None then rbind (lk t (vars_of st)) (\<lambda>(t, vs). Inr (val t, vs)) else Inr (val t, vars_of st)
     | _ \<Rightarrow> Inl (Err (-1)))"

lemma endofname_le: "length (endofname s) \<le> length s"
  by (simp add: endofname_def length_dropWhile_le le_SucI split: list.split)

lemma endofname_shorter: "endofname s \<noteq> s \<Longrightarrow> length (endofname s) < length s"
  by (cases s) (simp_all add: endofname_def less_Suc_eq_le length_dropWhile_le split: if_splits)

lemma number_in_le: "length (snd (number_in base acc s)) \<le> length s"
  by (induction base acc s rule: number_in.induct) auto

lemma number_in_shorter: "digit_in base c \<Longrightarrow> length (snd (number_in base acc (c # cs))) < Suc (length cs)"
  using number_in_le [of base _ cs] by (simp add: less_Suc_eq_le)

lemma isdigit_int: "isdigit_c c \<longleftrightarrow> 48 \<le> (of_char c :: int) \<and> (of_char c :: int) \<le> 57"
proof -
  have "(of_char c :: int) = int (of_char c)" by (rule of_nat_of_char [symmetric])
  then show ?thesis unfolding isdigit_c_def by linarith
qed

lemma strto_arith_t_shorter:
  assumes "isdigit_c c"
  shows "length (snd (strto_arith_t (c # cs))) < Suc (length cs)"
proof -
  have "length (snd (strtoull (c # cs))) < Suc (length cs)"
  proof (cases "c = CHR ''0''")
    case True
    then have "length (snd (number_in 8 0 (c # cs))) < Suc (length cs)"
      by (intro number_in_shorter) (simp add: digit_in_def)
    moreover have "length (snd (number_in 16 0 (drop 2 (c # cs)))) < Suc (length cs)"
      using number_in_le [of 16 0 "drop 2 (c # cs)"] by simp
    ultimately show ?thesis using True by (simp add: strtoull_def del: number_in.simps drop_Suc_Cons)
  next
    case False
    moreover have "digit_in 10 c" using isdigit_int assms by (simp add: digit_in_def)
    ultimately show ?thesis
      using number_in_shorter [of 10 c 0 cs] by (simp add: strtoull_def del: number_in.simps)
  qed
  then show ?thesis by (simp add: strto_arith_t_def case_prod_unfold)
qed

lemma find_op_shorter:
  "\<forall>(t, op)\<in>set ts. t \<noteq> [] \<Longrightarrow> find_op ts s = Some (op, r) \<Longrightarrow> length r < length s"
proof (induction ts)
  case (Cons t ts)
  then show ?case
    by (cases t) (auto simp: is_prefix_iff split: if_splits)
qed simp

lemma op_tokens_nonempty: "\<forall>(t, op)\<in>set op_tokens. t \<noteq> []"
  by (simp add: op_tokens_def)

function arith_loop ::
  "(v_n_t \<Rightarrow> vars \<Rightarrow> (v_n_t \<times> vars) math) \<Rightarrow> nat \<Rightarrow> nat \<Rightarrow> string \<Rightarrow> arith_state \<Rightarrow> (int \<times> vars) math" where
  "arith_loop lk ncap ocap [] st =
     (if \<not> seen st then Inr (0, vars_of st)
      else rbind (operator_step lk ocap TOK_RPAREN st) (\<lambda>st. arith_end lk st))"
| "arith_loop lk ncap ocap (c # cs) st =
     (if arith_isspace c then arith_loop lk ncap ocap cs st
      else if endofname (c # cs) \<noteq> c # cs then
        rbind (push_num ncap (var_slot (take (Suc (length cs) - length (endofname (c # cs))) (c # cs))) st)
          (\<lambda>st. arith_loop lk ncap ocap (endofname (c # cs)) st)
      else if isdigit_c c then
        rbind (push_num ncap (num_slot (fst (strto_arith_t (c # cs)))) st)
          (\<lambda>st. arith_loop lk ncap ocap (snd (strto_arith_t (c # cs))) st)
      else (case find_op op_tokens (c # cs) of
          None \<Rightarrow> Inl (Err (-1))
        | Some (op, r) \<Rightarrow> rbind (operator_step lk ocap op st) (\<lambda>st. arith_loop lk ncap ocap r st)))"
  by pat_completeness auto
termination
proof (relation "measure (\<lambda>(lk, ncap, ocap, s, st). length s)", goal_cases)
  case (3 lk ncap ocap c cs)
  then show ?case using endofname_shorter [of "c # cs"] by simp
next
  case (4 lk ncap ocap c cs)
  then show ?case using strto_arith_t_shorter [of c cs] by simp
next
  case (5 lk ncap ocap c cs st x op r)
  then show ?case using find_op_shorter [OF op_tokens_nonempty, of "c # cs" op r] by simp
qed simp_all

definition arith_start :: "vars \<Rightarrow> arith_state" where
  "arith_start vs = \<lparr>lasttok = TOK_LPAREN, stack = [TOK_LPAREN], numstack = [], seen = False, vars_of = vs\<rparr>"

fun arith_fuel :: "nat \<Rightarrow> string list \<Rightarrow> vars \<Rightarrow> string \<Rightarrow> (int \<times> vars) math" where
  "arith_fuel 0 chain vs expr = Inl NoFuel"
| "arith_fuel (Suc n) chain vs expr =
     (let datasizes = length expr + 2 in
      arith_loop (arith_lookup_val (arith_fuel n) chain) (datasizes div 2) datasizes expr (arith_start vs))"

text \<open>The recursion through the variables is at most one deeper than the number of variables.\<close>

definition arith :: "vars \<Rightarrow> string \<Rightarrow> (int \<times> vars) math" where
  "arith vs expr = arith_fuel (length vs + 2) [] vs expr"

end
