(* ===== verification/Shell_Math_Run.thy ===== *)
theory Shell_Math_Run
  imports Shell_Math
begin

text \<open>
  What every run of \<open>arith\<close> keeps: values fit 64 bits, the recursion through variables ends, and the two stacks stay
  within their blocks as long as no operand is glued to a number.
\<close>

subsection \<open>The range of values\<close>

lemma in64_iff: "in64 v \<longleftrightarrow> signed_take_bit 63 v = v"
  by (simp add: in64_def signed_take_bit_int_eq_self_iff)

lemma in64_bitwise:
  assumes "in64 a" "in64 b"
  shows "in64 (a OR b)" "in64 (a AND b)" "in64 (a XOR b)"
proof -
  have bits: "bit v n \<longleftrightarrow> bit v (min 63 n)" if "in64 v" for v n
    using that bit_signed_take_bit_iff [of 63 v n] by (simp add: in64_iff min.commute)
  show "in64 (a OR b)" "in64 (a AND b)" "in64 (a XOR b)"
    unfolding in64_iff using bits [OF assms(1)] bits [OF assms(2)]
    by (auto intro!: bit_eqI simp: bit_signed_take_bit_iff bit_or_iff bit_and_iff bit_xor_iff)
qed

lemma in64_not: "in64 a \<Longrightarrow> in64 (NOT a)"
  by (simp add: in64_def not_int_def)

lemma in64_truth [simp]: "in64 (of_truth b)"
  by (simp add: of_truth_def in64_def)

lemma div_le_self: "0 \<le> a \<Longrightarrow> (a :: int) div b \<le> a"
  using int_div_le_self [of a b] by (cases "a = 0") auto

lemma in64_drop_bit:
  assumes "in64 a"
  shows "in64 (drop_bit n a)"
proof (cases "0 \<le> a")
  case True
  with assms div_le_self [of a "2 ^ n"] show ?thesis
    by (auto simp: in64_def drop_bit_eq_div pos_imp_zdiv_nonneg_iff intro: order.trans [of _ 0])
next
  case False
  then have "a \<le> a div 2 ^ n" using zdiv_mono2_neg [of a 1 "2 ^ n"] by simp
  moreover from False have "a div 2 ^ n < 0" by (simp add: pos_imp_zdiv_neg_iff)
  ultimately show ?thesis using assms by (simp add: in64_def drop_bit_eq_div)
qed

lemma tdiv_bound: "\<bar>tdiv a b\<bar> \<le> \<bar>a\<bar>"
proof -
  have "\<bar>sgn a * sgn b\<bar> \<le> 1" by (simp add: sgn_if)
  moreover have "0 \<le> \<bar>a\<bar> div \<bar>b\<bar>" by (cases "b = 0") (simp_all add: pos_imp_zdiv_nonneg_iff)
  ultimately have "\<bar>tdiv a b\<bar> \<le> 1 * (\<bar>a\<bar> div \<bar>b\<bar>)"
    unfolding tdiv_def abs_mult by (intro mult_mono) (auto simp: abs_mult)
  with div_le_self [of "\<bar>a\<bar>" "\<bar>b\<bar>"] show ?thesis by linarith
qed

lemma in64_tdiv:
  assumes "in64 a" "\<not> (a = - (2 ^ 63) \<and> b = - 1)"
  shows "in64 (tdiv a b)"
proof (cases "a = - (2 ^ 63)")
  case False
  with assms(1) tdiv_bound [of a b] show ?thesis unfolding in64_def by linarith
next
  case True
  show ?thesis
  proof (cases "\<bar>b\<bar> \<le> 1")
    case True
    then have "b = 0 \<or> b = 1 \<or> b = - 1" by linarith
    with assms show ?thesis by (auto simp: tdiv_def in64_def sgn_if)
  next
    case False
    have "\<bar>a\<bar> div \<bar>b\<bar> \<le> \<bar>a\<bar> div 2" using False by (intro zdiv_mono2) auto
    moreover have "\<bar>tdiv a b\<bar> = \<bar>a\<bar> div \<bar>b\<bar>"
      using False True by (simp add: tdiv_def abs_mult pos_imp_zdiv_nonneg_iff sgn_if)
    ultimately have "\<bar>tdiv a b\<bar> \<le> 2 ^ 62" using True by simp
    then show ?thesis by (auto simp: in64_def abs_le_iff)
  qed
qed

lemma in64_tmod:
  assumes "in64 a" "b \<noteq> 0"
  shows "in64 (tmod a b)"
proof -
  have "tmod a b = sgn a * (\<bar>a\<bar> mod \<bar>b\<bar>)"
    using assms(2) by (simp add: tmod_def tdiv_def sgn_if minus_div_mult_eq_mod [symmetric] algebra_simps)
  moreover have "\<bar>a\<bar> mod \<bar>b\<bar> \<le> \<bar>a\<bar>" "0 \<le> \<bar>a\<bar> mod \<bar>b\<bar>"
    using assms(2) by (simp_all add: zmod_le_nonneg_dividend)
  ultimately show ?thesis
    using assms(1) by (cases "a = 0 \<or> 0 < a") (auto simp: in64_def sgn_if)
qed

lemma in64_exponent: "in64 c \<Longrightarrow> in64 (exponent_loop n rez c)"
  by (induction n rez c rule: exponent_loop.induct) auto

lemma in64_unary: "unary_rez op a = Some r \<Longrightarrow> in64 a \<Longrightarrow> in64 r"
  by (cases op) (auto simp: unary_rez_def in64_not)

lemma in64_one: "in64 1"
  by (simp add: in64_def)

lemma in64_binary: "binary_rez op a b = Inr r \<Longrightarrow> in64 a \<Longrightarrow> in64 b \<Longrightarrow> in64 r"
  by (cases op)
    (auto simp: binary_rez_def in64_bitwise in64_drop_bit in64_tdiv in64_tmod in64_exponent in64_one split: if_splits)

lemma binary_rez_errors: "binary_rez op a b = Inl e \<Longrightarrow> e \<in> {Err (-2), Err (-3), Undefined}"
  by (cases op) (auto simp: binary_rez_def split: if_splits)

subsection \<open>Separated operands\<close>

text \<open>The text behind the first token.\<close>

definition token_rest :: "string \<Rightarrow> string option" where
  "token_rest s =
     (if s = [] then None
      else if arith_isspace (hd s) then Some (tl s)
      else if endofname s \<noteq> s then Some (endofname s)
      else if isdigit_c (hd s) then Some (snd (strto_arith_t s))
      else map_option snd (find_op op_tokens s))"

lemma token_rest_shorter: "token_rest s = Some r \<Longrightarrow> length r < length s"
  using endofname_shorter [of s] strto_arith_t_shorter [of "hd s" "tl s"] find_op_shorter [OF op_tokens_nonempty, of s]
  by (cases s) (auto simp: token_rest_def split: if_splits)

text \<open>No number is directly followed by a digit, a letter or an underscore.\<close>

function separated :: "string \<Rightarrow> bool" where
  "separated s = (case token_rest s of
       None \<Rightarrow> True
     | Some r \<Rightarrow> \<not> (isdigit_c (hd s) \<and> r \<noteq> [] \<and> is_in_name (hd r)) \<and> separated r)"
  by pat_completeness auto
termination
  by (relation "measure length") (auto dest: token_rest_shorter)

declare separated.simps [simp del]

text \<open>The text may start with an operand.\<close>

definition operand_start :: "string \<Rightarrow> bool" where
  "operand_start s \<longleftrightarrow> s \<noteq> [] \<and> is_in_name (hd s)"

lemma operand_start_endofname: "endofname s \<noteq> s \<Longrightarrow> operand_start s \<and> \<not> operand_start (endofname s)"
  using hd_dropWhile [of is_in_name "tl s"]
  by (cases s) (auto simp: endofname_def operand_start_def is_name_def is_in_name_def split: if_splits)

lemma operand_start_Cons:
  "arith_isspace c \<Longrightarrow> \<not> operand_start (c # cs)" "isdigit_c c \<Longrightarrow> operand_start (c # cs)"
  "endofname (c # cs) = c # cs \<Longrightarrow> \<not> isdigit_c c \<Longrightarrow> \<not> operand_start (c # cs)"
proof -
  show "\<not> operand_start (c # cs)" if "arith_isspace c"
    using that by (auto simp: arith_isspace_def operand_start_def is_in_name_def isalpha_c_def isdigit_c_def)
  show "operand_start (c # cs)" if "isdigit_c c"
    using that by (simp add: operand_start_def is_in_name_def)
  show "\<not> operand_start (c # cs)" if "endofname (c # cs) = c # cs" "\<not> isdigit_c c"
  proof
    assume "operand_start (c # cs)"
    with that(2) have "is_name c" by (auto simp: operand_start_def is_in_name_def is_name_def)
    with that(1) have "length (dropWhile is_in_name cs) = Suc (length cs)" by (simp add: endofname_def)
    with length_dropWhile_le [of is_in_name cs] show False by simp
  qed
qed

subsection \<open>The contract of operand lookup\<close>

definition slot_ok :: "v_n_t \<Rightarrow> bool" where
  "slot_ok t \<longleftrightarrow> in64 (val t) \<and> in64 (contidional_second_val t)"

definition stack_ok :: "v_n_t list \<Rightarrow> bool" where
  "stack_ok ns \<longleftrightarrow> (\<forall>t\<in>set ns. slot_ok t)"

lemma stack_ok_simps [simp]: "stack_ok []" "stack_ok (t # ns) \<longleftrightarrow> slot_ok t \<and> stack_ok ns"
  by (simp_all add: stack_ok_def)

text \<open>
  What the evaluator needs of \<open>arith_lookup_val\<close>: it only sets the value of the operand, and keeps an invariant of the
  variables that assignments keep as well. \<open>bad\<close> are errors that must not come up.
\<close>

locale evaluator =
  fixes lk :: "v_n_t \<Rightarrow> vars \<Rightarrow> (v_n_t \<times> vars) math"
    and inv :: "vars \<Rightarrow> bool"
    and bad :: "math_error set"
  assumes lookup_value: "inv vs \<Longrightarrow> slot_ok t \<Longrightarrow> lk t vs = Inr (t', vs') \<Longrightarrow> inv vs' \<and> slot_ok t'"
    and lookup_error: "inv vs \<Longrightarrow> lk t vs = Inl e \<Longrightarrow> e \<notin> bad"
    and assign_keeps: "inv vs \<Longrightarrow> in64 v \<Longrightarrow> inv (setvar vs x (show_int v))"
    and tolerated: "Err i \<notin> bad" "Undefined \<notin> bad"
begin

lemma store_ok:
  assumes "inv vs" "slot_ok m" "in64 r"
  shows "case store_rez op r m vs of Inl e \<Rightarrow> e \<notin> bad | Inr (m', vs') \<Rightarrow> inv vs' \<and> slot_ok m'"
  using assms tolerated assign_keeps [of vs r]
  by (auto simp: store_rez_def slot_ok_def Let_def split: option.split)

definition good :: "(v_n_t \<times> vars) math \<Rightarrow> bool" where
  "good r \<longleftrightarrow> (case r of Inl e \<Rightarrow> e \<notin> bad | Inr (m, vs) \<Rightarrow> inv vs \<and> slot_ok m)"

lemma good_simps [simp]: "good (Inl e) \<longleftrightarrow> e \<notin> bad" "good (Inr (m, vs)) \<longleftrightarrow> inv vs \<and> slot_ok m"
  by (simp_all add: good_def)

lemma good_store: "inv vs \<Longrightarrow> slot_ok m \<Longrightarrow> in64 r \<Longrightarrow> good (store_rez op r m vs)"
  using store_ok [of vs m r op] by (auto simp: good_def)

lemma good_lookup: "inv vs \<Longrightarrow> slot_ok t \<Longrightarrow> good (lk t vs)"
  using lookup_value [of vs t] lookup_error [of vs t] by (cases "lk t vs") auto

lemma good_bind:
  "good r \<Longrightarrow> (\<And>m vs. inv vs \<Longrightarrow> slot_ok m \<Longrightarrow> good (k (m, vs))) \<Longrightarrow> good (rbind r k)"
  by (cases r) auto

lemma good_binary:
  assumes "inv vs" "slot_ok m1" "slot_ok m"
  shows "good (apply_binary lk op m1 m bottom vs)"
proof -
  have rez: "good (rbind (binary_rez op a b) (\<lambda>rez. store_rez op rez m vs))"
    if "in64 a" "in64 b" "inv vs" "slot_ok m" for a b m vs op
    using that in64_binary [of op a b] binary_rez_errors [of op a b] tolerated
    by (cases "binary_rez op a b") (auto intro!: good_store)
  have "good (if op \<noteq> TOK_ASSIGN then lk m vs else Inr (m, vs))"
    using assms by (simp add: good_lookup)
  then show ?thesis
    using assms(2) tolerated unfolding apply_binary_def Let_def
    by (auto simp: slot_ok_def intro!: good_bind good_store rez)
qed

lemma apply_ok:
  assumes "inv vs" "stack_ok ns"
  shows "case arith_apply lk op ns vs of Inl e \<Rightarrow> e \<notin> bad | Inr (ns', vs') \<Rightarrow> inv vs' \<and> stack_ok ns' \<and> length ns' \<le> length ns"
proof (cases ns)
  case (Cons m0 below)
  have push: "case rbind r (\<lambda>(m, vs). Inr (m # rest, vs)) of Inl e \<Rightarrow> e \<notin> bad
      | Inr (ns', vs') \<Rightarrow> inv vs' \<and> stack_ok ns' \<and> length ns' \<le> length ns"
    if "good r" "stack_ok rest" "length rest < length ns" for r rest
    using that by (cases r) auto
  obtain r where r: "lk m0 vs = r" "good r" using good_lookup assms Cons by auto
  show ?thesis
  proof (cases r)
    case (Inr p)
    obtain m1 vs1 where p: "p = (m1, vs1)" by (cases p)
    with r Inr have m1: "inv vs1" "slot_ok m1" by simp_all
    show ?thesis
    proof (cases "unary_rez op (val m1)")
      case (Some z)
      then have "good (store_rez op z m1 vs1)"
        using m1 in64_unary by (intro good_store) (auto simp: slot_ok_def)
      from push [OF this, of below] r(1) Inr p Cons assms(2) Some show ?thesis
        by (simp add: arith_apply_def)
    next
      case None
      have "good (apply_binary lk op m1 m bottom vs1)" if "slot_ok m" for m bottom
        using m1 that by (rule good_binary)
      with push r(1) Inr p Cons assms(2) None tolerated show ?thesis
        by (cases below) (simp_all add: arith_apply_def)
    qed
  qed (use r Cons in \<open>simp add: arith_apply_def\<close>)
qed (simp add: arith_apply_def tolerated)

lemma reduce_ok:
  assumes "inv vs" "stack_ok ns"
  shows "case reduce_loop lk op ts ns vs of Inl e \<Rightarrow> e \<notin> bad
    | Inr (ts', ns', vs') \<Rightarrow> inv vs' \<and> stack_ok ns' \<and> length ns' \<le> length ns \<and> length ts' \<le> length ts"
  using assms
proof (induction ts arbitrary: ns vs)
  case (Cons t ts)
  show ?case
  proof (cases "arith_apply lk t ns vs")
    case (Inr p)
    then obtain ns' vs' where p: "arith_apply lk t ns vs = Inr (ns', vs')" by (cases p) simp
    with apply_ok [OF Cons.prems, of t] have ok: "inv vs'" "stack_ok ns'" "length ns' \<le> length ns" by simp_all
    from Cons.IH [OF ok(1,2)] ok(3) p Cons.prems show ?thesis by (fastforce split: sum.splits)
  qed (use apply_ok [OF Cons.prems, of t] Cons.prems in auto)
qed (simp add: tolerated)

definition st_ok :: "arith_state \<Rightarrow> bool" where
  "st_ok st \<longleftrightarrow> inv (vars_of st) \<and> stack_ok (numstack st)"

lemma step_ok:
  assumes "st_ok st" "length (stack st) < cap"
  shows "case operator_step lk cap op st of Inl e \<Rightarrow> e \<notin> bad
    | Inr st' \<Rightarrow> st_ok st' \<and> length (numstack st') \<le> length (numstack st) \<and> length (stack st') \<le> Suc (length (stack st))"
proof -
  have "case rbind (reduce_loop lk op (stack st) (numstack st) (vars_of st)) (\<lambda>(ts, ns, vs).
           let st' = st\<lparr>lasttok := TOK_NUM, stack := ts, numstack := ns, seen := True, vars_of := vs\<rparr> in
           if op = TOK_RPAREN then Inr st' else push_op cap op st') of Inl e \<Rightarrow> e \<notin> bad
    | Inr st' \<Rightarrow> st_ok st' \<and> length (numstack st') \<le> length (numstack st) \<and> length (stack st') \<le> Suc (length (stack st))" for op
    using reduce_ok [of "vars_of st" "numstack st" "stack st" op] assms
    by (cases "reduce_loop lk op (stack st) (numstack st) (vars_of st)") (auto simp: st_ok_def push_op_def Let_def)
  then show ?thesis
    using assms tolerated by (auto simp: operator_step_def Let_def push_op_def st_ok_def)
qed

lemma end_ok:
  assumes "st_ok st"
  shows "case arith_end lk st of Inl e \<Rightarrow> e \<notin> bad | Inr (v, vs) \<Rightarrow> in64 v \<and> inv vs"
proof (cases "\<exists>t. numstack st = [t]")
  case True
  then obtain t where t: "numstack st = [t]" ..
  with assms have ok: "inv (vars_of st)" "slot_ok t" by (simp_all add: st_ok_def)
  with good_lookup [OF ok] t show ?thesis
    by (cases "lk t (vars_of st)") (auto simp: arith_end_def slot_ok_def)
next
  case False
  then have "arith_end lk st = Inl (Err (-1))" by (auto simp: arith_end_def split: list.split)
  then show ?thesis by (simp add: tolerated)
qed

abbreviation final_ok :: "(int \<times> vars) math \<Rightarrow> bool" where
  "final_ok r \<equiv> (case r of Inl e \<Rightarrow> e \<notin> bad | Inr (v, vs) \<Rightarrow> in64 v \<and> inv vs)"

definition roomy :: "nat \<Rightarrow> string \<Rightarrow> arith_state \<Rightarrow> bool" where
  "roomy L s st \<longleftrightarrow> 2 * length (numstack st) + length s \<le> L + (if operand_start s then 0 else 1)"

lemma push_then:
  assumes "st_ok st" "slot_ok t" "operand_start s" "length r < length s"
    and "Overrun \<in> bad \<Longrightarrow> separated s \<and> \<not> operand_start r \<and> roomy L s st" "L \<le> 2 * ncap"
    and "\<And>st'. st_ok st' \<Longrightarrow> stack st' = stack st \<Longrightarrow> (Overrun \<in> bad \<Longrightarrow> roomy L r st') \<Longrightarrow> final_ok (k st')"
  shows "final_ok (rbind (push_num ncap t st) k)"
proof (cases "length (numstack st) < ncap")
  case True
  let ?st = "st\<lparr>lasttok := TOK_NUM, numstack := t # numstack st, seen := True\<rparr>"
  have "final_ok (k ?st)"
  proof (rule assms(7))
    show "st_ok ?st" "stack ?st = stack st" using assms(1,2) by (simp_all add: st_ok_def)
    show "roomy L r ?st" if "Overrun \<in> bad" using assms(3-5) that by (auto simp: roomy_def)
  qed
  with True show ?thesis by (simp add: push_num_def)
next
  case False
  have "Overrun \<notin> bad"
  proof
    assume "Overrun \<in> bad"
    with assms(3,5) have "2 * length (numstack st) + length s \<le> L" by (simp add: roomy_def)
    with False assms(4,6) show False by linarith
  qed
  with False show ?thesis by (simp add: push_num_def)
qed

lemma separated_rest: "separated s \<Longrightarrow> token_rest s = Some r \<Longrightarrow> separated r"
  by (simp add: separated.simps [of s])

text \<open>One round of the loop by the kind of the next token, given the loop on shorter texts.\<close>

lemma loop_name:
  assumes st: "st_ok st" "length (stack st) + length s < ocap" "Overrun \<in> bad \<Longrightarrow> separated s \<and> roomy L s st" "L \<le> 2 * ncap"
    and IH: "\<And>r st'. length r < length s \<Longrightarrow> st_ok st' \<Longrightarrow> length (stack st') + length r < ocap \<Longrightarrow>
      (Overrun \<in> bad \<Longrightarrow> separated r \<and> roomy L r st') \<Longrightarrow> final_ok (arith_loop lk ncap ocap r st')"
    and s: "s = c # cs" "\<not> arith_isspace c" "endofname s \<noteq> s"
  shows "final_ok (arith_loop lk ncap ocap s st)"
proof -
  have short: "length (endofname s) < length s" using s(3) by (rule endofname_shorter)
  have sep: "Overrun \<in> bad \<Longrightarrow> separated (endofname s)"
    using st(3) separated_rest [of s "endofname s"] s by (simp add: token_rest_def)
  have "final_ok (rbind (push_num ncap (var_slot x) st) (\<lambda>st. arith_loop lk ncap ocap (endofname s) st))" for x
  proof (rule push_then [where s = s and r = "endofname s" and L = L])
    show "slot_ok (var_slot x)" by (simp add: slot_ok_def var_slot_def in64_def)
    fix st'
    assume "st_ok st'" "stack st' = stack st" "Overrun \<in> bad \<Longrightarrow> roomy L (endofname s) st'"
    with st(2) sep short show "final_ok (arith_loop lk ncap ocap (endofname s) st')" by (intro IH) auto
  qed (use st short operand_start_endofname [OF s(3)] in auto)
  with s show ?thesis by simp
qed

lemma loop_digit:
  assumes st: "st_ok st" "length (stack st) + length s < ocap" "Overrun \<in> bad \<Longrightarrow> separated s \<and> roomy L s st" "L \<le> 2 * ncap"
    and IH: "\<And>r st'. length r < length s \<Longrightarrow> st_ok st' \<Longrightarrow> length (stack st') + length r < ocap \<Longrightarrow>
      (Overrun \<in> bad \<Longrightarrow> separated r \<and> roomy L r st') \<Longrightarrow> final_ok (arith_loop lk ncap ocap r st')"
    and s: "s = c # cs" "\<not> arith_isspace c" "endofname s = s" "isdigit_c c"
  shows "final_ok (arith_loop lk ncap ocap s st)"
proof -
  let ?r = "snd (strto_arith_t s)"
  have rest: "token_rest s = Some ?r" using s by (simp add: token_rest_def)
  have sep: "Overrun \<in> bad \<Longrightarrow> separated ?r" using st(3) rest separated_rest by blast
  have "final_ok (rbind (push_num ncap (num_slot (fst (strto_arith_t s))) st) (\<lambda>st. arith_loop lk ncap ocap ?r st))"
  proof (rule push_then [where s = s and r = ?r and L = L])
    show "slot_ok (num_slot (fst (strto_arith_t s)))"
      by (simp add: slot_ok_def num_slot_def strto_arith_t_def in64_def [of 0] split: prod.split)
    show "length ?r < length s" using rest by (rule token_rest_shorter)
    show "operand_start s" using operand_start_Cons(2) s by simp
    show "separated s \<and> \<not> operand_start ?r \<and> roomy L s st" if "Overrun \<in> bad"
      using st(3) [OF that] rest s by (auto simp: separated.simps [of "c # cs"] operand_start_def)
    fix st'
    assume "st_ok st'" "stack st' = stack st" "Overrun \<in> bad \<Longrightarrow> roomy L ?r st'"
    with st(2) sep token_rest_shorter [OF rest] show "final_ok (arith_loop lk ncap ocap ?r st')" by (intro IH) auto
  qed (use st in auto)
  with s show ?thesis by simp
qed

lemma loop_operator:
  assumes st: "st_ok st" "length (stack st) + length s < ocap" "Overrun \<in> bad \<Longrightarrow> separated s \<and> roomy L s st"
    and IH: "\<And>r st'. length r < length s \<Longrightarrow> st_ok st' \<Longrightarrow> length (stack st') + length r < ocap \<Longrightarrow>
      (Overrun \<in> bad \<Longrightarrow> separated r \<and> roomy L r st') \<Longrightarrow> final_ok (arith_loop lk ncap ocap r st')"
    and s: "s = c # cs" "\<not> arith_isspace c" "endofname s = s" "\<not> isdigit_c c"
  shows "final_ok (arith_loop lk ncap ocap s st)"
proof (cases "find_op op_tokens s")
  case None
  with s tolerated show ?thesis by simp
next
  case (Some p)
  obtain op r where p: "p = (op, r)" by (cases p)
  have rest: "token_rest s = Some r" using s Some p by (simp add: token_rest_def)
  have sep: "Overrun \<in> bad \<Longrightarrow> separated r" using st(3) rest separated_rest by blast
  have step: "case operator_step lk ocap op st of Inl e \<Rightarrow> e \<notin> bad | Inr st' \<Rightarrow> st_ok st' \<and>
      length (numstack st') \<le> length (numstack st) \<and> length (stack st') \<le> Suc (length (stack st))"
    using st s(1) by (intro step_ok) auto
  have "\<not> operand_start s" using operand_start_Cons(3) s by simp
  with step st(2,3) sep token_rest_shorter [OF rest]
  have "final_ok (rbind (operator_step lk ocap op st) (\<lambda>st. arith_loop lk ncap ocap r st))"
    by (cases "operator_step lk ocap op st") (auto intro!: IH simp: roomy_def)
  with s Some p show ?thesis by simp
qed

lemma loop_ok:
  assumes "st_ok st" "length (stack st) + length s < ocap" "Overrun \<in> bad \<Longrightarrow> separated s \<and> roomy L s st" "L \<le> 2 * ncap"
  shows "final_ok (arith_loop lk ncap ocap s st)"
  using assms(1-3)
proof (induction "length s" arbitrary: s st rule: less_induct)
  case less
  show ?case
  proof (cases s)
    case Nil
    have step: "case operator_step lk ocap TOK_RPAREN st of Inl e \<Rightarrow> e \<notin> bad | Inr st' \<Rightarrow> st_ok st'"
      using step_ok [of st ocap TOK_RPAREN] less.prems by (auto split: sum.splits)
    then have "final_ok (rbind (operator_step lk ocap TOK_RPAREN st) (arith_end lk))"
      by (cases "operator_step lk ocap TOK_RPAREN st") (simp_all add: end_ok)
    with less.prems(1) Nil show ?thesis by (simp add: st_ok_def in64_def)
  next
    case (Cons c cs)
    consider (space) "arith_isspace c" | (name) "\<not> arith_isspace c" "endofname s \<noteq> s"
      | (digit) "\<not> arith_isspace c" "endofname s = s" "isdigit_c c"
      | (other) "\<not> arith_isspace c" "endofname s = s" "\<not> isdigit_c c" by blast
    then show ?thesis
    proof cases
      case space
      have "Overrun \<in> bad \<Longrightarrow> separated cs"
        using less.prems(3) separated_rest [of s cs] space Cons by (simp add: token_rest_def)
      then have "final_ok (arith_loop lk ncap ocap cs st)"
        using less.prems space operand_start_Cons(1) [of c cs] Cons by (intro less.hyps) (auto simp: roomy_def)
      with space Cons show ?thesis by simp
    next
      case name
      show ?thesis by (rule loop_name [OF less.prems assms(4) less.hyps Cons name])
    next
      case digit
      show ?thesis by (rule loop_digit [OF less.prems assms(4) less.hyps Cons digit])
    next
      case other
      show ?thesis by (rule loop_operator [OF less.prems less.hyps Cons other])
    qed
  qed
qed

end

subsection \<open>The text of a number\<close>

lemma number_in_digits: "number_in 10 acc s = digits acc s"
proof (induction "10 :: int" acc s rule: number_in.induct)
  case (2 acc c cs)
  have "(of_char c :: int) = int (of_char c)" by (rule of_nat_of_char [symmetric])
  then have "isdigit_c c \<longleftrightarrow> digit_in 10 c" "isdigit_c c \<Longrightarrow> digit_of c = digit_val c"
    using isdigit_int [of c] by (auto simp: digit_in_def digit_of_def digit_val_def Let_def)
  with 2 show ?case by simp
qed simp

lemma show_nat_first: "0 < n \<Longrightarrow> hd (show_nat n) \<noteq> CHR ''0''"
proof (induction n rule: show_nat.induct)
  case (1 n)
  show ?case
  proof (cases "n < 10")
    case True
    then have "digit_val (digit_char n) = int n" by (simp add: digit_char_simps)
    moreover have "digit_val CHR ''0'' = 0" by (simp add: digit_val_def)
    ultimately have "digit_char n \<noteq> CHR ''0''" using 1 by auto
    with True show ?thesis by (simp add: show_nat.simps [of n])
  next
    case False
    then have "0 < n div 10" by simp
    with 1 False show_nat_digits [of "n div 10"] show ?thesis by (simp add: show_nat.simps [of n])
  qed
qed

lemma strto_arith_t_show_nat: "strto_arith_t (show_nat n) = (if 2 ^ 64 \<le> int n then 0 else wrap64 (int n), [])"
proof (cases "n = 0")
  case True
  have "show_nat 0 = ''0''" by code_simp
  moreover have "strto_arith_t ''0'' = (0, [])" by code_simp
  ultimately show ?thesis using True by (simp add: wrap64_def)
next
  case False
  with show_nat_first [of n] show_nat_digits [of n] have "take 1 (show_nat n) \<noteq> ''0''"
    by (cases "show_nat n") auto
  then show ?thesis
    by (simp add: strto_arith_t_def strtoull_def number_in_digits digits_show_nat)
qed

lemma digit_first:
  assumes "isdigit_c c"
  shows "\<not> arith_isspace c" "endofname (c # cs) = c # cs" "c \<noteq> CHR ''-''" "c \<noteq> CHR ''=''"
  using assms by (auto simp: arith_isspace_def isdigit_c_def endofname_def is_name_def isalpha_c_def)

lemma show_nat_Cons: obtains c cs where "show_nat n = c # cs" "isdigit_c c"
  using show_nat_digits [of n] by (cases "show_nat n") auto

lemma reduce_paren: "reduce_loop lk TOK_RPAREN (TOK_LPAREN # ts) ns vs = Inr (ts, ns, vs)"
  by simp

lemma loop_number:
  assumes "numstack st = []" "0 < ncap"
  shows "arith_loop lk ncap ocap (show_nat n) st =
    rbind (operator_step lk ocap TOK_RPAREN
      (st\<lparr>lasttok := TOK_NUM, numstack := [num_slot (if 2 ^ 64 \<le> int n then 0 else wrap64 (int n))], seen := True\<rparr>))
      (arith_end lk)"
proof -
  obtain c cs where c: "show_nat n = c # cs" "isdigit_c c" by (rule show_nat_Cons)
  show ?thesis
    using strto_arith_t_show_nat [of n] digit_first [OF c(2)] c assms by (simp add: push_num_def)
qed

lemma find_op_minus: "c \<noteq> CHR ''-'' \<Longrightarrow> c \<noteq> CHR ''='' \<Longrightarrow> find_op op_tokens (CHR ''-'' # c # cs) = Some (TOK_SUB, c # cs)"
  by (simp add: op_tokens_def)

lemma loop_op:
  "\<not> arith_isspace c \<Longrightarrow> endofname (c # cs) = c # cs \<Longrightarrow> \<not> isdigit_c c \<Longrightarrow> find_op op_tokens (c # cs) = Some (op, r) \<Longrightarrow>
    arith_loop lk ncap ocap (c # cs) st = rbind (operator_step lk ocap op st) (\<lambda>st. arith_loop lk ncap ocap r st)"
  by simp

lemma minus_char:
  "\<not> arith_isspace CHR ''-''" "endofname (CHR ''-'' # cs) = CHR ''-'' # cs" "\<not> isdigit_c CHR ''-''"
  by (simp_all add: arith_isspace_def isdigit_c_def endofname_def is_name_def isalpha_c_def)

lemma wrap64_minus: "wrap64 (- wrap64 n) = wrap64 (- n)"
proof -
  have "(- ((n + 2 ^ 63) mod 2 ^ 64) + 2 ^ 64) mod 2 ^ 64 = (- (n + 2 ^ 63) + 2 ^ 64) mod (2 ^ 64 :: int)"
    by (metis mod_add_left_eq mod_minus_eq)
  then show ?thesis by (simp add: wrap64_def algebra_simps)
qed

lemma run_show_int:
  assumes lk: "\<And>t vs. var t = None \<Longrightarrow> lk t vs = Inr (t, vs)" and "in64 i" "0 < ncap" "1 < ocap"
  shows "arith_loop lk ncap ocap (show_int i) (arith_start vs) = Inr (i, vs)"
proof (cases "i < 0")
  case False
  with assms have "wrap64 i = i" "i < 2 ^ 64" by (simp_all add: wrap64_id in64_def)
  with False assms(3) show ?thesis
    by (simp add: show_int_def loop_number arith_start_def operator_step_def SPEC_PREC_def UNARYPREC_def arith_end_def
        num_slot_def)
next
  case True
  obtain c cs where c: "show_nat (nat (- i)) = c # cs" "isdigit_c c" by (rule show_nat_Cons)
  note first = digit_first [OF c(2)]
  have "operator_step lk ocap TOK_SUB (arith_start vs) =
      Inr (arith_start vs\<lparr>lasttok := TOK_UMINUS, stack := [TOK_UMINUS, TOK_LPAREN], seen := True\<rparr>)"
    using assms(4)
    by (simp add: operator_step_def arith_start_def prefix_form_def push_op_def UNARYPREC_def SPEC_PREC_def)
  then have "arith_loop lk ncap ocap (show_int i) (arith_start vs) = arith_loop lk ncap ocap (show_nat (nat (- i)))
      (arith_start vs\<lparr>lasttok := TOK_UMINUS, stack := [TOK_UMINUS, TOK_LPAREN], seen := True\<rparr>)"
    using loop_op [OF minus_char find_op_minus] True c first by (simp add: show_int_def del: arith_loop.simps)
  also have "\<dots> = Inr (wrap64 (- wrap64 (- i)), vs)"
    using assms True
    by (simp add: loop_number arith_start_def operator_step_def SPEC_PREC_def UNARYPREC_def arith_end_def
        num_slot_def arith_apply_def unary_rez_def store_rez_def tok_have_assign_def convert_prec_is_assing_def
        PREC_PRE_def PREC_POST_def in64_def)
  also have "wrap64 (- wrap64 (- i)) = i" using assms(2) by (simp add: wrap64_minus wrap64_id)
  finally show ?thesis .
qed

lemma separated_show_int: "separated (show_int i)"
proof -
  have nat: "separated (show_nat n)" for n
  proof -
    obtain c cs where c: "show_nat n = c # cs" "isdigit_c c" by (rule show_nat_Cons)
    then have "token_rest (show_nat n) = Some []"
      using digit_first [OF c(2)] strto_arith_t_show_nat [of n] by (simp add: token_rest_def)
    moreover have "token_rest [] = None" by (simp add: token_rest_def)
    ultimately show ?thesis by (simp add: separated.simps)
  qed
  obtain c cs where c: "show_nat (nat (- i)) = c # cs" "isdigit_c c" by (rule show_nat_Cons)
  then have "token_rest (CHR ''-'' # show_nat (nat (- i))) = Some (show_nat (nat (- i)))"
    using minus_char digit_first [OF c(2)] by (simp add: token_rest_def find_op_minus)
  with nat [of "nat (- i)"] minus_char have "separated (CHR ''-'' # show_nat (nat (- i)))"
    by (subst separated.simps) simp
  with nat show ?thesis by (simp add: show_int_def)
qed

subsection \<open>The evaluator meets the contract\<close>

lemma map_of_setvar: "map_of (setvar vs x t) = (map_of vs)(x \<mapsto> t)"
  by (induction vs x t rule: setvar.induct) auto

text \<open>
  \<open>D\<close> are the names that have a value at the start. Any other has been assigned, so its text is a number. The names under
  evaluation are distinct members of \<open>D\<close>, which bounds the recursion.
\<close>

definition bad_of :: "bool \<Rightarrow> math_error set" where
  "bad_of strict = (if strict then {NoFuel, Overrun} else {NoFuel})"

definition texts_ok :: "bool \<Rightarrow> string set \<Rightarrow> vars \<Rightarrow> bool" where
  "texts_ok strict D vs \<longleftrightarrow> (\<forall>x t. map_of vs x = Some t \<longrightarrow>
     (x \<notin> D \<longrightarrow> (\<exists>i. in64 i \<and> t = show_int i)) \<and> (strict \<longrightarrow> separated t))"

definition vars_ok :: "bool \<Rightarrow> string set \<Rightarrow> nat \<Rightarrow> string list \<Rightarrow> vars \<Rightarrow> bool" where
  "vars_ok strict D n chain vs \<longleftrightarrow>
     distinct chain \<and> set chain \<subseteq> D \<and> finite D \<and> card D + 1 \<le> n + length chain \<and> texts_ok strict D vs"

lemma texts_ok_setvar: "texts_ok strict D vs \<Longrightarrow> in64 v \<Longrightarrow> texts_ok strict D (setvar vs x (show_int v))"
  by (auto simp: texts_ok_def map_of_setvar separated_show_int)

lemma vars_ok_fuel: "vars_ok strict D n chain vs \<Longrightarrow> 0 < n"
  using card_mono [of D "set chain"] distinct_card [of chain] by (fastforce simp: vars_ok_def)

lemma vars_ok_deeper:
  assumes "vars_ok strict D (Suc m) chain vs" "x \<in> D" "x \<notin> set chain"
  shows "vars_ok strict D m (x # chain) vs"
  using assms by (auto simp: vars_ok_def)

lemma start_ok:
  assumes "evaluator lk ok bad" "ok vs" "Overrun \<in> bad \<Longrightarrow> separated s"
  shows "case arith_loop lk ((length s + 2) div 2) (length s + 2) s (arith_start vs) of
    Inl e \<Rightarrow> e \<notin> bad | Inr (v, vs') \<Rightarrow> in64 v \<and> ok vs'"
  using assms
  by (intro evaluator.loop_ok [where L = "length s"])
    (auto simp: evaluator.st_ok_def evaluator.roomy_def arith_start_def)

lemma fuel_evaluator:
  "evaluator (arith_lookup_val (arith_fuel n) chain) (vars_ok strict D n chain) (bad_of strict)"
proof (induction n arbitrary: chain)
  case 0
  show ?case by unfold_locales (auto dest: vars_ok_fuel simp: bad_of_def)
next
  case (Suc m)
  have run: "case arith_fuel (Suc m) (x # chain) vs p of Inl e \<Rightarrow> e \<notin> bad_of strict
      | Inr (v, vs') \<Rightarrow> in64 v \<and> vars_ok strict D (Suc m) chain vs'"
    if ok: "vars_ok strict D (Suc m) chain vs" and x: "map_of vs x = Some p" "x \<notin> set chain" for vs x p
  proof (cases "x \<in> D")
    case True
    have "separated p" if "Overrun \<in> bad_of strict"
      using that ok x by (auto simp: vars_ok_def texts_ok_def bad_of_def split: if_splits)
    from start_ok [OF Suc [of "x # chain"] vars_ok_deeper [OF ok True x(2)] this]
    show ?thesis using ok by (auto simp: Let_def vars_ok_def split: sum.splits)
  next
    case False
    with ok x obtain i where i: "in64 i" "p = show_int i" unfolding vars_ok_def texts_ok_def by blast
    have "arith_fuel (Suc m) (x # chain) vs p = Inr (i, vs)"
      unfolding arith_fuel.simps Let_def i(2) by (rule run_show_int) (use i in \<open>auto simp: arith_lookup_val_def\<close>)
    with i ok show ?thesis by simp
  qed
  show ?case
  proof
    fix vs t t' vs'
    assume ok: "vars_ok strict D (Suc m) chain vs" "slot_ok t" and l: "arith_lookup_val (arith_fuel (Suc m)) chain t vs = Inr (t', vs')"
    show "vars_ok strict D (Suc m) chain vs' \<and> slot_ok t'"
      using ok l run [OF ok(1)]
      by (fastforce simp: arith_lookup_val_def lookupvar_def slot_ok_def rbind_Inr in64_def [of 0] simp del: arith_fuel.simps
          split: option.splits if_splits)
  next
    fix vs t e
    assume ok: "vars_ok strict D (Suc m) chain vs" and l: "arith_lookup_val (arith_fuel (Suc m)) chain t vs = Inl e"
    show "e \<notin> bad_of strict"
      using l run [OF ok]
      by (fastforce simp: arith_lookup_val_def lookupvar_def rbind_Inl bad_of_def simp del: arith_fuel.simps
          split: option.splits if_splits)
  next
    fix vs v x
    assume "vars_ok strict D (Suc m) chain vs" "in64 v"
    then show "vars_ok strict D (Suc m) chain (setvar vs x (show_int v))"
      by (simp add: vars_ok_def texts_ok_setvar)
  qed (simp_all add: bad_of_def)
qed

interpretation lookup: evaluator "arith_lookup_val (arith_fuel n) chain" "vars_ok strict D n chain" "bad_of strict"
  for n chain strict D
  by (rule fuel_evaluator)

lemma arith_ok:
  assumes "strict \<Longrightarrow> separated expr \<and> (\<forall>(x, t)\<in>set vs. separated t)"
  shows "case arith vs expr of Inl e \<Rightarrow> e \<notin> bad_of strict | Inr (v, vs') \<Rightarrow> in64 v"
proof -
  let ?n = "length vs + 1"
  have "card (fst ` set vs) \<le> length vs" by (metis card_image_le card_length finite_set le_trans)
  moreover have "texts_ok strict (fst ` set vs) vs"
    using assms by (force simp: texts_ok_def map_of_eq_None_iff dest: map_of_SomeD)
  ultimately have "vars_ok strict (fst ` set vs) ?n [] vs" by (simp add: vars_ok_def)
  moreover have "separated expr" if "Overrun \<in> bad_of strict"
    using that assms by (auto simp: bad_of_def split: if_splits)
  ultimately show ?thesis
    using start_ok [OF fuel_evaluator [of ?n "[]" strict "fst ` set vs"], of vs expr]
    by (simp add: arith_def Let_def split: sum.splits prod.splits)
qed

subsection \<open>Properties\<close>

text \<open>
  C23: arithmetic expansion ends on every text and every set of variables, variables that refer to each other included: the recursion
  through their texts is bounded by their number. A result fits the 64-bit type.
\<close>

theorem arith_returns:
  "case arith vs expr of Inl e \<Rightarrow> e \<noteq> NoFuel | Inr (v, vs') \<Rightarrow> in64 v"
  using arith_ok [of False expr vs] by (auto simp: bad_of_def split: sum.splits)

text \<open>
  The operand stack has room for half the length of the text plus one, which the source claims to suffice for every
  expression. It does not: \<open>1a+1a\<close> is read as four operands, and the fourth is written behind the
  block of three.
\<close>

lemma arith_overruns: "arith vs ''1a+1a'' = Inl Overrun"
proof -
  have "arith_loop lk 3 7 ''1a+1a'' (arith_start vs) = Inl Overrun" for lk
    by (simp add: arith_start_def arith_isspace_def endofname_def is_name_def is_in_name_def isalpha_c_def isdigit_c_def
        push_num_def strto_arith_t_def strtoull_def hex_prefix_def digit_in_def op_tokens_def operator_step_def
        UNARYPREC_def SPEC_PREC_def stays_def convert_prec_is_assing_def push_op_def)
  then have "arith_loop lk (7 div 2) 7 ''1a+1a'' (arith_start vs) = Inl Overrun" for lk by (simp del: arith_loop.simps)
  moreover have "length ''1a+1a'' + 2 = 7" by simp
  ultimately show ?thesis unfolding arith_def Let_def add_2_eq_Suc' arith_fuel.simps by (simp only:)
qed

text \<open>
  C24: the two stacks, sized by the length of the text, are large enough when no number is directly followed by a letter, a
  digit or an underscore, in the text and in the variables it may evaluate. The condition is needed: \<open>1a+1a\<close> writes behind a stack.
\<close>

theorem arith_within_stacks:
  assumes "separated expr" and "\<forall>(x, t)\<in>set vs. separated t"
  shows "arith vs expr \<noteq> Inl Overrun \<and> arith vs ''1a+1a'' = Inl Overrun"
  using arith_ok [of True expr vs] assms arith_overruns [of vs] by (auto simp: bad_of_def split: sum.splits)

theorem arith_within_stacks_witness:
  "arith [(''a'', ''b + 1''), (''b'', ''4'')] ''a * 2'' \<noteq> Inl Overrun"
proof -
  have "separated ''a * 2''" "\<forall>(x, t)\<in>set [(''a'', ''b + 1''), (''b'', ''4'')]. separated t" by code_simp+
  from arith_within_stacks [OF this] show ?thesis by blast
qed

end
