(* ===== verification/Shell_Math_Grammar.thy ===== *)
theory Shell_Math_Grammar
  imports Shell_Math_Run
begin

text \<open>
  What arithmetic expansion computes: the text of an expression tree, printed with the parentheses that
  precedence and associativity ask for, evaluates to the value of the tree. Operands are evaluated from left
  to right, all of them, and a variable is looked up only when an operator is applied to it.
\<close>

subsection \<open>Trees\<close>

datatype mexp = Num nat | Var string | Pre operator mexp | Post operator mexp | Bin operator mexp mexp
  | Cond mexp mexp mexp

definition prefix_ops :: "operator list" where
  "prefix_ops = [TOK_UMINUS, TOK_UPLUS, TOK_NOT, TOK_BNOT, TOK_PRE_INC, TOK_PRE_DEC]"

definition postfix_ops :: "operator list" where
  "postfix_ops = [TOK_POST_INC, TOK_POST_DEC]"

definition binary_ops :: "operator list" where
  "binary_ops = [TOK_COMMA, TOK_ASSIGN, TOK_AND_ASSIGN, TOK_OR_ASSIGN, TOK_XOR_ASSIGN, TOK_PLUS_ASSIGN, TOK_MINUS_ASSIGN,
     TOK_LSHIFT_ASSIGN, TOK_RSHIFT_ASSIGN, TOK_MUL_ASSIGN, TOK_DIV_ASSIGN, TOK_REM_ASSIGN, TOK_OR, TOK_AND, TOK_BOR,
     TOK_BXOR, TOK_BAND, TOK_EQ, TOK_NE, TOK_LT, TOK_GT, TOK_GE, TOK_LE, TOK_LSHIFT, TOK_RSHIFT, TOK_ADD, TOK_SUB,
     TOK_MUL, TOK_DIV, TOK_REM, TOK_EXPONENT]"

definition is_var_name :: "string \<Rightarrow> bool" where
  "is_var_name x \<longleftrightarrow> (case x of [] \<Rightarrow> False | c # cs \<Rightarrow> is_name c \<and> (\<forall>d\<in>set cs. is_in_name d))"

fun wf_mexp :: "mexp \<Rightarrow> bool" where
  "wf_mexp (Num n) \<longleftrightarrow> int n < 2 ^ 63"
| "wf_mexp (Var x) \<longleftrightarrow> is_var_name x"
| "wf_mexp (Pre op e) \<longleftrightarrow> op \<in> set prefix_ops \<and> wf_mexp e"
| "wf_mexp (Post op e) \<longleftrightarrow> op \<in> set postfix_ops \<and> wf_mexp e"
| "wf_mexp (Bin op l r) \<longleftrightarrow> op \<in> set binary_ops \<and> wf_mexp l \<and> wf_mexp r"
| "wf_mexp (Cond a b c) \<longleftrightarrow> wf_mexp a \<and> wf_mexp b \<and> wf_mexp c"

subsection \<open>Printing\<close>

datatype mtok = TNum nat | TVar string | TOp operator

abbreviation rank :: "operator \<Rightarrow> nat" where
  "rank op \<equiv> convert_prec_is_assing (PREC op)"

fun level_of :: "mexp \<Rightarrow> nat" where
  "level_of (Num n) = 20"
| "level_of (Var x) = 20"
| "level_of (Pre op e) = 16"
| "level_of (Post op e) = 19"
| "level_of (Bin op l r) = rank op"
| "level_of (Cond a b c) = 4"

definition parens :: "nat \<Rightarrow> mexp \<Rightarrow> mtok list \<Rightarrow> mtok list" where
  "parens p e ts = (if level_of e < p then TOp TOK_LPAREN # ts @ [TOp TOK_RPAREN] else ts)"

definition left_level :: "operator \<Rightarrow> nat" where
  "left_level op = (if is_right_associativity (rank op) then Suc (rank op) else rank op)"

definition right_level :: "operator \<Rightarrow> nat" where
  "right_level op = (if is_right_associativity (rank op) then rank op else Suc (rank op))"

fun body :: "mexp \<Rightarrow> mtok list" where
  "body (Num n) = [TNum n]"
| "body (Var x) = [TVar x]"
| "body (Pre op e) = TOp op # parens 16 e (body e)"
| "body (Post op e) = parens 20 e (body e) @ [TOp op]"
| "body (Bin op l r) = parens (left_level op) l (body l) @ TOp op # parens (right_level op) r (body r)"
| "body (Cond a b c) = parens 5 a (body a) @ TOp TOK_CONDITIONAL # parens 5 b (body b)
     @ TOp TOK_CONDITIONAL_SEP # parens 4 c (body c)"

definition base_form :: "operator \<Rightarrow> operator" where
  "base_form op =
     (if op = TOK_UPLUS then TOK_ADD else if op = TOK_UMINUS then TOK_SUB
      else if op = TOK_PRE_INC then TOK_POST_INC else if op = TOK_PRE_DEC then TOK_POST_DEC else op)"

fun op_text :: "(string \<times> operator) list \<Rightarrow> operator \<Rightarrow> string" where
  "op_text [] op = []"
| "op_text ((t, op') # ts) op = (if op' = op then t else op_text ts op)"

fun tok_text :: "mtok \<Rightarrow> string" where
  "tok_text (TNum n) = show_nat n @ '' ''"
| "tok_text (TVar x) = x @ '' ''"
| "tok_text (TOp op) = op_text op_tokens (base_form op) @ '' ''"

definition text_of :: "mtok list \<Rightarrow> string" where
  "text_of ts = concat (map tok_text ts)"

definition mexp_text :: "mexp \<Rightarrow> string" where
  "mexp_text e = text_of (body e)"

subsection \<open>Meaning\<close>

type_synonym lookup = "v_n_t \<Rightarrow> vars \<Rightarrow> (v_n_t \<times> vars) math"

definition apply1 :: "lookup \<Rightarrow> operator \<Rightarrow> v_n_t \<Rightarrow> vars \<Rightarrow> (v_n_t \<times> vars) math" where
  "apply1 lk op a vs = rbind (lk a vs) (\<lambda>(a, vs). store_rez op (the (unary_rez op (val a))) a vs)"

definition apply2 :: "lookup \<Rightarrow> operator \<Rightarrow> v_n_t \<Rightarrow> v_n_t \<Rightarrow> vars \<Rightarrow> (v_n_t \<times> vars) math" where
  "apply2 lk op a b vs =
     rbind (lk b vs) (\<lambda>(b, vs). rbind (if op \<noteq> TOK_ASSIGN then lk a vs else Inr (a, vs)) (\<lambda>(a, vs).
       rbind (binary_rez op (val a) (val b)) (\<lambda>z. store_rez op z a vs)))"

definition apply3 :: "lookup \<Rightarrow> v_n_t \<Rightarrow> v_n_t \<Rightarrow> v_n_t \<Rightarrow> vars \<Rightarrow> (v_n_t \<times> vars) math" where
  "apply3 lk a b c vs =
     rbind (lk c vs) (\<lambda>(c, vs). rbind (lk b vs) (\<lambda>(b, vs). rbind (lk a vs) (\<lambda>(a, vs).
       Inr (a\<lparr>val := if val a \<noteq> 0 then val b else val c, contidional_second_val := val c, var := None\<rparr>, vs))))"

fun msem :: "lookup \<Rightarrow> mexp \<Rightarrow> vars \<Rightarrow> (v_n_t \<times> vars) math" where
  "msem lk (Num n) vs = Inr (num_slot (int n), vs)"
| "msem lk (Var x) vs = Inr (var_slot x, vs)"
| "msem lk (Pre op e) vs = rbind (msem lk e vs) (\<lambda>(a, vs). apply1 lk op a vs)"
| "msem lk (Post op e) vs = rbind (msem lk e vs) (\<lambda>(a, vs). apply1 lk op a vs)"
| "msem lk (Bin op l r) vs = rbind (msem lk l vs) (\<lambda>(a, vs). rbind (msem lk r vs) (\<lambda>(b, vs). apply2 lk op a b vs))"
| "msem lk (Cond a b c) vs = rbind (msem lk a vs) (\<lambda>(a, vs). rbind (msem lk b vs) (\<lambda>(b, vs).
     rbind (msem lk c vs) (\<lambda>(c, vs). apply3 lk a b c vs)))"

subsection \<open>Reading printed tokens\<close>

definition all_ops :: "operator list" where
  "all_ops = prefix_ops @ postfix_ops @ binary_ops @ [TOK_CONDITIONAL, TOK_CONDITIONAL_SEP, TOK_LPAREN, TOK_RPAREN]"

lemma is_prefix_space: "CHR '' '' \<notin> set t \<Longrightarrow> is_prefix t (u @ CHR '' '' # r) \<longleftrightarrow> is_prefix t u"
proof (induction t u rule: is_prefix.induct)
  case (2 x xs)
  then show ?case by auto
qed simp_all

lemma find_op_space:
  assumes "\<forall>(t, op)\<in>set ts. CHR '' '' \<notin> set t" "find_op ts u = Some (op, [])"
  shows "find_op ts (u @ CHR '' '' # r) = Some (op, CHR '' '' # r)"
  using assms
proof (induction ts)
  case (Cons p ts)
  obtain t op' where p: "p = (t, op')" by (cases p)
  show ?case
  proof (cases "is_prefix t u")
    case True
    then have "length t \<le> length u" by (auto simp: is_prefix_iff)
    with True Cons.prems p show ?thesis by (auto simp: is_prefix_space)
  next
    case False
    with Cons p show ?thesis by (auto simp: is_prefix_space)
  qed
qed simp

lemma ops_read:
  "\<forall>(t, op)\<in>set op_tokens. CHR '' '' \<notin> set t"
  "\<forall>op\<in>set all_ops. find_op op_tokens (op_text op_tokens (base_form op)) = Some (base_form op, [])"
  "\<forall>op\<in>set all_ops. (case op_text op_tokens (base_form op) of [] \<Rightarrow> False
     | c # _ \<Rightarrow> \<not> arith_isspace c \<and> \<not> is_name c \<and> \<not> isdigit_c c)"
  by code_simp+

lemma find_op_text:
  "op \<in> set all_ops \<Longrightarrow>
    find_op op_tokens (op_text op_tokens (base_form op) @ CHR '' '' # r) = Some (base_form op, CHR '' '' # r)"
  using ops_read(1,2) by (intro find_op_space) auto

lemma op_text_first:
  assumes "op \<in> set all_ops"
  obtains c cs where "op_text op_tokens (base_form op) = c # cs"
    "\<not> arith_isspace c" "\<not> is_name c" "\<not> isdigit_c c"
  using bspec [OF ops_read(3) assms] by (cases "op_text op_tokens (base_form op)") auto

lemma loop_space: "arith_loop lk ncap ocap (CHR '' '' # r) st = arith_loop lk ncap ocap r st"
  by (simp add: arith_isspace_def)

lemma loop_op_text:
  assumes "op \<in> set all_ops"
  shows "arith_loop lk ncap ocap (tok_text (TOp op) @ r) st =
    rbind (operator_step lk ocap (base_form op) st) (\<lambda>st. arith_loop lk ncap ocap r st)"
proof -
  obtain c cs where c: "op_text op_tokens (base_form op) = c # cs" "\<not> arith_isspace c" "\<not> is_name c" "\<not> isdigit_c c"
    using assms by (rule op_text_first)
  have "arith_loop lk ncap ocap (c # cs @ CHR '' '' # r) st =
      rbind (operator_step lk ocap (base_form op) st) (\<lambda>st. arith_loop lk ncap ocap (CHR '' '' # r) st)"
    using find_op_text [OF assms, of r] c by (intro loop_op) (simp_all add: endofname_def)
  then show ?thesis by (simp add: c(1) loop_space del: arith_loop.simps)
qed

lemma space_char: "\<not> is_in_name CHR '' ''" "\<not> isdigit_c CHR '' ''"
  by (simp_all add: is_in_name_def isalpha_c_def isdigit_c_def)

lemma loop_var_text:
  assumes "is_var_name x" "length (numstack st) < ncap"
  shows "arith_loop lk ncap ocap (tok_text (TVar x) @ r) st =
    arith_loop lk ncap ocap r (st\<lparr>lasttok := TOK_NUM, numstack := var_slot x # numstack st, seen := True\<rparr>)"
proof -
  obtain c cs where c: "x = c # cs" "is_name c" "\<forall>d\<in>set cs. is_in_name d"
    using assms(1) by (auto simp: is_var_name_def split: list.splits)
  have "endofname (c # cs @ CHR '' '' # r) = CHR '' '' # r"
    using c space_char by (simp add: endofname_def dropWhile_append2)
  moreover have "\<not> arith_isspace c" using c(2) by (auto simp: arith_isspace_def is_name_def isalpha_c_def)
  ultimately have "arith_loop lk ncap ocap (c # cs @ CHR '' '' # r) st = arith_loop lk ncap ocap (CHR '' '' # r)
      (st\<lparr>lasttok := TOK_NUM, numstack := var_slot (c # cs) # numstack st, seen := True\<rparr>)"
    using assms(2) by (subst arith_loop.simps) (simp add: push_num_def del: arith_loop.simps)
  then show ?thesis using c(1) by (simp add: loop_space del: arith_loop.simps)
qed

lemma strto_arith_t_text:
  assumes "int n < 2 ^ 63"
  shows "strto_arith_t (show_nat n @ CHR '' '' # r) = (int n, CHR '' '' # r)"
proof -
  have small: "wrap64 (int n) = int n" "\<not> 2 ^ 64 \<le> int n"
    using assms by (simp_all add: wrap64_id in64_def)
  have dec: "number_in 10 0 (show_nat n @ CHR '' '' # r) = (int n, CHR '' '' # r)"
    using show_nat_digits [of n] space_char
    by (simp add: number_in_digits digits_append digits_show_nat)
  show ?thesis
  proof (cases "n = 0")
    case True
    have "show_nat 0 = ''0''" by code_simp
    moreover have "\<not> hex_prefix (''0 '' @ r)" by (simp add: hex_prefix_def)
    moreover have "\<not> digit_in 8 CHR '' ''" "digit_in 8 CHR ''0''" "digit_of CHR ''0'' = 0"
      by (simp_all add: digit_in_def digit_of_def)
    ultimately show ?thesis using True by (simp add: strto_arith_t_def strtoull_def wrap64_def)
  next
    case False
    with show_nat_first [of n] show_nat_digits [of n] have "take 1 (show_nat n @ CHR '' '' # r) \<noteq> ''0''"
      by (cases "show_nat n") auto
    with dec small show ?thesis by (simp add: strto_arith_t_def strtoull_def)
  qed
qed

lemma loop_num_text:
  assumes "int n < 2 ^ 63" "length (numstack st) < ncap"
  shows "arith_loop lk ncap ocap (tok_text (TNum n) @ r) st =
    arith_loop lk ncap ocap r (st\<lparr>lasttok := TOK_NUM, numstack := num_slot (int n) # numstack st, seen := True\<rparr>)"
proof -
  obtain c cs where c: "show_nat n = c # cs" "isdigit_c c" by (rule show_nat_Cons)
  have "arith_loop lk ncap ocap (c # cs @ CHR '' '' # r) st = arith_loop lk ncap ocap (CHR '' '' # r)
      (st\<lparr>lasttok := TOK_NUM, numstack := num_slot (int n) # numstack st, seen := True\<rparr>)"
    using strto_arith_t_text [OF assms(1), of r] digit_first [OF c(2)] c assms(2)
    by (subst arith_loop.simps) (simp add: push_num_def del: arith_loop.simps)
  then show ?thesis using c(1) by (simp add: loop_space del: arith_loop.simps)
qed

subsection \<open>Operators on the stack\<close>

definition between :: "operator \<Rightarrow> bool" where
  "between op \<longleftrightarrow> op \<in> set binary_ops \<or> op = TOK_CONDITIONAL \<or> op = TOK_CONDITIONAL_SEP"

text \<open>No operator of rank \<open>p\<close> or higher takes the top of the stack away.\<close>

definition holds :: "operator list \<Rightarrow> nat \<Rightarrow> bool" where
  "holds ts p \<longleftrightarrow> (case ts of [] \<Rightarrow> True | t # _ \<Rightarrow> \<forall>op. between op \<and> p \<le> rank op \<longrightarrow> stays op t)"

text \<open>The operator takes away everything of rank \<open>p\<close> or higher.\<close>

definition closes :: "operator \<Rightarrow> nat \<Rightarrow> bool" where
  "closes op p \<longleftrightarrow> p = 20 \<or> op = TOK_RPAREN
     \<or> between op \<and> (rank op < p \<or> rank op = p \<and> \<not> is_right_associativity p)"

lemma holds_mono: "holds ts p \<Longrightarrow> p \<le> q \<Longrightarrow> holds ts q"
  by (auto simp: holds_def split: list.splits)

lemma closes_mono: "closes op p \<Longrightarrow> p \<le> q \<Longrightarrow> q < 20 \<Longrightarrow> closes op q"
  by (auto simp: closes_def)

lemma between_cases: "\<forall>op. between op \<longrightarrow> base_form op = op \<and> op \<in> set all_ops \<and> 0 < PREC op \<and> PREC op < 16 \<and> rank op \<le> 15
    \<and> 0 < rank op \<and> prefix_form op \<in> {op, TOK_UPLUS, TOK_UMINUS} \<and> op \<noteq> TOK_RPAREN \<and> unary_rez op v = None"
proof
  fix op
  show "between op \<longrightarrow> base_form op = op \<and> op \<in> set all_ops \<and> 0 < PREC op \<and> PREC op < 16 \<and> rank op \<le> 15
    \<and> 0 < rank op \<and> prefix_form op \<in> {op, TOK_UPLUS, TOK_UMINUS} \<and> op \<noteq> TOK_RPAREN \<and> unary_rez op v = None"
    by (cases op) (simp_all add: between_def binary_ops_def base_form_def all_ops_def prefix_form_def
        convert_prec_is_assing_def unary_rez_def)
qed

lemma binary_facts:
  assumes "op \<in> set binary_ops"
  shows "between op" "base_form op = op" "op \<in> set all_ops" "rank op \<le> 15" "0 < rank op"
  using assms between_cases by (simp_all add: between_def)

lemma between_rank: "between op \<Longrightarrow> rank op \<le> 15"
  using between_cases by blast

lemma holds_high: "16 \<le> p \<Longrightarrow> holds ts p"
  by (auto simp: holds_def split: list.split dest: between_rank)

lemma holds_paren: "holds (TOK_LPAREN # ts) p"
  using between_cases by (auto simp: holds_def stays_def convert_prec_is_assing_def)

lemma holds_right:
  assumes "rank t \<le> p" "rank t = p \<longrightarrow> is_right_associativity p"
  shows "holds (t # ts) p"
  using assms by (auto simp: holds_def stays_def Let_def) (metis leD le_antisym order_trans not_less)+

subsection \<open>Single steps\<close>

definition state :: "operator \<Rightarrow> operator list \<Rightarrow> v_n_t list \<Rightarrow> vars \<Rightarrow> arith_state" where
  "state lt ts ns vs = \<lparr>lasttok = lt, stack = ts, numstack = ns, seen = True, vars_of = vs\<rparr>"

lemma state_simps [simp]:
  "lasttok (state lt ts ns vs) = lt" "stack (state lt ts ns vs) = ts" "numstack (state lt ts ns vs) = ns"
  "seen (state lt ts ns vs)" "vars_of (state lt ts ns vs) = vs"
  by (simp_all add: state_def)

lemma state_seen: "st\<lparr>lasttok := lt, numstack := ns, seen := True\<rparr> = state lt (stack st) ns (vars_of st)"
  by (cases st) (simp add: state_def)

definition ends_operand :: "operator \<Rightarrow> bool" where
  "ends_operand op \<longleftrightarrow> op = TOK_NUM \<or> op = TOK_POST_INC \<or> op = TOK_POST_DEC"

definition takes :: "operator \<Rightarrow> operator \<Rightarrow> bool" where
  "takes op t \<longleftrightarrow> op = TOK_RPAREN \<and> t \<noteq> TOK_LPAREN \<or> between op \<and> \<not> stays op t"

lemma closes_takes: "closes op p \<Longrightarrow> p \<le> rank t \<Longrightarrow> p < 20 \<Longrightarrow> t \<noteq> TOK_LPAREN \<Longrightarrow> takes op t"
  by (auto simp: closes_def takes_def stays_def Let_def)

lemma between_prec: "between op \<or> op = TOK_RPAREN \<Longrightarrow> 0 < PREC op \<and> PREC op < UNARYPREC \<or> PREC op = SPEC_PREC"
  using between_cases by (auto simp: UNARYPREC_def SPEC_PREC_def)

lemma step_takes:
  assumes "ends_operand lt" "takes op t"
  shows "operator_step lk cap op (state lt (t # ts) ns vs) = rbind (arith_apply lk t ns vs)
    (\<lambda>(ns, vs). operator_step lk cap op (state TOK_NUM ts ns vs))"
  using assms between_prec [of op] between_cases
  by (auto simp: operator_step_def Let_def rbind_assoc takes_def ends_operand_def state_def
      intro!: arg_cong [where f = "rbind _"] ext split: prod.split)

lemma step_prefix:
  assumes "op \<in> set prefix_ops \<or> op = TOK_LPAREN" "\<not> ends_operand (lasttok st)" "length (stack st) < cap"
  shows "operator_step lk cap (base_form op) st = Inr (state op (op # stack st) (numstack st) (vars_of st))"
proof -
  have "prefix_form (base_form op) = op" "\<not> (0 < PREC op \<and> PREC op < UNARYPREC \<or> PREC op = SPEC_PREC)"
    using assms(1) by (auto simp: prefix_ops_def prefix_form_def base_form_def UNARYPREC_def SPEC_PREC_def)
  with assms(2,3) show ?thesis
    by (cases st) (auto simp: operator_step_def Let_def push_op_def state_def ends_operand_def)
qed

lemma step_postfix:
  assumes "op \<in> set postfix_ops" "length ts < cap"
  shows "operator_step lk cap op (state TOK_NUM ts ns vs) = Inr (state op (op # ts) ns vs)"
  using assms by (auto simp: postfix_ops_def operator_step_def push_op_def state_def UNARYPREC_def SPEC_PREC_def)

lemma step_between:
  assumes "between op" "holds ts p" "p \<le> rank op" "length ts < cap"
  shows "operator_step lk cap op (state TOK_NUM ts ns vs) = Inr (state op (op # ts) ns vs)"
proof -
  have "op \<noteq> TOK_RPAREN" using assms(1) between_cases by auto
  then have "reduce_loop lk op ts ns vs = Inr (ts, ns, vs)"
    using assms(1-3) by (cases ts) (auto simp: holds_def)
  with between_prec [of op] assms(1,4) \<open>op \<noteq> TOK_RPAREN\<close> show ?thesis
    by (simp add: operator_step_def Let_def push_op_def state_def)
qed

lemma step_close: "operator_step lk cap TOK_RPAREN (state TOK_NUM (TOK_LPAREN # ts) ns vs) = Inr (state TOK_NUM ts ns vs)"
  by (simp add: operator_step_def state_def SPEC_PREC_def UNARYPREC_def)

fun operands :: "mtok list \<Rightarrow> nat" where
  "operands [] = 0"
| "operands (TOp op # ts) = operands ts"
| "operands (t # ts) = Suc (operands ts)"

fun operators :: "mtok list \<Rightarrow> nat" where
  "operators [] = 0"
| "operators (TOp op # ts) = Suc (operators ts)"
| "operators (t # ts) = operators ts"

lemma operands_append [simp]: "operands (ts @ us) = operands ts + operands us"
  by (induction ts rule: operands.induct) auto

lemma operators_append [simp]: "operators (ts @ us) = operators ts + operators us"
  by (induction ts rule: operators.induct) auto

lemma text_of_simps [simp]: "text_of [] = []" "text_of (t # ts) = tok_text t @ text_of ts" "text_of (ts @ us) = text_of ts @ text_of us"
  by (simp_all add: text_of_def)

lemma operands_parens [simp]: "operands (parens p e ts) = operands ts"
  by (simp add: parens_def)

lemma operands_pos: "0 < operands (body e)"
  by (induction e) simp_all

lemma level_bounds: "wf_mexp e \<Longrightarrow> 0 < level_of e \<and> level_of e \<le> 20"
proof (cases e)
  case (Bin op l r)
  then show "wf_mexp e \<Longrightarrow> ?thesis" using binary_facts(4,5) [of op] by simp
qed simp_all

subsection \<open>Applying operators to operands\<close>

text \<open>What \<open>arith_lookup_val\<close> does to an operand: nothing to a number, and otherwise it sets the value only.\<close>

locale operand_source =
  fixes lk :: lookup
  assumes plain: "var t = None \<Longrightarrow> lk t vs = Inr (t, vs)"
    and sets_value: "lk t vs = Inr (t', vs') \<Longrightarrow> t' = t\<lparr>val := val t'\<rparr>"
begin

lemma apply_unary:
  "unary_rez op 0 \<noteq> None \<Longrightarrow>
    arith_apply lk op (a # ns) vs = rbind (apply1 lk op a vs) (\<lambda>(m, vs). Inr (m # ns, vs))"
  by (cases "lk a vs") (auto simp: arith_apply_def apply1_def unary_rez_def split: if_splits)

lemma flag_kept: "lk t vs = Inr (t', vs') \<Longrightarrow> contidional_second_val_initialized t' = contidional_second_val_initialized t"
  using sets_value by (metis v_n_t.ext_inject v_n_t.surjective v_n_t.update_convs(1))

lemma apply_between:
  assumes "op \<in> set binary_ops" "\<not> contidional_second_val_initialized b"
  shows "arith_apply lk op (b # a # ns) vs = rbind (apply2 lk op a b vs) (\<lambda>(m, vs). Inr (m # ns, vs))"
proof -
  have op: "between op" "op \<noteq> TOK_CONDITIONAL" "op \<noteq> TOK_CONDITIONAL_SEP"
    using assms(1) by (auto simp: between_def binary_ops_def)
  with between_cases have "unary_rez op v = None" for v by blast
  with op flag_kept [of b vs] assms(2) show ?thesis
    by (cases "lk b vs")
      (auto simp: arith_apply_def apply2_def apply_binary_def rbind_assoc Let_def intro!: arg_cong [where f = "rbind _"] ext
        split: prod.split)
qed

lemma store_plain: "rank op = 4 \<Longrightarrow> store_rez op z m vs = Inr (m\<lparr>val := z, var := None\<rparr>, vs)"
  by (simp add: store_rez_def tok_have_assign_def PREC_PRE_def PREC_POST_def UNARYPREC_def)

lemma cond_unary: "unary_rez TOK_CONDITIONAL v = None" "unary_rez TOK_CONDITIONAL_SEP v = None"
  by (simp_all add: unary_rez_def)

lemma apply_conditional:
  assumes "\<not> contidional_second_val_initialized c"
  shows "rbind (arith_apply lk TOK_CONDITIONAL_SEP (c # b # a # ns) vs) (\<lambda>(ns, vs). arith_apply lk TOK_CONDITIONAL ns vs) =
    rbind (apply3 lk a b c vs) (\<lambda>(m, vs). Inr (m # ns, vs))"
proof (cases "lk c vs")
  case (Inr p)
  obtain c' vs1 where c': "lk c vs = Inr (c', vs1)" "\<not> contidional_second_val_initialized c'"
    using Inr flag_kept [of c vs] assms by (cases p) auto
  show ?thesis
  proof (cases "lk b vs1")
    case (Inr q)
    obtain b' vs2 where b': "lk b vs1 = Inr (b', vs2)" using Inr by (cases q) auto
    have "contidional_second_val_initialized (b'\<lparr>contidional_second_val := x, contidional_second_val_initialized := True, val := y, var := None\<rparr>)"
      for x y by simp
    with c' b' plain show ?thesis
      by (cases "lk a vs2")
        (auto simp: arith_apply_def apply3_def apply_binary_def cond_unary store_plain convert_prec_is_assing_def)
  qed (use c' in \<open>simp add: arith_apply_def apply3_def apply_binary_def cond_unary\<close>)
qed (simp add: arith_apply_def apply3_def)

lemma store_flag:
  "store_rez op z m vs = Inr (m', vs') \<Longrightarrow> contidional_second_val_initialized m' = contidional_second_val_initialized m"
  by (auto simp: store_rez_def Let_def split: if_splits option.splits)

lemma msem_flag: "msem lk e vs = Inr (t, vs') \<Longrightarrow> \<not> contidional_second_val_initialized t"
  by (induction e arbitrary: vs t vs')
    (auto simp: rbind_Inr num_slot_def var_slot_def apply1_def apply2_def apply3_def split: if_splits
      dest!: store_flag flag_kept)

text \<open>A text whose first token is the operator \<open>op\<close>; the end of the text counts as a closing parenthesis.\<close>

definition leads :: "nat \<Rightarrow> nat \<Rightarrow> string \<Rightarrow> operator \<Rightarrow> bool" where
  "leads ncap ocap suf op \<longleftrightarrow>
     (\<exists>k. \<forall>st. seen st \<longrightarrow> arith_loop lk ncap ocap suf st = rbind (operator_step lk ocap op st) k)"

lemma leads_text: "op \<in> set all_ops \<Longrightarrow> base_form op = op \<Longrightarrow> leads ncap ocap (tok_text (TOp op) @ r) op"
  unfolding leads_def loop_op_text by (intro exI [of _ "arith_loop lk ncap ocap r"]) simp

lemma leads_end: "leads ncap ocap [] TOK_RPAREN"
  unfolding leads_def by (intro exI [of _ "arith_end lk"]) simp

lemma loop_takes:
  assumes "leads ncap ocap suf op" "ends_operand lt" "takes op t"
  shows "arith_loop lk ncap ocap suf (state lt (t # ts) ns vs) =
    rbind (arith_apply lk t ns vs) (\<lambda>(ns, vs). arith_loop lk ncap ocap suf (state TOK_NUM ts ns vs))"
proof -
  obtain k where k: "arith_loop lk ncap ocap suf st = rbind (operator_step lk ocap op st) k" if "seen st" for st
    using assms(1) by (auto simp: leads_def)
  show ?thesis
    by (simp add: k step_takes [OF assms(2,3)] rbind_assoc case_prod_unfold)
qed

text \<open>
  The text of \<open>e\<close> followed by an operator that closes rank \<open>p\<close> has the effect of pushing the value of \<open>e\<close>.
\<close>

definition runs :: "mexp \<Rightarrow> mtok list \<Rightarrow> nat \<Rightarrow> bool" where
  "runs e ts p \<longleftrightarrow> (\<forall>ncap ocap suf op st. leads ncap ocap suf op \<longrightarrow> closes op p \<longrightarrow> holds (stack st) p
     \<longrightarrow> \<not> ends_operand (lasttok st) \<longrightarrow> length (numstack st) + operands ts \<le> ncap \<longrightarrow> length (stack st) + operators ts \<le> ocap
     \<longrightarrow> arith_loop lk ncap ocap (text_of ts @ suf) st = rbind (msem lk e (vars_of st))
           (\<lambda>(v, vs). arith_loop lk ncap ocap suf (state TOK_NUM (stack st) (v # numstack st) vs)))"

lemma runsD:
  "runs e ts p \<Longrightarrow> leads ncap ocap suf op \<Longrightarrow> closes op p \<Longrightarrow> holds (stack st) p \<Longrightarrow> \<not> ends_operand (lasttok st)
    \<Longrightarrow> length (numstack st) + operands ts \<le> ncap \<Longrightarrow> length (stack st) + operators ts \<le> ocap
    \<Longrightarrow> arith_loop lk ncap ocap (text_of ts @ suf) st = rbind (msem lk e (vars_of st))
          (\<lambda>(v, vs). arith_loop lk ncap ocap suf (state TOK_NUM (stack st) (v # numstack st) vs))"
  unfolding runs_def by blast

lemma runs_parens:
  assumes "\<And>q. 0 < q \<Longrightarrow> q \<le> level_of e \<Longrightarrow> runs e (body e) q" "0 < p" "p \<le> 20" "wf_mexp e"
  shows "runs e (parens p e (body e)) p"
proof (cases "level_of e < p")
  case False
  with assms show ?thesis by (simp add: parens_def)
next
  case True
  have one: "runs e (body e) 1" using assms(1,4) level_bounds [of e] by simp
  have LP: "TOK_LPAREN \<in> set all_ops" "base_form TOK_LPAREN = TOK_LPAREN" "TOK_RPAREN \<in> set all_ops" "base_form TOK_RPAREN = TOK_RPAREN"
    by (simp_all add: all_ops_def base_form_def)
  show ?thesis
    unfolding runs_def
  proof (intro allI impI)
    fix ncap ocap suf op and st :: arith_state
    let ?ts = "parens p e (body e)"
    let ?suf = "tok_text (TOp TOK_RPAREN) @ suf"
    assume *: "\<not> ends_operand (lasttok st)" "length (numstack st) + operands ?ts \<le> ncap" "length (stack st) + operators ?ts \<le> ocap"
    let ?st = "state TOK_LPAREN (TOK_LPAREN # stack st) (numstack st) (vars_of st)"
    have "arith_loop lk ncap ocap (text_of ?ts @ suf) st = arith_loop lk ncap ocap (text_of (body e) @ ?suf) ?st"
      using True * loop_op_text [OF LP(1), of lk ncap ocap "text_of (body e) @ ?suf" st] step_prefix [of TOK_LPAREN st ocap lk]
      by (simp add: parens_def LP del: tok_text.simps)
    also have "\<dots> = rbind (msem lk e (vars_of st))
        (\<lambda>(v, vs). arith_loop lk ncap ocap ?suf (state TOK_NUM (TOK_LPAREN # stack st) (v # numstack st) vs))"
      using runsD [OF one leads_text [OF LP(3,4)], of ?st ncap ocap suf] * True
      by (simp add: closes_def holds_paren ends_operand_def parens_def del: tok_text.simps)
    also have "\<dots> = rbind (msem lk e (vars_of st))
        (\<lambda>(v, vs). arith_loop lk ncap ocap suf (state TOK_NUM (stack st) (v # numstack st) vs))"
      by (simp add: loop_op_text [OF LP(3)] LP(4) step_close del: tok_text.simps)
    finally show "arith_loop lk ncap ocap (text_of ?ts @ suf) st = rbind (msem lk e (vars_of st))
        (\<lambda>(v, vs). arith_loop lk ncap ocap suf (state TOK_NUM (stack st) (v # numstack st) vs))" .
  qed
qed

lemma runs_Num: "wf_mexp (Num n) \<Longrightarrow> runs (Num n) (body (Num n)) q"
  unfolding runs_def by (simp add: loop_num_text state_seen del: tok_text.simps)

lemma runs_Var: "wf_mexp (Var x) \<Longrightarrow> runs (Var x) (body (Var x)) q"
  unfolding runs_def by (simp add: loop_var_text state_seen del: tok_text.simps)

lemma runs_Pre:
  assumes op: "op \<in> set prefix_ops" and e: "runs e (parens 16 e (body e)) 16" and q: "q \<le> 16"
  shows "runs (Pre op e) (body (Pre op e)) q"
  unfolding runs_def
proof (intro allI impI)
  fix ncap ocap suf op' and st :: arith_state
  let ?ts = "parens 16 e (body e)"
  assume *: "leads ncap ocap suf op'" "closes op' q" "\<not> ends_operand (lasttok st)"
    "length (numstack st) + operands (body (Pre op e)) \<le> ncap" "length (stack st) + operators (body (Pre op e)) \<le> ocap"
  let ?st = "state op (op # stack st) (numstack st) (vars_of st)"
  have op_facts: "op \<in> set all_ops" "\<not> ends_operand op" "16 \<le> rank op" "unary_rez op 0 \<noteq> None" "op \<noteq> TOK_LPAREN"
    using op by (auto simp: all_ops_def prefix_ops_def ends_operand_def convert_prec_is_assing_def unary_rez_def)
  have takes: "takes op' op"
    using closes_takes [OF *(2), of op] q op_facts(3,5) by simp
  have "arith_loop lk ncap ocap (text_of (body (Pre op e)) @ suf) st = arith_loop lk ncap ocap (text_of ?ts @ suf) ?st"
    using * op step_prefix [of op st ocap lk] loop_op_text [OF op_facts(1), of lk ncap ocap "text_of ?ts @ suf" st]
    by (simp del: tok_text.simps)
  also have "\<dots> = rbind (msem lk e (vars_of st))
      (\<lambda>(v, vs). arith_loop lk ncap ocap suf (state TOK_NUM (op # stack st) (v # numstack st) vs))"
    using runsD [OF e *(1), of ?st] * q op_facts closes_mono [OF *(2), of 16] by (simp add: holds_high)
  also have "\<dots> = rbind (msem lk (Pre op e) (vars_of st))
      (\<lambda>(v, vs). arith_loop lk ncap ocap suf (state TOK_NUM (stack st) (v # numstack st) vs))"
    by (simp add: loop_takes [OF *(1) _ takes] ends_operand_def apply_unary op_facts rbind_assoc case_prod_unfold)
  finally show "arith_loop lk ncap ocap (text_of (body (Pre op e)) @ suf) st = rbind (msem lk (Pre op e) (vars_of st))
      (\<lambda>(v, vs). arith_loop lk ncap ocap suf (state TOK_NUM (stack st) (v # numstack st) vs))" .
qed

lemma runs_Post:
  assumes op: "op \<in> set postfix_ops" and e: "runs e (parens 20 e (body e)) 20" and q: "q \<le> 19"
  shows "runs (Post op e) (body (Post op e)) q"
  unfolding runs_def
proof (intro allI impI)
  fix ncap ocap suf op' and st :: arith_state
  let ?ts = "parens 20 e (body e)"
  assume *: "leads ncap ocap suf op'" "closes op' q" "holds (stack st) q" "\<not> ends_operand (lasttok st)"
    "length (numstack st) + operands (body (Post op e)) \<le> ncap" "length (stack st) + operators (body (Post op e)) \<le> ocap"
  have op_facts: "op \<in> set all_ops" "ends_operand op" "19 \<le> rank op" "unary_rez op 0 \<noteq> None" "op \<noteq> TOK_LPAREN" "base_form op = op"
    using op by (auto simp: all_ops_def postfix_ops_def ends_operand_def convert_prec_is_assing_def unary_rez_def base_form_def)
  have takes: "takes op' op"
    using closes_takes [OF *(2), of op] q op_facts(3,5) by simp
  have "arith_loop lk ncap ocap (text_of (body (Post op e)) @ suf) st = rbind (msem lk e (vars_of st))
      (\<lambda>(v, vs). arith_loop lk ncap ocap (tok_text (TOp op) @ suf) (state TOK_NUM (stack st) (v # numstack st) vs))"
    using runsD [OF e leads_text [OF op_facts(1,6)], of st ncap ocap suf] * q holds_mono [OF *(3), of 20]
    by (simp add: closes_def del: tok_text.simps)
  also have "\<dots> = rbind (msem lk e (vars_of st))
      (\<lambda>(v, vs). arith_loop lk ncap ocap suf (state op (op # stack st) (v # numstack st) vs))"
    using *(6) by (simp add: loop_op_text [OF op_facts(1)] op_facts(6) step_postfix [OF op] del: tok_text.simps)
  also have "\<dots> = rbind (msem lk (Post op e) (vars_of st))
      (\<lambda>(v, vs). arith_loop lk ncap ocap suf (state TOK_NUM (stack st) (v # numstack st) vs))"
    by (simp add: loop_takes [OF *(1) op_facts(2) takes] apply_unary op_facts rbind_assoc case_prod_unfold)
  finally show "arith_loop lk ncap ocap (text_of (body (Post op e)) @ suf) st = rbind (msem lk (Post op e) (vars_of st))
      (\<lambda>(v, vs). arith_loop lk ncap ocap suf (state TOK_NUM (stack st) (v # numstack st) vs))" .
qed

text \<open>An operand, an operator between operands, and the rest of the text.\<close>

lemma runs_operator:
  assumes e: "runs e ts p" and op: "between op" "closes op p" "holds (stack st) p" "holds (stack st) r" "r \<le> rank op"
    and st: "\<not> ends_operand (lasttok st)" "length (numstack st) + operands ts \<le> ncap" "length (stack st) + operators ts < ocap"
  shows "arith_loop lk ncap ocap (text_of ts @ tok_text (TOp op) @ suf) st = rbind (msem lk e (vars_of st))
    (\<lambda>(v, vs). arith_loop lk ncap ocap suf (state op (op # stack st) (v # numstack st) vs))"
proof -
  have facts: "op \<in> set all_ops" "base_form op = op" using op(1) between_cases by auto
  have "operator_step lk ocap op (state TOK_NUM (stack st) ns vs) = Inr (state op (op # stack st) ns vs)" for ns vs
    using op st(3) by (intro step_between) auto
  then show ?thesis
    using runsD [OF e leads_text [OF facts], of st ncap ocap suf] op st
    by (simp add: loop_op_text [OF facts(1)] facts(2) del: tok_text.simps)
qed

lemma runs_Bin:
  assumes op: "op \<in> set binary_ops" and l: "runs l (parens (left_level op) l (body l)) (left_level op)"
    and r: "runs r (parens (right_level op) r (body r)) (right_level op)" and q: "q \<le> rank op"
  shows "runs (Bin op l r) (body (Bin op l r)) q"
  unfolding runs_def
proof (intro allI impI)
  fix ncap ocap suf op' and st :: arith_state
  let ?ls = "parens (left_level op) l (body l)" and ?rs = "parens (right_level op) r (body r)"
  assume *: "leads ncap ocap suf op'" "closes op' q" "holds (stack st) q" "\<not> ends_operand (lasttok st)"
    "length (numstack st) + operands (body (Bin op l r)) \<le> ncap" "length (stack st) + operators (body (Bin op l r)) \<le> ocap"
  note facts = binary_facts [OF op]
  have levels: "closes op (left_level op)" "q \<le> left_level op" "q \<le> right_level op" "right_level op < 20"
    using facts q by (auto simp: closes_def left_level_def right_level_def)
  have holds: "holds (stack st) (left_level op)" "holds (op # stack st) (right_level op)"
    using holds_mono [OF *(3) levels(2)] by (auto simp: right_level_def intro!: holds_right)
  have not_end: "\<not> ends_operand op" "op \<noteq> TOK_LPAREN"
    using op by (auto simp: ends_operand_def binary_ops_def)
  have takes: "takes op' op" using closes_takes [OF *(2) q] facts(4) q not_end by simp
  have "arith_loop lk ncap ocap (text_of (body (Bin op l r)) @ suf) st = rbind (msem lk l (vars_of st))
      (\<lambda>(a, vs). arith_loop lk ncap ocap (text_of ?rs @ suf) (state op (op # stack st) (a # numstack st) vs))"
    using runs_operator [OF l facts(1) levels(1) holds(1) *(3) q *(4), of ncap ocap "text_of ?rs @ suf"] *(5,6)
    by (simp del: tok_text.simps)
  also have "\<dots> = rbind (msem lk l (vars_of st)) (\<lambda>(a, vs). rbind (msem lk r vs)
      (\<lambda>(b, vs). arith_loop lk ncap ocap suf (state TOK_NUM (op # stack st) (b # a # numstack st) vs)))"
  proof (intro arg_cong [where f = "rbind _"] ext, clarsimp)
    fix a vs
    show "arith_loop lk ncap ocap (text_of ?rs @ suf) (state op (op # stack st) (a # numstack st) vs) = rbind (msem lk r vs)
        (\<lambda>(b, vs). arith_loop lk ncap ocap suf (state TOK_NUM (op # stack st) (b # a # numstack st) vs))"
      using runsD [OF r *(1) closes_mono [OF *(2) levels(3,4)], of "state op (op # stack st) (a # numstack st) vs"]
        holds(2) not_end *(5,6) operands_pos [of l]
      by simp
  qed
  also have "\<dots> = rbind (msem lk (Bin op l r) (vars_of st))
      (\<lambda>(v, vs). arith_loop lk ncap ocap suf (state TOK_NUM (stack st) (v # numstack st) vs))"
    by (auto simp: rbind_assoc case_prod_unfold loop_takes [OF *(1) _ takes] ends_operand_def apply_between [OF op]
        dest: msem_flag intro!: rbind_cong)
  finally show "arith_loop lk ncap ocap (text_of (body (Bin op l r)) @ suf) st = rbind (msem lk (Bin op l r) (vars_of st))
      (\<lambda>(v, vs). arith_loop lk ncap ocap suf (state TOK_NUM (stack st) (v # numstack st) vs))" .
qed

lemma runs_Cond:
  assumes a: "runs a (parens 5 a (body a)) 5" and b: "runs b (parens 5 b (body b)) 5"
    and c: "runs c (parens 4 c (body c)) 4" and q: "q \<le> 4"
  shows "runs (Cond a b c) (body (Cond a b c)) q"
  unfolding runs_def
proof (intro allI impI)
  fix ncap ocap suf op' and st :: arith_state
  let ?as = "parens 5 a (body a)" and ?bs = "parens 5 b (body b)" and ?cs = "parens 4 c (body c)"
  let ?C = TOK_CONDITIONAL and ?S = TOK_CONDITIONAL_SEP
  assume *: "leads ncap ocap suf op'" "closes op' q" "holds (stack st) q" "\<not> ends_operand (lasttok st)"
    "length (numstack st) + operands (body (Cond a b c)) \<le> ncap" "length (stack st) + operators (body (Cond a b c)) \<le> ocap"
  have ops: "between ?C" "between ?S" "closes ?C 5" "closes ?S 5" "rank ?C = 4" "rank ?S = 4" "is_right_associativity 4"
    by (simp_all add: between_def closes_def convert_prec_is_assing_def is_right_associativity_def)
  have holds: "holds (?C # ts) 5" "holds (?C # ts) 4" "holds (?S # ts) 4" "holds (stack st) 5" for ts
    using ops holds_mono [OF *(3), of 5] q by (auto intro!: holds_right)
  have takes: "takes op' ?C" "takes op' ?S" using closes_takes [OF *(2)] q ops by simp_all
  have "arith_loop lk ncap ocap (text_of (body (Cond a b c)) @ suf) st = rbind (msem lk a (vars_of st))
      (\<lambda>(x, vs). arith_loop lk ncap ocap (text_of ?bs @ tok_text (TOp ?S) @ text_of ?cs @ suf)
        (state ?C (?C # stack st) (x # numstack st) vs))"
    using runs_operator [OF a ops(1,3) holds(4) *(3) _ *(4), of ncap ocap "text_of ?bs @ tok_text (TOp ?S) @ text_of ?cs @ suf"]
      *(5,6) q ops(5)
    by (simp del: tok_text.simps)
  also have "\<dots> = rbind (msem lk a (vars_of st)) (\<lambda>(x, vs). rbind (msem lk b vs)
      (\<lambda>(y, vs). arith_loop lk ncap ocap (text_of ?cs @ suf) (state ?S (?S # ?C # stack st) (y # x # numstack st) vs)))"
  proof (intro arg_cong [where f = "rbind _"] ext, clarsimp simp del: tok_text.simps)
    fix x vs
    let ?st = "state ?C (?C # stack st) (x # numstack st) vs"
    show "arith_loop lk ncap ocap (text_of ?bs @ tok_text (TOp ?S) @ text_of ?cs @ suf) ?st = rbind (msem lk b vs)
      (\<lambda>(y, vs). arith_loop lk ncap ocap (text_of ?cs @ suf) (state ?S (?S # ?C # stack st) (y # x # numstack st) vs))"
      using runs_operator [OF b ops(2,4), of ?st 4 ncap ocap "text_of ?cs @ suf"] *(5,6) holds(1,2) ops(6) operands_pos [of a]
      by (simp add: ends_operand_def del: tok_text.simps)
  qed
  also have "\<dots> = rbind (msem lk a (vars_of st)) (\<lambda>(x, vs). rbind (msem lk b vs) (\<lambda>(y, vs). rbind (msem lk c vs)
      (\<lambda>(z, vs). arith_loop lk ncap ocap suf (state TOK_NUM (?S # ?C # stack st) (z # y # x # numstack st) vs))))"
  proof (intro arg_cong [where f = "rbind _"] ext, clarsimp, intro arg_cong [where f = "rbind _"] ext, clarsimp)
    fix x y vs
    let ?st = "state ?S (?S # ?C # stack st) (y # x # numstack st) vs"
    show "arith_loop lk ncap ocap (text_of ?cs @ suf) ?st = rbind (msem lk c vs)
      (\<lambda>(z, vs). arith_loop lk ncap ocap suf (state TOK_NUM (?S # ?C # stack st) (z # y # x # numstack st) vs))"
      using runsD [OF c *(1) closes_mono [OF *(2) q], of ?st] *(5,6) holds(3) operands_pos [of a] operands_pos [of b]
      by (simp add: ends_operand_def)
  qed
  also have "\<dots> = rbind (msem lk (Cond a b c) (vars_of st))
      (\<lambda>(v, vs). arith_loop lk ncap ocap suf (state TOK_NUM (stack st) (v # numstack st) vs))"
  proof -
    have "arith_loop lk ncap ocap suf (state TOK_NUM (?S # ?C # stack st) (z # y # x # numstack st) vs) =
        rbind (apply3 lk x y z vs) (\<lambda>(v, vs). arith_loop lk ncap ocap suf (state TOK_NUM (stack st) (v # numstack st) vs))"
      if "\<not> contidional_second_val_initialized z" for x y z vs
    proof -
      have "arith_loop lk ncap ocap suf (state TOK_NUM (?S # ?C # stack st) (z # y # x # numstack st) vs) =
          rbind (rbind (arith_apply lk ?S (z # y # x # numstack st) vs) (\<lambda>(ns, vs). arith_apply lk ?C ns vs))
            (\<lambda>(ns, vs). arith_loop lk ncap ocap suf (state TOK_NUM (stack st) ns vs))"
        by (simp add: loop_takes [OF *(1) _ takes(1)] loop_takes [OF *(1) _ takes(2)] ends_operand_def rbind_assoc case_prod_unfold)
      then show ?thesis unfolding apply_conditional [OF that] by (simp add: rbind_assoc case_prod_unfold)
    qed
    then show ?thesis
      by (auto simp: rbind_assoc case_prod_unfold dest: msem_flag intro!: rbind_cong)
  qed
  finally show "arith_loop lk ncap ocap (text_of (body (Cond a b c)) @ suf) st = rbind (msem lk (Cond a b c) (vars_of st))
      (\<lambda>(v, vs). arith_loop lk ncap ocap suf (state TOK_NUM (stack st) (v # numstack st) vs))" .
qed

lemma runs_body: "wf_mexp e \<Longrightarrow> 0 < q \<Longrightarrow> q \<le> level_of e \<Longrightarrow> runs e (body e) q"
proof (induction e arbitrary: q)
  case (Bin op l r)
  note facts = binary_facts [of op]
  have "runs l (parens (left_level op) l (body l)) (left_level op)" "runs r (parens (right_level op) r (body r)) (right_level op)"
    using Bin facts by (auto intro!: runs_parens simp: left_level_def right_level_def)
  with Bin.prems show ?case by (intro runs_Bin) simp_all
next
  case (Cond a b c)
  then have "runs a (parens 5 a (body a)) 5" "runs b (parens 5 b (body b)) 5" "runs c (parens 4 c (body c)) 4"
    by (auto intro!: runs_parens)
  with Cond.prems show ?case by (intro runs_Cond) simp_all
next
  case (Pre op e)
  then have "runs e (parens 16 e (body e)) 16" by (auto intro!: runs_parens)
  with Pre.prems show ?case by (intro runs_Pre) simp_all
next
  case (Post op e)
  then have "runs e (parens 20 e (body e)) 20" by (auto intro!: runs_parens)
  with Post.prems show ?case by (intro runs_Post) simp_all
qed (simp_all only: runs_Num runs_Var)

lemma evaluates:
  assumes "wf_mexp e" "operands (body e) \<le> ncap" "Suc (operators (body e)) \<le> ocap"
  shows "arith_loop lk ncap ocap (mexp_text e) (arith_start vs) =
    rbind (msem lk e vs) (\<lambda>(t, vs). rbind (lk t vs) (\<lambda>(t, vs). Inr (val t, vs)))"
proof -
  have "runs e (body e) 1" using assms(1) level_bounds [OF assms(1)] by (intro runs_body) simp_all
  from runsD [OF this leads_end [of ncap ocap], of "arith_start vs"] assms(2,3)
  have "arith_loop lk ncap ocap (mexp_text e) (arith_start vs) = rbind (msem lk e vs)
      (\<lambda>(t, vs). arith_loop lk ncap ocap [] (state TOK_NUM [TOK_LPAREN] [t] vs))"
    by (simp add: arith_start_def closes_def holds_paren ends_operand_def mexp_text_def)
  moreover have "arith_loop lk ncap ocap [] (state TOK_NUM [TOK_LPAREN] [t] vs) = rbind (lk t vs) (\<lambda>(t, vs). Inr (val t, vs))"
    for t vs
    using plain [of t vs] by (simp add: step_close arith_end_def)
  ultimately show ?thesis by simp
qed

end

interpretation operands_of: operand_source "arith_lookup_val ar chain" for ar chain
  by unfold_locales (auto simp: arith_lookup_val_def rbind_Inr split: option.splits if_splits)

lemma text_length: "\<forall>t\<in>set ts. tok_text t \<noteq> [] \<and> 2 \<le> length (tok_text t) \<Longrightarrow> 2 * (operands ts + operators ts) \<le> length (text_of ts)"
  by (induction ts rule: operands.induct) auto

lemma tokens_long:
  assumes "wf_mexp e" "t \<in> set (body e)"
  shows "2 \<le> length (tok_text t)"
proof -
  have op: "2 \<le> length (tok_text (TOp op))" if "op \<in> set all_ops" for op
    by (rule op_text_first [OF that]) simp
  have sets: "set prefix_ops \<subseteq> set all_ops" "set postfix_ops \<subseteq> set all_ops" "set binary_ops \<subseteq> set all_ops"
    "{TOK_LPAREN, TOK_RPAREN, TOK_CONDITIONAL, TOK_CONDITIONAL_SEP} \<subseteq> set all_ops"
    by (auto simp: all_ops_def)
  have num: "2 \<le> length (tok_text (TNum n))" for n
    using show_nat_digits [of n] by (cases "show_nat n") auto
  have var: "2 \<le> length (tok_text (TVar x))" if "is_var_name x" for x
    using that by (cases x) (auto simp: is_var_name_def)
  show ?thesis
    using assms sets
    by (induction e) (auto simp: parens_def num var simp del: tok_text.simps split: if_splits intro!: op)
qed

text \<open>The lookup of operands during the evaluation of a text.\<close>

definition start_lookup :: "vars \<Rightarrow> lookup" where
  "start_lookup vs = arith_lookup_val (arith_fuel (length vs + 1)) []"

lemma arith_tree:
  assumes "wf_mexp e"
  shows "arith vs (mexp_text e) =
    rbind (msem (start_lookup vs) e vs) (\<lambda>(t, vs'). rbind (start_lookup vs t vs') (\<lambda>(t, vs'). Inr (val t, vs')))"
proof -
  have "2 * (operands (body e) + operators (body e)) \<le> length (mexp_text e)"
    unfolding mexp_text_def using tokens_long [OF assms] by (intro text_length) force
  then have "operands (body e) \<le> (length (mexp_text e) + 2) div 2" "Suc (operators (body e)) \<le> length (mexp_text e) + 2"
    by simp_all
  from operands_of.evaluates [OF assms this] show ?thesis
    by (simp add: arith_def start_lookup_def Let_def)
qed

lemma arith_variable:
  assumes "is_var_name x" "map_of vs x = Some (show_int v)" "in64 v"
  shows "arith vs x = Inr (v, vs)"
proof -
  obtain c cs where c: "x = c # cs" "is_name c" "\<forall>d\<in>set cs. is_in_name d"
    using assms(1) by (auto simp: is_var_name_def split: list.splits)
  have "endofname x = []" "\<not> arith_isspace c" using c
    by (auto simp: endofname_def arith_isspace_def is_name_def isalpha_c_def)
  then have "arith_loop lk (Suc n) ocap x (arith_start vs) =
      rbind (operator_step lk ocap TOK_RPAREN (state TOK_NUM [TOK_LPAREN] [var_slot x] vs)) (arith_end lk)" for lk n ocap
    using c(1) by (simp add: push_num_def arith_start_def state_def)
  moreover have "arith_fuel (length vs + 1) [x] vs (show_int v) = Inr (v, vs)"
    using assms(3) by (simp add: Let_def) (rule run_show_int, auto simp: arith_lookup_val_def)
  ultimately show ?thesis
    using assms(2)
    by (simp add: arith_def Let_def step_close arith_end_def arith_lookup_val_def lookupvar_def var_slot_def del: arith_fuel.simps(2))
      (simp add: Let_def step_close arith_end_def arith_lookup_val_def lookupvar_def var_slot_def)
qed

subsection \<open>Properties\<close>

text \<open>
  C22: arithmetic expansion implements the expression grammar: the text of a tree evaluates to what the tree means, for every mixture of
  prefix, postfix, infix and conditional operators, with errors and assignments in evaluation order. The stacks suffice.
\<close>

theorem arith_evaluates_tree:
  assumes "wf_mexp e"
  shows "arith vs (mexp_text e) =
    rbind (msem (start_lookup vs) e vs) (\<lambda>(t, vs'). rbind (start_lookup vs t vs') (\<lambda>(t, vs'). Inr (val t, vs')))"
  using assms by (rule arith_tree)

definition sample_mexp :: mexp where
  "sample_mexp = Bin TOK_COMMA (Bin TOK_MUL_ASSIGN (Var ''a'') (Bin TOK_ADD (Num 1) (Num 2)))
     (Bin TOK_EXPONENT (Pre TOK_UMINUS (Var ''b'')) (Cond (Var ''a'') (Num 3) (Num 4)))"

lemma sample_mexp_text: "mexp_text sample_mexp = ''a *= 1 + 2 , - b ** ( a ? 3 : 4 ) ''"
  by code_simp

theorem arith_evaluates_tree_witness:
  "arith [(''a'', ''5''), (''b'', ''a - 13'')] ''a *= 1 + 2 , - b ** ( a ? 3 : 4 ) '' =
    Inr (- 8, [(''a'', ''15''), (''b'', ''a - 13'')])"
proof -
  let ?vs = "[(''a'', ''5''), (''b'', ''a - 13'')]"
  have "wf_mexp sample_mexp" by code_simp
  moreover have "rbind (msem (start_lookup ?vs) sample_mexp ?vs)
      (\<lambda>(t, vs'). rbind (start_lookup ?vs t vs') (\<lambda>(t, vs'). Inr (val t, vs'))) =
    Inr (- 8, [(''a'', ''15''), (''b'', ''a - 13'')])"
    by code_simp
  ultimately show ?thesis using arith_evaluates_tree [of sample_mexp ?vs] by (simp only: sample_mexp_text)
qed

text \<open>
  C25: a value that is assigned comes back. After \<open>x = e\<close> with value \<open>v\<close> the variable holds the numeral of \<open>v\<close>, and expanding
  \<open>x\<close> gives \<open>v\<close>, the least and the greatest 64-bit number included, and changes nothing.
\<close>

theorem arith_assign_roundtrip:
  assumes "wf_mexp e" and "is_var_name x"
    and "arith vs (mexp_text (Bin TOK_ASSIGN (Var x) e)) = Inr (v, vs')"
  shows "map_of vs' x = Some (show_int v) \<and> arith vs' x = Inr (v, vs')"
proof -
  have wf: "wf_mexp (Bin TOK_ASSIGN (Var x) e)" using assms(1,2) by (simp add: binary_ops_def)
  have "in64 v" using arith_ok [of False "mexp_text (Bin TOK_ASSIGN (Var x) e)" vs] assms(3) by simp
  moreover have "map_of vs' x = Some (show_int v)"
    using assms(3) unfolding arith_tree [OF wf]
    by (auto simp: rbind_Inr apply2_def binary_rez_def store_rez_def tok_have_assign_def convert_prec_is_assing_def
        var_slot_def start_lookup_def arith_lookup_val_def [of _ _ "_\<lparr>val := _, var := None\<rparr>"] map_of_setvar
        operands_of.plain)
  ultimately show ?thesis using arith_variable [OF assms(2)] by simp
qed

theorem arith_assign_roundtrip_witness:
  "arith [] ''x = 3 - 7 '' = Inr (- 4, [(''x'', ''-4'')]) \<and> arith [(''x'', ''-4'')] ''x'' = Inr (- 4, [(''x'', ''-4'')])"
proof -
  let ?e = "Bin TOK_SUB (Num 3) (Num 7)"
  have e: "wf_mexp ?e" "is_var_name ''x''" by code_simp+
  have printed: "mexp_text (Bin TOK_ASSIGN (Var ''x'') ?e) = ''x = 3 - 7 ''" by code_simp
  have run: "arith [] ''x = 3 - 7 '' = Inr (- 4, [(''x'', ''-4'')])" by code_simp
  have "arith [(''x'', ''-4'')] ''x'' = Inr (- 4, [(''x'', ''-4'')])"
    by (rule conjunct2 [OF arith_assign_roundtrip [OF e, of "[]"]]) (simp only: printed run)
  with run show ?thesis by blast
qed

text \<open>A conditional between \<open>?\<close> and \<open>:\<close> needs parentheses: the second separator ends the inner one.\<close>

lemma nested_conditional_rejected:
  "arith [] ''1?2?3:4:5'' = Inl (Err (- 1)) \<and> arith [] ''1?(2?3:4):5'' = Inr (3, [])"
  by code_simp

end
