(* ===== verification/Test_Applet.thy ===== *)
theory Test_Applet
  imports Expr
begin

text \<open>
  \<^verbatim>\<open>busybox/coreutils/test.c\<close>: the test command. The expression is an array of strings that ends with a null pointer; \<open>args\<close> is an
  index into it, and an access behind it is the value \<open>Past_End\<close>. \<open>syntax\<close> leaves by \<open>longjmp\<close>: the value \<open>Bad_Syntax\<close>. The descent
  carries fuel. The file system, the groups of the process and the terminals are parameters.
\<close>

subsection \<open>Tokens and operators\<close>

datatype token =
    EOI | FILRD | FILWR | FILEX | FILEXIST | FILREG | FILDIR | FILCDEV | FILBDEV | FILFIFO | FILSOCK | FILSYM | FILGZ | FILTT
  | FILSUID | FILSGID | FILSTCK | FILNT | FILOT | FILEQ | FILUID | FILGID | STREZ | STRNZ | STREQ | STRNE | STRLT | STRGT
  | INTEQ | INTNE | INTGE | INTGT | INTLE | INTLT | UNOT | BAND | BOR | LPAREN | RPAREN | OPERAND

definition is_int_op :: "token \<Rightarrow> bool" where
  "is_int_op a \<longleftrightarrow> a \<in> set [INTEQ, INTNE, INTGE, INTGT, INTLE, INTLT]"

definition is_str_op :: "token \<Rightarrow> bool" where
  "is_str_op a \<longleftrightarrow> a \<in> set [STREZ, STRNZ, STREQ, STRNE, STRLT, STRGT]"

definition is_file_access :: "token \<Rightarrow> bool" where
  "is_file_access a \<longleftrightarrow> a \<in> set [FILRD, FILWR, FILEX]"

definition is_file_type :: "token \<Rightarrow> bool" where
  "is_file_type a \<longleftrightarrow> a \<in> set [FILREG, FILDIR, FILCDEV, FILBDEV, FILFIFO, FILSOCK]"

definition is_file_bit :: "token \<Rightarrow> bool" where
  "is_file_bit a \<longleftrightarrow> a \<in> set [FILSUID, FILSGID, FILSTCK]"

datatype op_class = UNOP | BINOP | BUNOP | BBINOP | PAREN

record operator_t =
  op_num :: token
  op_type :: op_class

definition ops_table :: "operator_t list" where
  "ops_table = map (\<lambda>(n, t). \<lparr>op_num = n, op_type = t\<rparr>)
    [(FILRD, UNOP), (FILWR, UNOP), (FILEX, UNOP), (FILEXIST, UNOP), (FILREG, UNOP), (FILDIR, UNOP), (FILCDEV, UNOP), (FILBDEV, UNOP),
     (FILFIFO, UNOP), (FILSUID, UNOP), (FILSGID, UNOP), (FILSTCK, UNOP), (FILGZ, UNOP), (FILTT, UNOP), (STREZ, UNOP), (STRNZ, UNOP),
     (FILSYM, UNOP), (FILUID, UNOP), (FILGID, UNOP), (FILSYM, UNOP), (FILSOCK, UNOP), (STREQ, BINOP), (STREQ, BINOP), (STRNE, BINOP),
     (STRLT, BINOP), (STRGT, BINOP), (INTEQ, BINOP), (INTNE, BINOP), (INTGE, BINOP), (INTGT, BINOP), (INTLE, BINOP), (INTLT, BINOP),
     (FILNT, BINOP), (FILOT, BINOP), (FILEQ, BINOP), (UNOT, BUNOP), (BAND, BBINOP), (BOR, BBINOP), (LPAREN, PAREN), (RPAREN, PAREN)]"

definition ops_texts :: "string list" where
  "ops_texts =
    [''-r'', ''-w'', ''-x'', ''-e'', ''-f'', ''-d'', ''-c'', ''-b'', ''-p'', ''-u'', ''-g'', ''-k'', ''-s'', ''-t'', ''-z'', ''-n'', ''-h'',
     ''-O'', ''-G'', ''-L'', ''-S'', ''='', ''=='', ''!='', ''<'', ''>'', ''-eq'', ''-ne'', ''-ge'', ''-gt'', ''-le'', ''-lt'', ''-nt'',
     ''-ot'', ''-ef'', ''!'', ''-a'', ''-o'', ''('', '')'']"

text \<open>The token of an argument and the entry \<open>last_operator\<close> points to, \<open>None\<close> for the bogus entry.\<close>

definition check_operator :: "string option \<Rightarrow> token \<times> operator_t option" where
  "check_operator s =
     (case s of
        None \<Rightarrow> (EOI, None)
      | Some s \<Rightarrow> (let n = index_in_strings ops_texts s in
          if n < 0 then (OPERAND, None) else (op_num (ops_table ! nat n), Some (ops_table ! nat n))))"

subsection \<open>The environment\<close>

record stat =
  st_mode :: u32
  st_uid :: nat
  st_gid :: nat
  st_size :: int
  st_mtime :: int
  st_dev :: nat
  st_ino :: nat

record test_env =
  stat_of :: "string \<Rightarrow> stat option"
  lstat_of :: "string \<Rightarrow> stat option"
  geteuid :: nat
  getgid :: nat
  getegid :: nat
  groups :: "nat list"
  isatty :: "int \<Rightarrow> bool"
  test_64 :: bool

text \<open>\<open>getgroups\<close> fails when the array is too small.\<close>

definition getgroups :: "test_env \<Rightarrow> nat \<Rightarrow> int" where
  "getgroups e n = (if n < length (groups e) then -1 else int (length (groups e)))"

datatype test_error = Bad_Syntax | Past_End | Null_Arg | No_Fuel

type_synonym 'a tres = "test_error + 'a"

record test_statics =
  args :: nat
  last_operator :: "operator_t option"
  group_array :: "nat list"
  ngroups :: int

type_synonym memory = "string option list"

definition arg :: "memory \<Rightarrow> nat \<Rightarrow> string option tres" where
  "arg mem i = (if i < length mem then Inr (mem ! i) else Inl Past_End)"

text \<open>\<open>check_operator\<close> applied to an element of the array.\<close>

definition check_arg :: "memory \<Rightarrow> nat \<Rightarrow> test_statics \<Rightarrow> (token \<times> test_statics) tres" where
  "check_arg mem i S = rbind (arg mem i) (\<lambda>s. case check_operator s of (t, p) \<Rightarrow> Inr (t, S\<lparr>last_operator := p\<rparr>))"

subsection \<open>Numbers\<close>

definition getn :: "bool \<Rightarrow> string \<Rightarrow> int tres" where
  "getn wide s =
     (let (r, p) = (case strtol10 s of None \<Rightarrow> (0, s) | Some vp \<Rightarrow> vp); w = (if wide then 63 else 31) in
      if r < - (2 ^ w) \<or> 2 ^ w \<le> r then Inl Bad_Syntax
      else if dropWhile isspace_c p \<noteq> [] then Inl Bad_Syntax
      else Inr r)"

subsection \<open>Files\<close>

text \<open>The loop of \<open>initialize_group_array\<close>: again with a larger array as long as the answer exceeds its size.\<close>

function get_groups_loop :: "test_env \<Rightarrow> nat \<Rightarrow> test_statics \<Rightarrow> test_statics" where
  "get_groups_loop e n S =
     (let r = getgroups e n; S' = S\<lparr>ngroups := r, group_array := (if r < 0 then group_array S else groups e)\<rparr> in
      if int n < r then get_groups_loop e (nat r) S' else S')"
  by pat_completeness auto
termination by (relation "{}") (simp_all add: getgroups_def split: if_splits)

declare get_groups_loop.simps [simp del]

definition initialize_group_array :: "test_env \<Rightarrow> test_statics \<Rightarrow> test_statics" where
  "initialize_group_array e S = get_groups_loop e 32 S"

definition is_a_group_member :: "test_env \<Rightarrow> nat \<Rightarrow> test_statics \<Rightarrow> bool \<times> test_statics" where
  "is_a_group_member e gid S0 =
     (if gid = getgid e \<or> gid = getegid e then (True, S0)
      else let S = (if ngroups S0 = 0 then initialize_group_array e S0 else S0) in
        (gid \<in> set (take (nat (ngroups S)) (group_array S)), S))"

definition R_OK :: nat where "R_OK = 4"
definition W_OK :: nat where "W_OK = 2"
definition X_OK :: nat where "X_OK = 1"

definition test_eaccess :: "test_env \<Rightarrow> string \<Rightarrow> nat \<Rightarrow> test_statics \<Rightarrow> int \<times> test_statics" where
  "test_eaccess e path mode S =
     (case stat_of e path of
        None \<Rightarrow> (-1, S)
      | Some st \<Rightarrow>
          if geteuid e = 0 \<and> (mode \<noteq> X_OK \<or> st_mode st AND 0x49 \<noteq> 0) then (0, S)
          else let (shift, S') = (if st_uid st = geteuid e then (6, S)
                 else case is_a_group_member e (st_gid st) S of (member, S') \<Rightarrow> (if member then 3 else 0, S')) in
            (if st_mode st AND push_bit shift (of_nat mode) \<noteq> 0 then 0 else -1, S'))"

definition S_IFMT :: u32 where "S_IFMT = 0xf000"

fun type_bits :: "token \<Rightarrow> u32" where
  "type_bits FILREG = 0x8000"
| "type_bits FILDIR = 0x4000"
| "type_bits FILCDEV = 0x2000"
| "type_bits FILBDEV = 0x6000"
| "type_bits FILFIFO = 0x1000"
| "type_bits FILSOCK = 0xc000"
| "type_bits FILSYM = 0xa000"
| "type_bits FILSUID = 0x800"
| "type_bits FILSGID = 0x400"
| "type_bits FILSTCK = 0x200"
| "type_bits _ = 0"

definition filstat :: "test_env \<Rightarrow> string \<Rightarrow> token \<Rightarrow> test_statics \<Rightarrow> bool \<times> test_statics" where
  "filstat e nm mode S =
     (if mode = FILSYM then (case lstat_of e nm of None \<Rightarrow> (False, S) | Some s \<Rightarrow> (st_mode s AND S_IFMT = type_bits FILSYM, S))
      else case stat_of e nm of
        None \<Rightarrow> (False, S)
      | Some s \<Rightarrow>
          if mode = FILEXIST then (True, S)
          else if is_file_access mode
          then case test_eaccess e nm (if mode = FILRD then R_OK else if mode = FILWR then W_OK else X_OK) S of (r, S') \<Rightarrow> (r = 0, S')
          else if is_file_type mode then (st_mode s AND S_IFMT = type_bits mode, S)
          else if is_file_bit mode then (st_mode s AND type_bits mode \<noteq> 0, S)
          else if mode = FILGZ then (0 < st_size s, S)
          else if mode = FILUID then (st_uid s = geteuid e, S)
          else if mode = FILGID then (st_gid s = getegid e, S)
          else (True, S))"

subsection \<open>Binary operators\<close>

definition int_op :: "token \<Rightarrow> int \<Rightarrow> int \<Rightarrow> bool" where
  "int_op t val1 val2 =
     (if t = INTEQ then val1 = val2 else if t = INTNE then val1 \<noteq> val2 else if t = INTGE then val1 \<ge> val2
      else if t = INTGT then val1 > val2 else if t = INTLE then val1 \<le> val2 else val1 < val2)"

definition str_op :: "token \<Rightarrow> int \<Rightarrow> bool" where
  "str_op t val1 = (if t = STREQ then val1 = 0 else if t = STRNE then val1 \<noteq> 0 else if t = STRLT then val1 < 0 else val1 > 0)"

definition file_op :: "test_env \<Rightarrow> token \<Rightarrow> string \<Rightarrow> string \<Rightarrow> bool" where
  "file_op e t opnd1 opnd2 =
     (case (stat_of e opnd1, stat_of e opnd2) of
        (Some b1, Some b2) \<Rightarrow>
          if t = FILNT then st_mtime b1 > st_mtime b2
          else if t = FILOT then st_mtime b1 < st_mtime b2
          else st_dev b1 = st_dev b2 \<and> st_ino b1 = st_ino b2
      | _ \<Rightarrow> False)"

definition binop_value :: "test_env \<Rightarrow> token \<Rightarrow> string \<Rightarrow> string \<Rightarrow> bool tres" where
  "binop_value e t opnd1 opnd2 =
     (if is_int_op t then rbind (getn (test_64 e) opnd1) (\<lambda>val1. rbind (getn (test_64 e) opnd2) (\<lambda>val2. Inr (int_op t val1 val2)))
      else if is_str_op t then Inr (str_op t (strcmp opnd1 opnd2))
      else Inr (file_op e t opnd1 opnd2))"

text \<open>An operand that is a null pointer would be dereferenced.\<close>

definition text_arg :: "memory \<Rightarrow> nat \<Rightarrow> string tres" where
  "text_arg mem i = rbind (arg mem i) (\<lambda>s. case s of None \<Rightarrow> Inl Null_Arg | Some s \<Rightarrow> Inr s)"

definition binop :: "memory \<Rightarrow> test_env \<Rightarrow> test_statics \<Rightarrow> (bool \<times> test_statics) tres" where
  "binop mem e S =
     rbind (text_arg mem (args S)) (\<lambda>opnd1.
     rbind (check_arg mem (args S + 1) S) (\<lambda>(t, S).
     rbind (arg mem (args S + 2)) (\<lambda>opnd2.
       case opnd2 of
         None \<Rightarrow> Inl Bad_Syntax
       | Some opnd2 \<Rightarrow> rbind (binop_value e t opnd1 opnd2) (\<lambda>b. Inr (b, S\<lparr>args := args S + 2\<rparr>)))))"

subsection \<open>The recursive descent\<close>

text \<open>\<open>check_operator(*++args)\<close>.\<close>

definition next_token :: "memory \<Rightarrow> test_statics \<Rightarrow> (token \<times> test_statics) tres" where
  "next_token mem S = (let S = S\<lparr>args := args S + 1\<rparr> in check_arg mem (args S) S)"

definition has_type :: "operator_t option \<Rightarrow> op_class \<Rightarrow> bool" where
  "has_type p t = (case p of None \<Rightarrow> False | Some p \<Rightarrow> op_type p = t)"

definition unary :: "memory \<Rightarrow> test_env \<Rightarrow> token \<Rightarrow> test_statics \<Rightarrow> (bool \<times> test_statics) tres" where
  "unary mem e n S0 =
     (let S = S0\<lparr>args := args S0 + 1\<rparr> in
      rbind (text_arg mem (args S)) (\<lambda>s.
        if n = STREZ then Inr (s = [], S)
        else if n = STRNZ then Inr (s \<noteq> [], S)
        else if n = FILTT then rbind (getn (test_64 e) s) (\<lambda>fd. Inr (isatty e (to_int32 fd), S))
        else Inr (filstat e s n S)))"

definition not_empty :: "memory \<Rightarrow> test_statics \<Rightarrow> (bool \<times> test_statics) tres" where
  "not_empty mem S = rbind (text_arg mem (args S)) (\<lambda>s. Inr (s \<noteq> [], S))"

definition simple_primary :: "memory \<Rightarrow> test_env \<Rightarrow> token \<Rightarrow> test_statics \<Rightarrow> (bool \<times> test_statics) tres" where
  "simple_primary mem e n S0 =
     (let args0_op = last_operator S0 in
      rbind (check_arg mem (args S0 + 1) S0) (\<lambda>(t, S).
      rbind (if t \<noteq> EOI then arg mem (args S + 2) else Inr None) (\<lambda>second.
        if second \<noteq> None \<and> has_type (last_operator S) BINOP then binop mem e S
        else if has_type args0_op UNOP then (if t = EOI then not_empty mem S else unary mem e n S)
        else if has_type (last_operator S) BINOP then binop mem e S
        else not_empty mem S)))"

text \<open>The four functions call one another; \<open>self\<close> stands for them.\<close>

datatype level = Nexpr | Aexpr | Oexpr | Primary

type_synonym descent = "level \<Rightarrow> token \<Rightarrow> test_statics \<Rightarrow> (bool \<times> test_statics) tres"

definition nexpr :: "memory \<Rightarrow> descent \<Rightarrow> token \<Rightarrow> test_statics \<Rightarrow> (bool \<times> test_statics) tres" where
  "nexpr mem self n S =
     (if n = UNOT
      then rbind (next_token mem S) (\<lambda>(n, S).
        if n = EOI then Inr (True, S)
        else rbind (self Nexpr n S) (\<lambda>(res, S). Inr (\<not> res, S)))
      else self Primary n S)"

definition aexpr :: "memory \<Rightarrow> descent \<Rightarrow> token \<Rightarrow> test_statics \<Rightarrow> (bool \<times> test_statics) tres" where
  "aexpr mem self n S =
     rbind (self Nexpr n S) (\<lambda>(res, S).
     rbind (next_token mem S) (\<lambda>(t, S).
       if t = BAND
       then rbind (next_token mem S) (\<lambda>(n, S). rbind (self Aexpr n S) (\<lambda>(r, S). Inr (r \<and> res, S)))
       else Inr (res, S\<lparr>args := args S - 1\<rparr>)))"

definition oexpr :: "memory \<Rightarrow> descent \<Rightarrow> token \<Rightarrow> test_statics \<Rightarrow> (bool \<times> test_statics) tres" where
  "oexpr mem self n S =
     rbind (self Aexpr n S) (\<lambda>(res, S).
     rbind (next_token mem S) (\<lambda>(t, S).
       if t = BOR
       then rbind (next_token mem S) (\<lambda>(n, S). rbind (self Oexpr n S) (\<lambda>(r, S). Inr (r \<or> res, S)))
       else Inr (res, S\<lparr>args := args S - 1\<rparr>)))"

definition primary :: "memory \<Rightarrow> test_env \<Rightarrow> descent \<Rightarrow> token \<Rightarrow> test_statics \<Rightarrow> (bool \<times> test_statics) tres" where
  "primary mem e self n S =
     (if n = EOI then Inl Bad_Syntax
      else if n = LPAREN
      then rbind (next_token mem S) (\<lambda>(n, S).
        rbind (self Oexpr n S) (\<lambda>(res, S).
        rbind (next_token mem S) (\<lambda>(t, S). if t \<noteq> RPAREN then Inl Bad_Syntax else Inr (res, S))))
      else simple_primary mem e n S)"

primrec descend :: "nat \<Rightarrow> memory \<Rightarrow> test_env \<Rightarrow> descent" where
  "descend 0 mem e = (\<lambda>l n S. Inl No_Fuel)"
| "descend (Suc k) mem e = (\<lambda>l. case l of
       Nexpr \<Rightarrow> nexpr mem (descend k mem e) | Aexpr \<Rightarrow> aexpr mem (descend k mem e)
     | Oexpr \<Rightarrow> oexpr mem (descend k mem e) | Primary \<Rightarrow> primary mem e (descend k mem e))"

subsection \<open>The command\<close>

definition bb_basename :: "string \<Rightarrow> string" where
  "bb_basename name = (case strrchr name CHR ''/'' of None \<Rightarrow> name | Some cp \<Rightarrow> tl cp)"

definition fuel_for :: "memory \<Rightarrow> nat" where
  "fuel_for mem = 4 * length mem + 4"

definition test_run :: "memory \<Rightarrow> test_env \<Rightarrow> int tres" where
  "test_run mem e =
     rbind (arg mem 0) (\<lambda>a. if a = None then Inr 1
     else let S = \<lparr>args = 0, last_operator = None, group_array = [], ngroups = 0\<rparr> in
       rbind (check_arg mem 0 S) (\<lambda>(n, S).
       rbind (descend (fuel_for mem) mem e Oexpr n S) (\<lambda>(res, S).
       rbind (arg mem (args S)) (\<lambda>a.
         if a = None then Inr (if res then 0 else 1)
         else rbind (arg mem (args S + 1)) (\<lambda>a. Inr (if a \<noteq> None then 2 else if res then 0 else 1))))))"

text \<open>The array of arguments after \<open>argv[0]\<close>, the closing bracket replaced by a null pointer; \<open>None\<close>: it is missing.\<close>

definition test_args :: "string list \<Rightarrow> memory option" where
  "test_args argv =
     (let arg0 = bb_basename (hd argv) in
      if take 1 arg0 = ''[''
      then if last argv = (if tl arg0 = [] then '']'' else '']]'') then Some (map Some (butlast (tl argv)) @ [None, None]) else None
      else Some (map Some (tl argv) @ [None]))"

definition test_main :: "string list \<Rightarrow> test_env \<Rightarrow> int tres" where
  "test_main argv e =
     (case test_args argv of
        None \<Rightarrow> Inr 2
      | Some mem \<Rightarrow> (case test_run mem e of Inl Bad_Syntax \<Rightarrow> Inr 2 | r \<Rightarrow> r))"

end
