(* ===== verification/Test_Grammar.thy ===== *)
theory Test_Grammar
  imports Test_Applet
begin

text \<open>
  What the test command decides: it ends and stays inside the array of arguments when called as a bracket, and it evaluates the printed form of
  an expression tree to the value of the tree.
\<close>

subsection \<open>Tokens\<close>

definition tok :: "memory \<Rightarrow> nat \<Rightarrow> token" where
  "tok mem i = fst (check_operator (mem ! i))"

definition reads_at :: "memory \<Rightarrow> nat \<Rightarrow> token \<Rightarrow> test_statics \<Rightarrow> bool" where
  "reads_at mem i n S \<longleftrightarrow> args S = i \<and> i < length mem \<and> check_operator (mem ! i) = (n, last_operator S)"

lemma keyword_tokens:
  "check_operator (Some ''!'') = (UNOT, Some \<lparr>op_num = UNOT, op_type = BUNOP\<rparr>)"
  "check_operator (Some ''-a'') = (BAND, Some \<lparr>op_num = BAND, op_type = BBINOP\<rparr>)"
  "check_operator (Some ''-o'') = (BOR, Some \<lparr>op_num = BOR, op_type = BBINOP\<rparr>)"
  "check_operator (Some ''('') = (LPAREN, Some \<lparr>op_num = LPAREN, op_type = PAREN\<rparr>)"
  "check_operator (Some '')'') = (RPAREN, Some \<lparr>op_num = RPAREN, op_type = PAREN\<rparr>)"
  by code_simp+

lemma check_None [simp]: "check_operator None = (EOI, None)"
  by (simp add: check_operator_def)

lemma index_bounds: "index_in_strings ss s < int (length ss)"
  by (induction ss) (auto simp: Let_def)

lemma table_tokens: "list_all (\<lambda>p. op_num p \<notin> {EOI, OPERAND} \<and> (op_type p \<noteq> BBINOP \<longrightarrow> op_num p \<notin> {BAND, BOR}) \<and>
    (op_type p \<noteq> BUNOP \<longrightarrow> op_num p \<noteq> UNOT) \<and> (op_type p \<noteq> PAREN \<longrightarrow> op_num p \<notin> {LPAREN, RPAREN})) ops_table"
  by code_simp

lemma length_tables: "length ops_table = length ops_texts"
  by code_simp

lemma check_operator_entry:
  assumes "check_operator (Some s) = (n, Some p)"
  shows "n = op_num p" "p \<in> set ops_table"
proof -
  let ?i = "index_in_strings ops_texts s"
  have "0 \<le> ?i" "p = ops_table ! nat ?i" "n = op_num p"
    using assms by (auto simp: check_operator_def Let_def split: if_splits)
  moreover have "nat ?i < length ops_table" using index_bounds [of ops_texts s] calculation(1) by (simp add: length_tables)
  ultimately show "n = op_num p" "p \<in> set ops_table" by auto
qed

lemma check_operator_EOI: "fst (check_operator s) = EOI \<longleftrightarrow> s = None"
proof (cases s)
  case (Some t)
  then show ?thesis
  proof (cases "check_operator (Some t)")
    case (Pair n q)
    then show ?thesis using Some check_operator_entry [of t n] table_tokens
      by (cases q) (auto simp: list_all_iff check_operator_def Let_def split: if_splits)
  qed
qed simp

lemma typed_token:
  assumes "check_operator s = (n, q)" "has_type q t"
  shows "t \<notin> {BBINOP} \<Longrightarrow> n \<notin> {BAND, BOR}" "t \<noteq> BUNOP \<Longrightarrow> n \<noteq> UNOT" "t \<noteq> PAREN \<Longrightarrow> n \<notin> {LPAREN, RPAREN}"
    "n \<noteq> EOI" "s \<noteq> None"
proof -
  obtain p where p: "q = Some p" "op_type p = t" using assms(2) by (auto simp: has_type_def split: option.splits)
  obtain u where u: "s = Some u" using assms p by (cases s) auto
  have "n = op_num p" "p \<in> set ops_table" using check_operator_entry [of u n p] assms(1) p u by auto
  then show "t \<notin> {BBINOP} \<Longrightarrow> n \<notin> {BAND, BOR}" "t \<noteq> BUNOP \<Longrightarrow> n \<noteq> UNOT" "t \<noteq> PAREN \<Longrightarrow> n \<notin> {LPAREN, RPAREN}" "n \<noteq> EOI" "s \<noteq> None"
    using table_tokens p u by (auto simp: list_all_iff)
qed

lemma only_index: "index_in_strings ss s = int j \<Longrightarrow> s = ss ! j"
proof (induction ss arbitrary: j)
  case (Cons x ss)
  then show ?case by (cases j) (auto simp: Let_def split: if_splits)
qed simp

lemma only_token:
  assumes "filter (\<lambda>p. op_num (fst p) = n) (zip ops_table ops_texts) = [(p, t)]" "fst (check_operator (Some s)) = n" "n \<noteq> OPERAND"
  shows "s = t"
proof -
  let ?i = "index_in_strings ops_texts s"
  have i: "0 \<le> ?i" "op_num (ops_table ! nat ?i) = n"
    using assms(2,3) by (auto simp: check_operator_def Let_def split: if_splits)
  have lt: "nat ?i < length ops_texts" using index_bounds [of ops_texts s] i(1) by simp
  have "s = ops_texts ! nat ?i" using only_index [of ops_texts s "nat ?i"] i(1) by simp
  then have "(ops_table ! nat ?i, s) \<in> set (zip ops_table ops_texts)" using lt length_tables by (auto simp: set_zip)
  then have "(ops_table ! nat ?i, s) \<in> set (filter (\<lambda>p. op_num (fst p) = n) (zip ops_table ops_texts))" using i(2) by simp
  then show ?thesis unfolding assms(1) by simp
qed

lemma only_paren: "fst (check_operator (Some s)) = LPAREN \<Longrightarrow> s = ''(''"
proof -
  assume "fst (check_operator (Some s)) = LPAREN"
  moreover have "filter (\<lambda>p. op_num (fst p) = LPAREN) (zip ops_table ops_texts) = [(\<lparr>op_num = LPAREN, op_type = PAREN\<rparr>, ''('')]" by code_simp
  ultimately show ?thesis using only_token by blast
qed

lemma only_not: "fst (check_operator (Some s)) = UNOT \<Longrightarrow> s = ''!''"
proof -
  assume "fst (check_operator (Some s)) = UNOT"
  moreover have "filter (\<lambda>p. op_num (fst p) = UNOT) (zip ops_table ops_texts) = [(\<lparr>op_num = UNOT, op_type = BUNOP\<rparr>, ''!'')]" by code_simp
  ultimately show ?thesis using only_token by blast
qed

lemma check_arg_in: "i < length mem \<Longrightarrow> check_arg mem i S = Inr (tok mem i, S\<lparr>last_operator := snd (check_operator (mem ! i))\<rparr>)"
  by (simp add: check_arg_def arg_def tok_def split: prod.split)

lemma next_token_in:
  "args S + 1 < length mem \<Longrightarrow>
   next_token mem S = Inr (tok mem (args S + 1), S\<lparr>args := args S + 1, last_operator := snd (check_operator (mem ! (args S + 1)))\<rparr>)"
  by (simp add: next_token_def check_arg_in)

subsection \<open>Termination and bounds\<close>

text \<open>The array holds \<open>n\<close> strings and then null pointers.\<close>

definition terminated :: "memory \<Rightarrow> nat \<Rightarrow> bool" where
  "terminated mem n \<longleftrightarrow> n < length mem \<and> (\<forall>i<length mem. mem ! i = None \<longleftrightarrow> n \<le> i)"

text \<open>A result that left by \<open>syntax\<close> or ends inside the array; only an array with a single null pointer can be overrun.\<close>

definition stays_in :: "memory \<Rightarrow> nat \<Rightarrow> nat \<Rightarrow> (bool \<times> test_statics) tres \<Rightarrow> bool" where
  "stays_in mem n i r =
     (case r of Inl x \<Rightarrow> x = Bad_Syntax \<or> x = Past_End \<and> length mem = n + 1 | Inr (b, S) \<Rightarrow> i \<le> args S \<and> args S \<le> n)"

lemma stays_in_simps [simp]:
  "stays_in mem n i (Inl Bad_Syntax)" "stays_in mem n i (Inr (b, S)) \<longleftrightarrow> i \<le> args S \<and> args S \<le> n"
  "stays_in mem n i (Inl Past_End) \<longleftrightarrow> length mem = n + 1"
  by (simp_all add: stays_in_def)




lemma text_arg_in: "i < length mem \<Longrightarrow> mem ! i = Some s \<Longrightarrow> text_arg mem i = Inr s"
  by (simp add: text_arg_def arg_def)


lemma getn_cases: "(\<exists>v. getn w s = Inr v) \<or> getn w s = Inl Bad_Syntax"
  by (auto simp: getn_def Let_def split: prod.split)

lemma binop_value_cases: "(\<exists>b. binop_value e t x y = Inr b) \<or> binop_value e t x y = Inl Bad_Syntax"
  using getn_cases [of "test_64 e" x] getn_cases [of "test_64 e" y] by (auto simp: binop_value_def)


lemma groups_once:
  "initialize_group_array e S = S\<lparr>ngroups := getgroups e 32, group_array := (if getgroups e 32 < 0 then group_array S else groups e)\<rparr>"
  by (simp add: initialize_group_array_def get_groups_loop.simps [of e 32 S] getgroups_def Let_def)

lemma member_args: "args (snd (is_a_group_member e g S)) = args S"
  by (simp add: is_a_group_member_def groups_once Let_def)

lemma eaccess_args: "args (snd (test_eaccess e s m S)) = args S"
proof (cases "stat_of e s")
  case (Some st)
  obtain b S' where m: "is_a_group_member e (st_gid st) S = (b, S')" by fastforce
  then have "args S' = args S" using member_args [of e "st_gid st" S] by simp
  with Some m show ?thesis by (simp add: test_eaccess_def Let_def)
qed (simp add: test_eaccess_def)

lemma filstat_args: "args (snd (filstat e s n S)) = args S"
proof (cases "stat_of e s")
  case (Some st)
  have "args (snd (case test_eaccess e s m S of (r, S') \<Rightarrow> (r = 0, S'))) = args S" for m
    using eaccess_args [of e s m S] by (cases "test_eaccess e s m S") simp
  with Some show ?thesis by (simp add: filstat_def split: option.split)
qed (simp add: filstat_def split: option.split)



primrec weight :: "level \<Rightarrow> nat" where
  "weight Primary = 1"
| "weight Nexpr = 2"
| "weight Aexpr = 3"
| "weight Oexpr = 4"





lemma terminated_args: "terminated (map Some xs @ replicate (Suc m) None) (length xs)"
  by (auto simp: terminated_def nth_append nth_replicate simp del: replicate_Suc)


subsection \<open>Group membership\<close>

text \<open>The cached groups, and the membership they decide: with more than 32 groups the call fails and none counts.\<close>

definition cache_ok :: "test_env \<Rightarrow> test_statics \<Rightarrow> bool" where
  "cache_ok e S \<longleftrightarrow> ngroups S = 0 \<or> ngroups S = getgroups e 32 \<and> (0 \<le> ngroups S \<longrightarrow> group_array S = groups e)"

definition in_group :: "test_env \<Rightarrow> nat \<Rightarrow> bool" where
  "in_group e gid \<longleftrightarrow> gid = getgid e \<or> gid = getegid e \<or> length (groups e) \<le> 32 \<and> gid \<in> set (groups e)"

lemma cache_ok_update [simp]:
  "cache_ok e (S\<lparr>args := i\<rparr>) = cache_ok e S" "cache_ok e (S\<lparr>last_operator := p\<rparr>) = cache_ok e S"
  by (simp_all add: cache_ok_def)

lemma member_in_group:
  assumes "cache_ok e S"
  shows "fst (is_a_group_member e g S) = in_group e g \<and> cache_ok e (snd (is_a_group_member e g S))"
  using assms
  by (auto simp: is_a_group_member_def in_group_def cache_ok_def groups_once getgroups_def Let_def split: if_splits)

lemma eaccess_cached:
  assumes "cache_ok e S" "cache_ok e S'"
  shows "fst (test_eaccess e s m S) = fst (test_eaccess e s m S') \<and> cache_ok e (snd (test_eaccess e s m S))"
proof (cases "stat_of e s")
  case (Some st)
  obtain b T b' T' where m: "is_a_group_member e (st_gid st) S = (b, T)" "is_a_group_member e (st_gid st) S' = (b', T')" by fastforce
  then have "b' = b" "cache_ok e T"
    using member_in_group [OF assms(1), of "st_gid st"] member_in_group [OF assms(2), of "st_gid st"] by auto
  with Some m assms show ?thesis by (simp add: test_eaccess_def Let_def)
qed (use assms in \<open>simp add: test_eaccess_def\<close>)

lemma filstat_cached:
  assumes "cache_ok e S" "cache_ok e S'"
  shows "fst (filstat e s t S) = fst (filstat e s t S')" "cache_ok e (snd (filstat e s t S))"
proof -
  have "fst (case test_eaccess e s m S of (r, S') \<Rightarrow> (r = 0, S')) = fst (case test_eaccess e s m S' of (r, S') \<Rightarrow> (r = 0, S'))"
    "cache_ok e (snd (case test_eaccess e s m S of (r, S') \<Rightarrow> (r = 0, S')))" for m
    using eaccess_cached [OF assms, of s m] by (simp_all add: case_prod_beta)
  then show "fst (filstat e s t S) = fst (filstat e s t S')" "cache_ok e (snd (filstat e s t S))"
    using assms(1) by (simp_all add: filstat_def split: option.split)
qed

subsection \<open>Expression trees\<close>

datatype texp = Str string | Unary string string | Binary string string string | Not texp | And texp texp | Or texp texp

text \<open>The state in which a test starts.\<close>

definition start_statics :: test_statics where
  "start_statics = \<lparr>args = 0, last_operator = None, group_array = [], ngroups = 0\<rparr>"

definition un_sem :: "test_env \<Rightarrow> string \<Rightarrow> string \<Rightarrow> bool tres" where
  "un_sem e u s = (let t = fst (check_operator (Some u)) in
     if t = STREZ then Inr (s = []) else if t = STRNZ then Inr (s \<noteq> [])
     else if t = FILTT then rbind (getn (test_64 e) s) (\<lambda>fd. Inr (isatty e (to_int32 fd)))
     else Inr (fst (filstat e s t start_statics)))"

text \<open>Both operands of a connective are evaluated, from left to right.\<close>

fun tsem :: "test_env \<Rightarrow> texp \<Rightarrow> bool tres" where
  "tsem e (Str s) = Inr (s \<noteq> [])"
| "tsem e (Unary u s) = un_sem e u s"
| "tsem e (Binary a p b) = binop_value e (fst (check_operator (Some p))) a b"
| "tsem e (Not x) = rbind (tsem e x) (\<lambda>b. Inr (\<not> b))"
| "tsem e (And x y) = rbind (tsem e x) (\<lambda>a. rbind (tsem e y) (\<lambda>b. Inr (b \<and> a)))"
| "tsem e (Or x y) = rbind (tsem e x) (\<lambda>a. rbind (tsem e y) (\<lambda>b. Inr (b \<or> a)))"

definition parens :: "bool \<Rightarrow> string list \<Rightarrow> string list" where
  "parens p ts = (if p then ''('' # ts @ ['')''] else ts)"

text \<open>The arguments of a tree where a disjunction (0), a conjunction (1) or a negation (2) may stand.\<close>

fun texp_args :: "nat \<Rightarrow> texp \<Rightarrow> string list" where
  "texp_args l (Str s) = [s]"
| "texp_args l (Unary u s) = [u, s]"
| "texp_args l (Binary a p b) = [a, p, b]"
| "texp_args l (Not x) = ''!'' # texp_args 2 x"
| "texp_args l (And x y) = parens (1 < l) (texp_args 2 x @ ''-a'' # texp_args 1 y)"
| "texp_args l (Or x y) = parens (0 < l) (texp_args 1 x @ ''-o'' # texp_args 0 y)"

text \<open>
  A lone string is no operator, the operand of a unary operator is no binary operator, and the left operand of a binary operator is neither
  an opening parenthesis nor an exclamation mark.
\<close>

fun wf_texp :: "texp \<Rightarrow> bool" where
  "wf_texp (Str s) = (fst (check_operator (Some s)) = OPERAND)"
| "wf_texp (Unary u s) = (has_type (snd (check_operator (Some u))) UNOP \<and> \<not> has_type (snd (check_operator (Some s))) BINOP)"
| "wf_texp (Binary a p b) = (a \<noteq> ''('' \<and> a \<noteq> ''!'' \<and> has_type (snd (check_operator (Some p))) BINOP)"
| "wf_texp (Not x) = wf_texp x"
| "wf_texp (And x y) = (wf_texp x \<and> wf_texp y)"
| "wf_texp (Or x y) = (wf_texp x \<and> wf_texp y)"

subsection \<open>Parsing\<close>

definition yields :: "memory \<Rightarrow> test_env \<Rightarrow> nat \<Rightarrow> level \<Rightarrow> nat \<Rightarrow> nat \<Rightarrow> bool tres \<Rightarrow> bool" where
  "yields mem e k l i j r \<longleftrightarrow> (\<forall>n S. reads_at mem i n S \<longrightarrow> cache_ok e S \<longrightarrow>
     (case r of Inl x \<Rightarrow> descend k mem e l n S = Inl x
      | Inr b \<Rightarrow> \<exists>S'. descend k mem e l n S = Inr (b, S') \<and> args S' = j \<and> cache_ok e S'))"

lemma yieldsI:
  assumes "\<And>n S. reads_at mem i n S \<Longrightarrow> cache_ok e S \<Longrightarrow>
     (case r of Inl x \<Rightarrow> descend k mem e l n S = Inl x
      | Inr b \<Rightarrow> \<exists>S'. descend k mem e l n S = Inr (b, S') \<and> args S' = j \<and> cache_ok e S')"
  shows "yields mem e k l i j r"
  using assms by (simp add: yields_def)

lemma yieldsE:
  assumes "yields mem e k l i j r" "reads_at mem i n S" "cache_ok e S"
  obtains x where "r = Inl x" "descend k mem e l n S = Inl x"
  | b S' where "r = Inr b" "descend k mem e l n S = Inr (b, S')" "args S' = j" "cache_ok e S'"
proof (cases r)
  case (Inl x)
  then show thesis using assms that(1) by (auto simp: yields_def)
next
  case (Inr b)
  then show thesis using assms that(2) by (fastforce simp: yields_def)
qed

lemma next_reads: "args S + 1 < length mem \<Longrightarrow> cache_ok e S \<Longrightarrow>
    \<exists>S'. next_token mem S = Inr (tok mem (args S + 1), S') \<and> reads_at mem (args S + 1) (tok mem (args S + 1)) S' \<and> cache_ok e S'
      \<and> args S' = args S + 1"
  by (simp add: next_token_in reads_at_def tok_def)

lemma reads_at_tok: "reads_at mem i n S \<Longrightarrow> n = tok mem i \<and> args S = i \<and> i < length mem"
  by (simp add: reads_at_def tok_def)

lemma yields_primary_N:
  assumes "yields mem e k Primary i j r" "tok mem i \<noteq> UNOT"
  shows "yields mem e (Suc k) Nexpr i j r"
proof (rule yieldsI)
  fix n S
  assume S: "reads_at mem i n S" "cache_ok e S"
  have "descend (Suc k) mem e Nexpr n S = descend k mem e Primary n S"
    using assms(2) reads_at_tok [OF S(1)] by (simp add: nexpr_def)
  then show "case r of Inl x \<Rightarrow> descend (Suc k) mem e Nexpr n S = Inl x
      | Inr b \<Rightarrow> \<exists>S'. descend (Suc k) mem e Nexpr n S = Inr (b, S') \<and> args S' = j \<and> cache_ok e S'"
    using assms(1) S unfolding yields_def by (simp only:)
qed

lemma yields_not:
  assumes "yields mem e k Nexpr (Suc i) j r" "tok mem i = UNOT" "Suc i < length mem" "tok mem (Suc i) \<noteq> EOI"
  shows "yields mem e (Suc k) Nexpr i j (rbind r (\<lambda>b. Inr (\<not> b)))"
proof (rule yieldsI)
  fix n S
  assume S: "reads_at mem i n S" "cache_ok e S"
  then obtain S' where S': "next_token mem S = Inr (tok mem (Suc i), S')" "reads_at mem (Suc i) (tok mem (Suc i)) S'" "cache_ok e S'"
    using next_reads [of S mem e] reads_at_tok [OF S(1)] assms(3) by auto
  from assms(1) S'(2,3) show "case rbind r (\<lambda>b. Inr (\<not> b)) of Inl x \<Rightarrow> descend (Suc k) mem e Nexpr n S = Inl x
      | Inr b \<Rightarrow> \<exists>S'. descend (Suc k) mem e Nexpr n S = Inr (b, S') \<and> args S' = j \<and> cache_ok e S'"
    by (cases rule: yieldsE) (use S' assms reads_at_tok [OF S(1)] in \<open>auto simp: nexpr_def\<close>)
qed

text \<open>A connective: the operand and either the end of the chain or the operator and the rest of the chain.\<close>

definition chain :: "memory \<Rightarrow> descent \<Rightarrow> level \<Rightarrow> level \<Rightarrow> token \<Rightarrow> (bool \<Rightarrow> bool \<Rightarrow> bool) \<Rightarrow> token \<Rightarrow> test_statics \<Rightarrow> (bool \<times> test_statics) tres" where
  "chain mem self sub l op g n S =
     rbind (self sub n S) (\<lambda>(res, S).
     rbind (next_token mem S) (\<lambda>(t, S).
       if t = op
       then rbind (next_token mem S) (\<lambda>(n, S). rbind (self l n S) (\<lambda>(r, S). Inr (g r res, S)))
       else Inr (res, S\<lparr>args := args S - 1\<rparr>)))"

lemma chains:
  "descend (Suc k) mem e Aexpr = chain mem (descend k mem e) Nexpr Aexpr BAND (\<and>)"
  "descend (Suc k) mem e Oexpr = chain mem (descend k mem e) Aexpr Oexpr BOR (\<or>)"
  by (simp_all add: fun_eq_iff aexpr_def oexpr_def chain_def)

lemma yields_chain_end:
  assumes "descend (Suc k) mem e l = chain mem (descend k mem e) sub l op g"
    and "yields mem e k sub i j r" "Suc j < length mem" "tok mem (Suc j) \<noteq> op"
  shows "yields mem e (Suc k) l i j r"
proof (rule yieldsI)
  fix n S
  assume S: "reads_at mem i n S" "cache_ok e S"
  from assms(2) S show "case r of Inl x \<Rightarrow> descend (Suc k) mem e l n S = Inl x
      | Inr b \<Rightarrow> \<exists>S'. descend (Suc k) mem e l n S = Inr (b, S') \<and> args S' = j \<and> cache_ok e S'"
  proof (cases rule: yieldsE)
    case (2 b S')
    obtain S2 where "next_token mem S' = Inr (tok mem (Suc j), S2)" "args S2 = Suc j" "cache_ok e S2"
      using next_reads [of S' mem e] 2 assms(3) by auto
    then show ?thesis using 2 assms(4) by (simp add: assms(1) chain_def del: descend.simps)
  qed (simp add: assms(1) chain_def del: descend.simps)
qed

lemma yields_chain_op:
  assumes "descend (Suc k) mem e l = chain mem (descend k mem e) sub l op g"
    and "yields mem e k sub i j r" "tok mem (Suc j) = op" "Suc (Suc j) < length mem" "yields mem e k l (Suc (Suc j)) j' r'"
  shows "yields mem e (Suc k) l i j' (rbind r (\<lambda>a. rbind r' (\<lambda>b. Inr (g b a))))"
proof (rule yieldsI)
  fix n S
  assume S: "reads_at mem i n S" "cache_ok e S"
  let ?r = "rbind r (\<lambda>a. rbind r' (\<lambda>b. Inr (g b a)))"
  from assms(2) S show "case ?r of Inl x \<Rightarrow> descend (Suc k) mem e l n S = Inl x
      | Inr b \<Rightarrow> \<exists>S'. descend (Suc k) mem e l n S = Inr (b, S') \<and> args S' = j' \<and> cache_ok e S'"
  proof (cases rule: yieldsE)
    case (2 b S')
    obtain S2 where S2: "next_token mem S' = Inr (op, S2)" "args S2 = Suc j" "cache_ok e S2"
      using next_reads [of S' mem e] 2 assms(3,4) by auto
    obtain S3 where S3: "next_token mem S2 = Inr (tok mem (Suc (Suc j)), S3)" "reads_at mem (Suc (Suc j)) (tok mem (Suc (Suc j))) S3" "cache_ok e S3"
      using next_reads [of S2 mem e] S2 assms(4) by auto
    from assms(5) S3(2,3) show ?thesis
      by (cases rule: yieldsE) (use 2 S2 S3 in \<open>auto simp: assms(1) chain_def simp del: descend.simps\<close>)
  qed (simp add: assms(1) chain_def del: descend.simps)
qed

lemma yields_parens:
  assumes "yields mem e k Oexpr (Suc i) j r" "tok mem i = LPAREN" "tok mem (Suc j) = RPAREN" "Suc j < length mem" "Suc i < length mem"
  shows "yields mem e (Suc k) Primary i (Suc j) r"
proof (rule yieldsI)
  fix n S
  assume S: "reads_at mem i n S" "cache_ok e S"
  obtain S1 where S1: "next_token mem S = Inr (tok mem (Suc i), S1)" "reads_at mem (Suc i) (tok mem (Suc i)) S1" "cache_ok e S1"
    using next_reads [of S mem e] S reads_at_tok [OF S(1)] assms(5) by auto
  have n: "n = LPAREN" using assms(2) reads_at_tok [OF S(1)] by simp
  from assms(1) S1(2,3) show "case r of Inl x \<Rightarrow> descend (Suc k) mem e Primary n S = Inl x
      | Inr b \<Rightarrow> \<exists>S'. descend (Suc k) mem e Primary n S = Inr (b, S') \<and> args S' = Suc j \<and> cache_ok e S'"
  proof (cases rule: yieldsE)
    case (2 b S')
    obtain S2 where "next_token mem S' = Inr (RPAREN, S2)" "args S2 = Suc j" "cache_ok e S2"
      using next_reads [of S' mem e] 2 assms(3,4) by auto
    then show ?thesis using 2 S1 n by (simp add: primary_def)
  qed (use S1 n in \<open>simp add: primary_def\<close>)
qed

text \<open>The leaves.\<close>

lemma yields_leaf:
  assumes "tok mem i \<noteq> EOI" "tok mem i \<noteq> LPAREN"
    and "\<And>n S. reads_at mem i n S \<Longrightarrow> cache_ok e S \<Longrightarrow>
     (case r of Inl x \<Rightarrow> simple_primary mem e n S = Inl x
      | Inr b \<Rightarrow> \<exists>S'. simple_primary mem e n S = Inr (b, S') \<and> args S' = j \<and> cache_ok e S')"
  shows "yields mem e (Suc k) Primary i j r"
proof (rule yieldsI)
  fix n S
  assume S: "reads_at mem i n S" "cache_ok e S"
  have "descend (Suc k) mem e Primary n S = simple_primary mem e n S"
    using assms(1,2) reads_at_tok [OF S(1)] by (simp add: primary_def)
  then show "case r of Inl x \<Rightarrow> descend (Suc k) mem e Primary n S = Inl x
      | Inr b \<Rightarrow> \<exists>S'. descend (Suc k) mem e Primary n S = Inr (b, S') \<and> args S' = j \<and> cache_ok e S'"
    using assms(3) [OF S] by (simp only:)
qed

lemma yields_Str:
  assumes "mem ! i = Some s" "fst (check_operator (Some s)) = OPERAND" "Suc i < length mem"
    and "\<not> has_type (snd (check_operator (mem ! Suc i))) BINOP" "mem ! Suc i \<noteq> None \<Longrightarrow> Suc (Suc i) < length mem"
  shows "yields mem e (Suc k) Primary i i (Inr (s \<noteq> []))"
proof (rule yields_leaf)
  fix n S
  assume S: "reads_at mem i n S" "cache_ok e S"
  have p: "last_operator S = None"
    using S(1) assms(1,2) table_tokens check_operator_entry [of s n]
    by (cases "last_operator S") (auto simp: reads_at_def list_all_iff)
  have "tok mem (Suc i) = EOI \<longleftrightarrow> mem ! Suc i = None" by (simp add: tok_def check_operator_EOI)
  then have "simple_primary mem e n S = Inr (s \<noteq> [], S\<lparr>last_operator := snd (check_operator (mem ! Suc i))\<rparr>)"
    using S(1) assms p
    by (auto simp: simple_primary_def check_arg_in arg_def reads_at_def has_type_def not_empty_def text_arg_in Let_def)
  then show "case Inr (s \<noteq> []) of Inl x \<Rightarrow> simple_primary mem e n S = Inl x
      | Inr b \<Rightarrow> \<exists>S'. simple_primary mem e n S = Inr (b, S') \<and> args S' = i \<and> cache_ok e S'"
    using S by (simp add: reads_at_def)
qed (use assms(1,2) in \<open>simp_all add: tok_def\<close>)

lemma yields_Binary:
  assumes "mem ! i = Some a" "a \<noteq> ''(''" "mem ! Suc i = Some p" "has_type (snd (check_operator (Some p))) BINOP"
    and "mem ! Suc (Suc i) = Some b" "Suc (Suc i) < length mem"
  shows "yields mem e (Suc k) Primary i (Suc (Suc i)) (binop_value e (fst (check_operator (Some p))) a b)"
proof (rule yields_leaf)
  fix n S
  assume S: "reads_at mem i n S" "cache_ok e S"
  let ?S = "S\<lparr>last_operator := snd (check_operator (Some p))\<rparr>"
  have "tok mem (Suc i) = fst (check_operator (Some p))" using assms(3) by (simp add: tok_def)
  moreover from this have "tok mem (Suc i) \<noteq> EOI" by (simp add: check_operator_EOI)
  ultimately have "simple_primary mem e n S = rbind (binop_value e (fst (check_operator (Some p))) a b) (\<lambda>b. Inr (b, ?S\<lparr>args := Suc (Suc i)\<rparr>))"
    using S(1) assms by (simp add: simple_primary_def check_arg_in arg_def reads_at_def binop_def text_arg_in Let_def)
  then show "case binop_value e (fst (check_operator (Some p))) a b of Inl x \<Rightarrow> simple_primary mem e n S = Inl x
      | Inr b \<Rightarrow> \<exists>S'. simple_primary mem e n S = Inr (b, S') \<and> args S' = Suc (Suc i) \<and> cache_ok e S'"
    using S(2) by (simp split: sum.split)
next
  show "tok mem i \<noteq> EOI" using assms(1) by (simp add: tok_def check_operator_EOI)
  show "tok mem i \<noteq> LPAREN" using assms(1,2) only_paren [of a] by (auto simp: tok_def)
qed

lemma yields_Unary:
  assumes "mem ! i = Some u" "has_type (snd (check_operator (Some u))) UNOP" "mem ! Suc i = Some s"
    and "\<not> has_type (snd (check_operator (Some s))) BINOP" "Suc (Suc i) < length mem"
  shows "yields mem e (Suc k) Primary i (Suc i) (un_sem e u s)"
proof (rule yields_leaf)
  fix n S
  assume S: "reads_at mem i n S" "cache_ok e S"
  let ?S = "S\<lparr>last_operator := snd (check_operator (Some s))\<rparr>" and ?T = "S\<lparr>last_operator := snd (check_operator (Some s)), args := Suc i\<rparr>"
  have n: "n = fst (check_operator (Some u))" "last_operator S = snd (check_operator (Some u))" "args S = i"
    using S(1) assms(1) by (auto simp: reads_at_def)
  have "tok mem (Suc i) \<noteq> EOI" using assms(3) by (simp add: tok_def check_operator_EOI)
  then have un: "simple_primary mem e n S = unary mem e n ?S"
    using n assms by (simp add: simple_primary_def check_arg_in arg_def Let_def)
  have "cache_ok e start_statics" by (simp add: cache_ok_def start_statics_def)
  then have fil: "fst (filstat e s n ?T) = fst (filstat e s n start_statics)" "cache_ok e (snd (filstat e s n ?T))" "args (snd (filstat e s n ?T)) = Suc i"
    using filstat_cached [of e ?T start_statics s n] filstat_args [of e s n ?T] S(2) by simp_all
  show "case un_sem e u s of Inl x \<Rightarrow> simple_primary mem e n S = Inl x
      | Inr b \<Rightarrow> \<exists>S'. simple_primary mem e n S = Inr (b, S') \<and> args S' = Suc i \<and> cache_ok e S'"
    unfolding un using fil n assms S(2) getn_cases [of "test_64 e" s]
    by (cases "filstat e s n ?T") (auto simp: unary_def un_sem_def text_arg_in Let_def)
next
  have "check_operator (Some u) = (tok mem i, snd (check_operator (Some u)))" using assms(1) by (simp add: tok_def)
  from typed_token [OF this assms(2)] show "tok mem i \<noteq> EOI" "tok mem i \<noteq> LPAREN" by auto
qed

subsection \<open>The arguments of a tree\<close>

definition at :: "memory \<Rightarrow> nat \<Rightarrow> string list \<Rightarrow> bool" where
  "at mem i ts \<longleftrightarrow> (\<forall>j<length ts. mem ! (i + j) = Some (ts ! j))"

lemma at_Nil [simp]: "at mem i []"
  by (simp add: at_def)

lemma at_Cons [simp]: "at mem i (t # ts) \<longleftrightarrow> mem ! i = Some t \<and> at mem (Suc i) ts"
  by (auto simp: at_def less_Suc_eq_0_disj)

lemma at_append [simp]: "at mem i (ts @ us) \<longleftrightarrow> at mem i ts \<and> at mem (i + length ts) us"
proof (induction ts arbitrary: i)
  case (Cons t ts)
  then show ?case by simp
qed simp

definition follow :: "nat \<Rightarrow> token \<Rightarrow> bool" where
  "follow l t \<longleftrightarrow> t = EOI \<or> t = RPAREN \<or> 1 \<le> l \<and> t = BOR \<or> 2 \<le> l \<and> t = BAND"

definition level_of :: "nat \<Rightarrow> level" where
  "level_of l = (if l = 0 then Oexpr else if l = 1 then Aexpr else Nexpr)"

text \<open>\<open>c\<close> units of fuel for the arguments between \<open>i\<close> and \<open>j\<close> and one for each level.\<close>

definition reads_as :: "memory \<Rightarrow> test_env \<Rightarrow> nat \<Rightarrow> level \<Rightarrow> nat \<Rightarrow> nat \<Rightarrow> bool tres \<Rightarrow> bool" where
  "reads_as mem e c l i j r \<longleftrightarrow> (\<forall>k. c + weight l \<le> k \<longrightarrow> yields mem e k l i j r)"

lemma reads_asD: "reads_as mem e c l i j r \<Longrightarrow> c + weight l \<le> k \<Longrightarrow> yields mem e k l i j r"
  by (simp add: reads_as_def)

lemma reads_as_mono: "reads_as mem e c l i j r \<Longrightarrow> c \<le> c' \<Longrightarrow> reads_as mem e c' l i j r"
  by (simp add: reads_as_def)

lemma reads_as_Suc:
  assumes "\<And>k. c + weight l \<le> Suc k \<Longrightarrow> yields mem e (Suc k) l i j r"
  shows "reads_as mem e c l i j r"
  unfolding reads_as_def
proof (intro allI impI)
  fix k
  assume k: "c + weight l \<le> k"
  then obtain k' where "k = Suc k'" by (cases k; cases l) auto
  with assms k show "yields mem e k l i j r" by blast
qed

lemma lift_A:
  assumes "reads_as mem e c Aexpr i j r" "l \<le> 1" "Suc j < length mem" "follow l (tok mem (Suc j))"
  shows "reads_as mem e c (level_of l) i j r"
proof (cases "l = 0")
  case True
  have "tok mem (Suc j) \<noteq> BOR" using assms(4) True by (auto simp: follow_def)
  then have "reads_as mem e c Oexpr i j r"
    using assms(3) by (intro reads_as_Suc yields_chain_end [OF chains(2) reads_asD [OF assms(1)]]) auto
  with True show ?thesis by (simp add: level_of_def)
qed (use assms in \<open>simp add: level_of_def\<close>)

lemma lift_N:
  assumes "reads_as mem e c Nexpr i j r" "l \<le> 2" "Suc j < length mem" "follow l (tok mem (Suc j))"
  shows "reads_as mem e c (level_of l) i j r"
proof (cases "l \<le> 1")
  case True
  have "tok mem (Suc j) \<noteq> BAND" using assms(4) True by (auto simp: follow_def)
  then have "reads_as mem e c Aexpr i j r"
    using assms(3) by (intro reads_as_Suc yields_chain_end [OF chains(1) reads_asD [OF assms(1)]]) auto
  from lift_A [OF this True assms(3,4)] show ?thesis .
qed (use assms in \<open>simp add: level_of_def\<close>)

lemma lift_P:
  assumes "reads_as mem e c Primary i j r" "tok mem i \<noteq> UNOT" "l \<le> 2" "Suc j < length mem" "follow l (tok mem (Suc j))"
  shows "reads_as mem e c (level_of l) i j r"
proof -
  have "reads_as mem e c Nexpr i j r"
    using assms(2) by (intro reads_as_Suc yields_primary_N [OF reads_asD [OF assms(1)]]) auto
  from lift_N [OF this assms(3-5)] show ?thesis .
qed

lemma lift_parens:
  assumes "reads_as mem e c Oexpr (Suc i) j r" "mem ! i = Some ''(''" "mem ! Suc j = Some '')''" "Suc i < length mem" "Suc (Suc j) < length mem"
    and "l \<le> 2" "follow l (tok mem (Suc (Suc j)))"
  shows "reads_as mem e (c + 4) (level_of l) i (Suc j) r"
proof -
  have "tok mem i = LPAREN" "tok mem (Suc j) = RPAREN" using assms(2,3) by (simp_all add: tok_def keyword_tokens)
  moreover from this have "reads_as mem e (c + 4) Primary i (Suc j) r"
    using assms(4,5) by (intro reads_as_Suc yields_parens [OF reads_asD [OF assms(1)]]) auto
  ultimately show ?thesis using assms(5-7) by (intro lift_P) auto
qed

lemma texp_args_not_Nil [simp]: "texp_args l x \<noteq> []"
  by (cases x) (simp_all add: parens_def)

lemma follow_mono: "follow l t \<Longrightarrow> l \<le> l' \<Longrightarrow> follow l' t"
  by (auto simp: follow_def)

lemma follow_no_binop: "follow l (tok mem j) \<Longrightarrow> \<not> has_type (snd (check_operator (mem ! j))) BINOP"
  using typed_token [of "mem ! j" "tok mem j" "snd (check_operator (mem ! j))" BINOP] by (auto simp: tok_def follow_def)

text \<open>Where a tree with \<open>n\<close> arguments starts at \<open>i\<close>.\<close>

definition placed :: "memory \<Rightarrow> nat \<Rightarrow> nat \<Rightarrow> string list \<Rightarrow> bool" where
  "placed mem l i ts \<longleftrightarrow> at mem i ts \<and> i + length ts < length mem \<and> follow l (tok mem (i + length ts))"

lemma parse_chain:
  assumes "\<And>k. descend (Suc k) mem e lev = chain mem (descend k mem e) sub lev op g" "weight lev = Suc (weight sub)"
    and "reads_as mem e (4 * length xs) sub i (i + length xs - 1) r" "reads_as mem e (4 * length ys) lev (i + length xs + 1) (i + length xs + length ys) r'"
    and "xs \<noteq> []" "ys \<noteq> []" "mem ! (i + length xs) = Some p" "fst (check_operator (Some p)) = op" "i + length xs + length ys < length mem"
  shows "reads_as mem e (4 * length (xs @ p # ys)) lev i (i + length xs + length ys) (rbind r (\<lambda>a. rbind r' (\<lambda>b. Inr (g b a))))"
proof (rule reads_as_Suc)
  fix k
  assume k: "4 * length (xs @ p # ys) + weight lev \<le> Suc k"
  have pos: "Suc (i + length xs - Suc 0) = i + length xs" using assms(5) by (cases xs) auto
  have "yields mem e k sub i (i + length xs - 1) r" using k assms(2) by (intro reads_asD [OF assms(3)]) simp
  moreover have "yields mem e k lev (i + length xs + 1) (i + length xs + length ys) r'" using k by (intro reads_asD [OF assms(4)]) simp
  ultimately show "yields mem e (Suc k) lev i (i + length xs + length ys) (rbind r (\<lambda>a. rbind r' (\<lambda>b. Inr (g b a))))"
    using assms(6-9) by (intro yields_chain_op [OF assms(1), where j = "i + length xs - 1"]) (auto simp: pos tok_def neq_Nil_conv)
qed

lemma placed_parens:
  assumes "placed mem l i (''('' # ts @ ['')''])"
  shows "placed mem 0 (Suc i) ts" "mem ! i = Some ''(''" "mem ! Suc (i + length ts) = Some '')''" "Suc (Suc (i + length ts)) < length mem"
    "follow l (tok mem (Suc (Suc (i + length ts))))"
  using assms by (auto simp: placed_def follow_def tok_def keyword_tokens)

lemma parse_parens:
  assumes "\<And>j. placed mem 0 j ts \<Longrightarrow> reads_as mem e (4 * length ts) Oexpr j (j + length ts - 1) r" "l \<le> 2"
    and "placed mem l i (''('' # ts @ ['')''])"
  shows "reads_as mem e (4 * length (''('' # ts @ ['')''])) (level_of l) i (i + length (''('' # ts @ ['')'']) - 1) r"
proof -
  note p = placed_parens [OF assms(3)]
  have "reads_as mem e (4 * length ts) Oexpr (Suc i) (i + length ts) r" using assms(1) [OF p(1)] by simp
  from reads_as_mono [OF lift_parens [OF this p(2,3) _ p(4) assms(2) p(5)], of "4 * length ts + 8"] p(4) show ?thesis by (simp add: algebra_simps)
qed

lemma placed_mono: "placed mem l i ts \<Longrightarrow> l \<le> l' \<Longrightarrow> placed mem l' i ts"
  by (auto simp: placed_def intro: follow_mono)

text \<open>The arguments of a tree, at every level and every place, are read as its meaning; one lemma for each constructor.\<close>

definition parses :: "memory \<Rightarrow> test_env \<Rightarrow> texp \<Rightarrow> bool" where
  "parses mem e x \<longleftrightarrow> (\<forall>l i. l \<le> 2 \<longrightarrow> placed mem l i (texp_args l x) \<longrightarrow>
    reads_as mem e (4 * length (texp_args l x)) (level_of l) i (i + length (texp_args l x) - 1) (tsem e x))"

lemma parsesD:
  "parses mem e x \<Longrightarrow> l \<le> 2 \<Longrightarrow> placed mem l i (texp_args l x) \<Longrightarrow>
    reads_as mem e (4 * length (texp_args l x)) (level_of l) i (i + length (texp_args l x) - 1) (tsem e x)"
  by (simp add: parses_def)

lemma parses_Str:
  assumes "terminated mem N" and "wf_texp (Str s)"
  shows "parses mem e (Str s)"
  unfolding parses_def
proof (intro allI impI)
  fix l i
  assume l: "l \<le> 2" and "placed mem l i (texp_args l (Str s))"
  then have p: "mem ! i = Some s" "Suc i < length mem" "follow l (tok mem (Suc i))" by (auto simp: placed_def)
  have "Suc (Suc i) < length mem" if "mem ! Suc i \<noteq> None"
    using that p(2) assms(1) unfolding terminated_def by (metis Suc_leI le_less_trans not_le)
  then have "reads_as mem e 4 Primary i i (Inr (s \<noteq> []))"
    using assms(2) p by (intro reads_as_Suc yields_Str) (auto dest: follow_no_binop)
  then show "reads_as mem e (4 * length (texp_args l (Str s))) (level_of l) i (i + length (texp_args l (Str s)) - 1) (tsem e (Str s))"
    using assms(2) l p by (simp add: lift_P tok_def)
qed

lemma parses_Unary:
  assumes "wf_texp (Unary u s)"
  shows "parses mem e (Unary u s)"
  unfolding parses_def
proof (intro allI impI)
  fix l i
  assume l: "l \<le> 2" and "placed mem l i (texp_args l (Unary u s))"
  then have p: "mem ! i = Some u" "mem ! Suc i = Some s" "Suc (Suc i) < length mem" "follow l (tok mem (Suc (Suc i)))" by (auto simp: placed_def)
  have "tok mem i \<noteq> UNOT" using typed_token(2) [of "Some u" "tok mem i" "snd (check_operator (Some u))" UNOP] assms p by (simp add: tok_def)
  moreover have "reads_as mem e 8 Primary i (Suc i) (un_sem e u s)" using assms p by (intro reads_as_Suc yields_Unary) auto
  ultimately show "reads_as mem e (4 * length (texp_args l (Unary u s))) (level_of l) i (i + length (texp_args l (Unary u s)) - 1) (tsem e (Unary u s))"
    using l p by (simp add: lift_P)
qed

lemma parses_Binary:
  assumes "wf_texp (Binary a q b)"
  shows "parses mem e (Binary a q b)"
  unfolding parses_def
proof (intro allI impI)
  fix l i
  assume l: "l \<le> 2" and "placed mem l i (texp_args l (Binary a q b))"
  then have p: "mem ! i = Some a" "mem ! Suc i = Some q" "mem ! Suc (Suc i) = Some b" "Suc (Suc (Suc i)) < length mem"
      "follow l (tok mem (Suc (Suc (Suc i))))" by (auto simp: placed_def numeral_3_eq_3)
  have "tok mem i \<noteq> UNOT" using only_not [of a] assms p by (auto simp: tok_def)
  moreover have "reads_as mem e 12 Primary i (Suc (Suc i)) (binop_value e (fst (check_operator (Some q))) a b)"
    using assms p by (intro reads_as_Suc yields_Binary) auto
  ultimately show "reads_as mem e (4 * length (texp_args l (Binary a q b))) (level_of l) i (i + length (texp_args l (Binary a q b)) - 1) (tsem e (Binary a q b))"
    using l p by (simp add: lift_P numeral_2_eq_2)
qed

lemma parses_Not:
  assumes "parses mem e x"
  shows "parses mem e (Not x)"
  unfolding parses_def
proof (intro allI impI)
  fix l i
  let ?n = "length (texp_args 2 x)"
  assume l: "l \<le> 2" and "placed mem l i (texp_args l (Not x))"
  then have p: "mem ! i = Some ''!''" "placed mem 2 (Suc i) (texp_args 2 x)" "i + Suc ?n < length mem" "follow l (tok mem (i + Suc ?n))"
    by (auto simp: placed_def intro: follow_mono)
  have n: "0 < ?n" by simp
  from parsesD [OF assms _ p(2)] have ih: "reads_as mem e (4 * ?n) Nexpr (Suc i) (i + ?n) (tsem e x)" by (simp add: level_of_def)
  have "mem ! Suc i = Some (hd (texp_args 2 x))" using p(2) by (cases "texp_args 2 x") (auto simp: placed_def)
  then have "tok mem (Suc i) \<noteq> EOI" by (simp add: tok_def check_operator_EOI)
  then have "reads_as mem e (4 * Suc ?n) Nexpr i (i + ?n) (rbind (tsem e x) (\<lambda>b. Inr (\<not> b)))"
    using p n by (intro reads_as_Suc yields_not [OF reads_asD [OF ih]]) (auto simp: tok_def keyword_tokens)
  from lift_N [OF this l] show "reads_as mem e (4 * length (texp_args l (Not x))) (level_of l) i (i + length (texp_args l (Not x)) - 1) (tsem e (Not x))"
    using p(3,4) by simp
qed

text \<open>The two chains without their parentheses.\<close>

lemma chain_And:
  assumes "parses mem e x" "parses mem e y" and p: "placed mem 1 j (texp_args 2 x @ ''-a'' # texp_args 1 y)"
  shows "reads_as mem e (4 * length (texp_args 2 x @ ''-a'' # texp_args 1 y)) Aexpr j
    (j + length (texp_args 2 x @ ''-a'' # texp_args 1 y) - 1) (tsem e (And x y))"
proof -
  let ?xs = "texp_args 2 x" and ?ys = "texp_args 1 y"
  have x: "placed mem 2 j ?xs" using p by (auto simp: placed_def follow_def tok_def keyword_tokens)
  have y: "placed mem 1 (j + length ?xs + 1) ?ys" using p by (auto simp: placed_def add.assoc)
  have "reads_as mem e (4 * length (?xs @ ''-a'' # ?ys)) Aexpr j (j + length ?xs + length ?ys) (rbind (tsem e x) (\<lambda>a. rbind (tsem e y) (\<lambda>b. Inr (b \<and> a))))"
    using parsesD [OF assms(1) _ x] parsesD [OF assms(2) _ y] p
    by (intro parse_chain [OF chains(1)]) (simp_all add: level_of_def placed_def keyword_tokens)
  then show ?thesis by (simp add: add.assoc)
qed

lemma chain_Or:
  assumes "parses mem e x" "parses mem e y" and p: "placed mem 0 j (texp_args 1 x @ ''-o'' # texp_args 0 y)"
  shows "reads_as mem e (4 * length (texp_args 1 x @ ''-o'' # texp_args 0 y)) Oexpr j
    (j + length (texp_args 1 x @ ''-o'' # texp_args 0 y) - 1) (tsem e (Or x y))"
proof -
  let ?xs = "texp_args 1 x" and ?ys = "texp_args 0 y"
  have x: "placed mem 1 j ?xs" using p by (auto simp: placed_def follow_def tok_def keyword_tokens)
  have y: "placed mem 0 (j + length ?xs + 1) ?ys" using p by (auto simp: placed_def add.assoc)
  have "reads_as mem e (4 * length (?xs @ ''-o'' # ?ys)) Oexpr j (j + length ?xs + length ?ys) (rbind (tsem e x) (\<lambda>a. rbind (tsem e y) (\<lambda>b. Inr (b \<or> a))))"
    using parsesD [OF assms(1) _ x] parsesD [OF assms(2) _ y] p
    by (intro parse_chain [OF chains(2)]) (simp_all add: level_of_def placed_def keyword_tokens)
  then show ?thesis by (simp add: add.assoc)
qed

lemma parses_And:
  assumes "parses mem e x" "parses mem e y"
  shows "parses mem e (And x y)"
  unfolding parses_def
proof (intro allI impI)
  fix l i
  let ?ts = "texp_args 2 x @ ''-a'' # texp_args 1 y"
  assume l: "l \<le> 2" "placed mem l i (texp_args l (And x y))"
  have low: "reads_as mem e (4 * length ?ts) (level_of k) j (j + length ?ts - 1) (tsem e (And x y))" if "placed mem k j ?ts" "k \<le> 1" for j k
  proof (rule lift_A [OF chain_And [OF assms placed_mono [OF that]] that(2)])
    have "Suc (j + length ?ts - 1) = j + length ?ts" by simp
    then show "Suc (j + length ?ts - 1) < length mem" "follow k (tok mem (Suc (j + length ?ts - 1)))"
      using that(1) unfolding placed_def by presburger+
  qed
  show "reads_as mem e (4 * length (texp_args l (And x y))) (level_of l) i (i + length (texp_args l (And x y)) - 1) (tsem e (And x y))"
  proof (cases "l \<le> 1")
    case True
    then show ?thesis using l(2) low [of l i] by (simp add: parens_def)
  next
    case False
    then show ?thesis using l parse_parens [of mem ?ts e "tsem e (And x y)" l i] low [of 0] by (simp add: parens_def level_of_def)
  qed
qed

lemma parses_Or:
  assumes "parses mem e x" "parses mem e y"
  shows "parses mem e (Or x y)"
  unfolding parses_def
proof (intro allI impI)
  fix l i
  let ?ts = "texp_args 1 x @ ''-o'' # texp_args 0 y"
  assume l: "l \<le> 2" "placed mem l i (texp_args l (Or x y))"
  note body = chain_Or [OF assms]
  show "reads_as mem e (4 * length (texp_args l (Or x y))) (level_of l) i (i + length (texp_args l (Or x y)) - 1) (tsem e (Or x y))"
  proof (cases "l = 0")
    case True
    then show ?thesis using l body [of i] by (simp add: level_of_def parens_def)
  next
    case False
    then show ?thesis using l parse_parens [of mem ?ts e "tsem e (Or x y)" l i] body by (simp add: parens_def)
  qed
qed

lemma parse_texp:
  assumes "terminated mem N"
  shows "wf_texp x \<Longrightarrow> parses mem e x"
  by (induction x) (simp_all add: parses_Str [OF assms] parses_Unary parses_Binary parses_Not parses_And parses_Or del: wf_texp.simps(1-3))

subsection \<open>The command\<close>

lemma getn_syntax: "getn w s = Inl x \<Longrightarrow> x = Bad_Syntax"
  using getn_cases [of w s] by auto

lemma tsem_syntax: "tsem e t = Inl x \<Longrightarrow> x = Bad_Syntax"
proof (induction t)
  case (Unary u s)
  then show ?case by (auto simp: un_sem_def Let_def rbind_Inl dest: getn_syntax split: if_splits)
next
  case (Binary a p b)
  then show ?case using binop_value_cases [of e "fst (check_operator (Some p))" a b] by auto
qed (auto simp: rbind_Inl)

definition exit_status :: "bool tres \<Rightarrow> int" where
  "exit_status r = (case r of Inl _ \<Rightarrow> 2 | Inr b \<Rightarrow> if b then 0 else 1)"

lemma at_args: "at (map Some ts @ us) 0 ts"
  by (simp add: at_def nth_append)

lemma run_texp:
  assumes "wf_texp x"
  shows "test_run (map Some (texp_args 0 x) @ replicate (Suc m) None) e = (case tsem e x of Inl y \<Rightarrow> Inl y | Inr b \<Rightarrow> Inr (if b then 0 else 1))"
proof -
  let ?ts = "texp_args 0 x"
  let ?mem = "map Some ?ts @ replicate (Suc m) None"
  let ?S = "\<lparr>args = 0, last_operator = snd (check_operator (?mem ! 0)), group_array = [], ngroups = 0\<rparr>"
  have n: "0 < length ?ts" and len: "length ?mem = length ?ts + Suc m" by simp_all
  have stop: "?mem ! length ?ts = None" and start: "?mem ! 0 = Some (hd ?ts)" and final: "?mem ! (length ?ts - 1) \<noteq> None"
    by (simp_all add: nth_append hd_conv_nth)
  have "placed ?mem 0 0 ?ts" using at_args [of ?ts] stop by (simp add: placed_def follow_def tok_def)
  from parsesD [OF parse_texp [OF terminated_args assms] _ this] have "reads_as ?mem e (4 * length ?ts) Oexpr 0 (length ?ts - 1) (tsem e x)"
    by (simp add: level_of_def)
  then have "yields ?mem e (fuel_for ?mem) Oexpr 0 (length ?ts - 1) (tsem e x)" by (rule reads_asD) (simp add: fuel_for_def)
  moreover have "reads_at ?mem 0 (tok ?mem 0) ?S" "cache_ok e ?S" using n by (simp_all add: reads_at_def tok_def cache_ok_def)
  moreover have "test_run ?mem e = rbind (descend (fuel_for ?mem) ?mem e Oexpr (tok ?mem 0) ?S) (\<lambda>(res, S).
      rbind (arg ?mem (args S)) (\<lambda>a. if a = None then Inr (if res then 0 else 1)
        else rbind (arg ?mem (args S + 1)) (\<lambda>a. Inr (if a \<noteq> None then 2 else if res then 0 else 1))))"
    using start len by (simp add: test_run_def arg_def check_arg_in del: replicate_Suc)
  ultimately show ?thesis
    using stop final n len by (elim yieldsE) (auto simp: arg_def simp del: replicate_Suc)
qed

text \<open>The two names of the command: the closing bracket of the second is replaced by a null pointer.\<close>

lemma command_names: "bb_basename ''test'' = ''test''" "bb_basename ''['' = ''[''"
  by code_simp+

lemma main_texp:
  assumes "wf_texp x"
  shows "test_main (''test'' # texp_args 0 x) e = Inr (exit_status (tsem e x))" "test_main (''['' # texp_args 0 x @ ['']'']) e = Inr (exit_status (tsem e x))"
proof -
  have *: "(case test_run (map Some (texp_args 0 x) @ replicate (Suc m) None) e of Inl Bad_Syntax \<Rightarrow> Inr 2 | r \<Rightarrow> r) = Inr (exit_status (tsem e x))" for m
    by (cases "tsem e x") (auto simp: run_texp [OF assms] exit_status_def dest: tsem_syntax simp del: replicate_Suc)
  show "test_main (''test'' # texp_args 0 x) e = Inr (exit_status (tsem e x))" "test_main (''['' # texp_args 0 x @ ['']'']) e = Inr (exit_status (tsem e x))"
    using * [of 0] * [of 1] by (simp_all add: test_main_def test_args_def command_names Let_def)
qed

text \<open>The bits that the permission check reads: those of the owner, of the group or of the others.\<close>

definition permitted :: "test_env \<Rightarrow> stat \<Rightarrow> nat \<Rightarrow> bool" where
  "permitted e st k \<longleftrightarrow>
     geteuid e = 0 \<and> (k \<noteq> 0 \<or> (\<exists>i \<in> {0, 3, 6}. bit (st_mode st) i))
     \<or> bit (st_mode st) (k + (if st_uid st = geteuid e then 6 else if in_group e (st_gid st) then 3 else 0))"

lemma and_single_bit: "(w AND push_bit k 1 \<noteq> 0) = bit w k" for w :: "'a::len word"
  by (metis and_exp_eq_0_iff_not_bit push_bit_of_1)

lemma any_exec_bit: "(w AND 0x49 \<noteq> 0) = (\<exists>i \<in> {0, 3, 6}. bit w i)" for w :: u32
proof -
  have "(0x49 :: u32) = push_bit 0 1 OR push_bit 3 1 OR push_bit 6 1" by code_simp
  then have "w AND 0x49 = 0 \<longleftrightarrow> w AND push_bit 0 1 = 0 \<and> w AND push_bit 3 1 = 0 \<and> w AND push_bit 6 1 = 0"
    by (simp only: bit.conj_disj_distrib or_eq_0_iff)
  then show ?thesis by (simp only: and_single_bit [symmetric]) simp
qed

lemma eaccess_permitted:
  assumes "stat_of e f = Some st" "cache_ok e S"
  shows "(fst (test_eaccess e f (2 ^ k) S) = 0) = permitted e st k"
proof -
  have m: "fst (is_a_group_member e (st_gid st) S) = in_group e (st_gid st)" using member_in_group [OF assms(2)] by blast
  have "push_bit j (of_nat (2 ^ k)) = push_bit (k + j) (1 :: u32)" for j by (simp add: push_bit_eq_mult power_add)
  then have bits: "(st_mode st AND push_bit j (of_nat (2 ^ k)) \<noteq> 0) = bit (st_mode st) (k + j)" for j using and_single_bit by metis
  have x: "((2::nat) ^ k = X_OK) = (k = 0)" by (simp add: X_OK_def power_eq_iff_eq_base [of k 2 1])
  show ?thesis
    using assms(1) m by (simp only: test_eaccess_def permitted_def any_exec_bit x option.case Let_def case_prod_beta bits split: if_split) auto
qed

lemma access_status:
  assumes "stat_of e f = Some st" "\<not> has_type (snd (check_operator (Some f))) BINOP"
  shows "test_main [''test'', ''-r'', f] e = Inr (if permitted e st 2 then 0 else 1)"
    "test_main [''test'', ''-w'', f] e = Inr (if permitted e st 1 then 0 else 1)"
    "test_main [''test'', ''-x'', f] e = Inr (if permitted e st 0 then 0 else 1)"
proof -
  have c: "cache_ok e start_statics" by (simp add: cache_ok_def start_statics_def)
  have ops: "check_operator (Some ''-r'') = (FILRD, Some \<lparr>op_num = FILRD, op_type = UNOP\<rparr>)" "check_operator (Some ''-w'') = (FILWR, Some \<lparr>op_num = FILWR, op_type = UNOP\<rparr>)"
      "check_operator (Some ''-x'') = (FILEX, Some \<lparr>op_num = FILEX, op_type = UNOP\<rparr>)"
    by code_simp+
  have sem: "tsem e (Unary u f) = Inr (permitted e st k)" if "fst (check_operator (Some u)) = t" "(t, k) \<in> {(FILRD, 2), (FILWR, 1), (FILEX, 0)}" for u t k
    using that eaccess_permitted [OF assms(1) c, of k] assms(1)
    by (auto simp: un_sem_def filstat_def is_file_access_def R_OK_def W_OK_def X_OK_def case_prod_beta)
  have run: "test_main [''test'', u, f] e = Inr (if permitted e st k then 0 else 1)"
    if "wf_texp (Unary u f)" "tsem e (Unary u f) = Inr (permitted e st k)" for u k
    using main_texp(1) [OF that(1), of e] that(2) by (simp add: exit_status_def)
  show "test_main [''test'', ''-r'', f] e = Inr (if permitted e st 2 then 0 else 1)"
    by (intro run sem [where t = FILRD]) (use assms(2) ops in \<open>simp_all add: has_type_def\<close>)
  show "test_main [''test'', ''-w'', f] e = Inr (if permitted e st 1 then 0 else 1)"
    by (intro run sem [where t = FILWR]) (use assms(2) ops in \<open>simp_all add: has_type_def\<close>)
  show "test_main [''test'', ''-x'', f] e = Inr (if permitted e st 0 then 0 else 1)"
    by (intro run sem [where t = FILEX]) (use assms(2) ops in \<open>simp_all add: has_type_def\<close>)
qed



subsection \<open>Properties\<close>

definition quiet_env :: test_env where
  "quiet_env = \<lparr>stat_of = \<lambda>_. None, lstat_of = \<lambda>_. None, geteuid = 1000, getgid = 1000, getegid = 1000, groups = [], isatty = \<lambda>_. False,
     test_64 = False\<rparr>"

definition sample_file :: stat where
  "sample_file = \<lparr>st_mode = 0x81e4, st_uid = 0, st_gid = 7, st_size = 1, st_mtime = 0, st_dev = 0, st_ino = 1\<rparr>"

definition sample_texp :: texp where
  "sample_texp = And (Binary ''1'' ''-lt'' ''2'') (Not (Or (Unary ''-f'' ''x'') (Binary ''a'' ''='' ''b'')))"

text \<open>
  C26: The arguments of an expression tree, printed with the parentheses that the precedence of negation, conjunction and disjunction asks for,
  are parsed back to that tree by either name of the command: the status is 0 or 1 as the tree is true or false, and 2 when one of its numbers
  is malformed or out of range.
\<close>

theorem test_evaluates_tree:
  assumes "wf_texp x"
  shows "test_main (''test'' # texp_args 0 x) e = Inr (exit_status (tsem e x)) \<and>
    test_main (''['' # texp_args 0 x @ ['']'']) e = Inr (exit_status (tsem e x))"
  using main_texp [OF assms] by blast

theorem test_evaluates_tree_witness:
  "wf_texp sample_texp \<and> test_main [''['', ''1'', ''-lt'', ''2'', ''-a'', ''!'', ''('', ''-f'', ''x'', ''-o'', ''a'', ''='', ''b'', '')'', '']''] quiet_env = Inr 0"
proof -
  have "wf_texp sample_texp" "exit_status (tsem quiet_env sample_texp) = 0"
    "texp_args 0 sample_texp = [''1'', ''-lt'', ''2'', ''-a'', ''!'', ''('', ''-f'', ''x'', ''-o'', ''a'', ''='', ''b'', '')'']"
    by code_simp+
  with test_evaluates_tree [of sample_texp quiet_env] show ?thesis by simp
qed


text \<open>
  C28: The access tests decide by the bits of the owner, of the group or of the others, whichever class the process belongs to first; the
  superuser may read and write everything and execute what anybody may execute. Supplementary groups count only when there are at most 32.
\<close>

theorem test_access:
  assumes "stat_of e f = Some st" "\<not> has_type (snd (check_operator (Some f))) BINOP"
  shows "test_main [''test'', ''-r'', f] e = Inr (if permitted e st 2 then 0 else 1) \<and>
    test_main [''test'', ''-w'', f] e = Inr (if permitted e st 1 then 0 else 1) \<and>
    test_main [''test'', ''-x'', f] e = Inr (if permitted e st 0 then 0 else 1)"
  using access_status [OF assms] by blast

theorem test_access_witness:
  "test_main [''test'', ''-x'', ''f''] (quiet_env\<lparr>stat_of := [''f'' \<mapsto> sample_file], groups := [7]\<rparr>) = Inr 1 \<and>
   test_main [''test'', ''-r'', ''f''] (quiet_env\<lparr>stat_of := [''f'' \<mapsto> sample_file], groups := [7]\<rparr>) = Inr 0"
proof -
  let ?e = "quiet_env\<lparr>stat_of := [''f'' \<mapsto> sample_file], groups := [7]\<rparr>"
  have "permitted ?e sample_file 2" "\<not> permitted ?e sample_file 0" "\<not> has_type (snd (check_operator (Some ''f''))) BINOP" by code_simp+
  with test_access [of ?e "''f''" sample_file] show ?thesis by simp
qed

end
