(* ===== verification/Digest.thy ===== *)
theory Digest
  imports Prelude
begin

text \<open>
  A digest fed piece by piece is the digest of the whole message: the contexts of the code refine an abstract
  state of a chaining value and an incomplete block.
\<close>

subsection \<open>Absorbing blocks\<close>

text \<open>The chaining value after the complete blocks of a text, and the incomplete block at its end.\<close>

function absorb :: "nat \<Rightarrow> ('h \<Rightarrow> byte list \<Rightarrow> 'h) \<Rightarrow> 'h \<Rightarrow> byte list \<Rightarrow> 'h \<times> byte list" where
  "absorb B f h s = (if 0 < B \<and> B \<le> length s then absorb B f (f h (take B s)) (drop B s) else (h, s))"
  by pat_completeness auto
termination by (relation "measure (\<lambda>(B, f, h, s). length s)") auto

declare absorb.simps [simp del]

lemma absorb_short: "length s < B \<Longrightarrow> absorb B f h s = (h, s)"
  by (simp add: absorb.simps)

lemma absorb_block: "0 < B \<Longrightarrow> length b = B \<Longrightarrow> absorb B f h (b @ s) = absorb B f (f h b) s"
  by (subst absorb.simps) simp

lemma absorb_append: "absorb B f h (s @ t) = (case absorb B f h s of (h', r) \<Rightarrow> absorb B f h' (r @ t))"
proof (induction B f h s rule: absorb.induct)
  case (1 B f h s)
  show ?case
  proof (cases "0 < B \<and> B \<le> length s")
    case True
    then have "absorb B f h (s @ t) = absorb B f (f h (take B s)) (drop B s @ t)"
      by (subst absorb.simps) simp
    with 1 True show ?thesis by (simp add: absorb.simps [of B f h s])
  next
    case False
    then have "absorb B f h s = (h, s)" by (subst absorb.simps) auto
    then show ?thesis by simp
  qed
qed

lemma absorb_rest: "0 < B \<Longrightarrow> absorb B f h s = (h', r) \<Longrightarrow> length r = length s mod B"
proof (induction B f h s rule: absorb.induct)
  case (1 B f h s)
  show ?case
  proof (cases "B \<le> length s")
    case True
    with 1 show ?thesis by (simp add: absorb.simps [of B f h s] le_mod_geq)
  next
    case False
    with 1 show ?thesis by (simp add: absorb.simps [of B f h s])
  qed
qed

subsection \<open>The interface of a streaming digest\<close>

text \<open>
  \<open>fed m c\<close>: the context \<open>c\<close> has received the text \<open>m\<close>. A client that starts a digest, feeds pieces and ends it obtains the digest of
  the concatenation.
\<close>

locale digest_stream =
  fixes start :: "'c \<Rightarrow> 'c" and update :: "byte list \<Rightarrow> 'c \<Rightarrow> 'c" and finish :: "'c \<Rightarrow> byte list"
    and usable :: "'c \<Rightarrow> bool" and fed :: "byte list \<Rightarrow> 'c \<Rightarrow> bool" and digest :: "byte list \<Rightarrow> byte list"
    and piece :: "byte list \<Rightarrow> bool"
  assumes fed_start: "usable c \<Longrightarrow> fed [] (start c)"
    and fed_update: "fed m c \<Longrightarrow> piece p \<Longrightarrow> fed (m @ p) (update p c)"
    and fed_finish: "fed m c \<Longrightarrow> finish c = digest m"
begin

lemma fed_pieces: "fed m c \<Longrightarrow> \<forall>p\<in>set ps. piece p \<Longrightarrow> fed (m @ concat ps) (fold update ps c)"
proof (induction ps arbitrary: m c)
  case (Cons p ps)
  then have "fed (m @ p) (update p c)" by (simp add: fed_update)
  from Cons.IH [OF this] Cons.prems show ?case by simp
qed simp

lemma stream_digest: "usable c \<Longrightarrow> \<forall>p\<in>set ps. piece p \<Longrightarrow> finish (fold update ps (start c)) = digest (concat ps)"
  using fed_pieces [OF fed_start] fed_finish by force

end

subsection \<open>Padding\<close>

definition md_pad :: "nat \<Rightarrow> byte list \<Rightarrow> byte list \<Rightarrow> byte list" where
  "md_pad B len m = 0x80 # replicate ((B - (length m + 1 + length len) mod B) mod B) 0 @ len"

lemma absorb_pad:
  assumes "absorb B f h0 m = (h, r)" and L: "L = length len" "0 < L" "L < B"
  shows "fst (absorb B f h0 (m @ md_pad B len m)) =
    (if length r + 1 + L \<le> B
     then f h (r @ 0x80 # replicate (B - L - 1 - length r) 0 @ len)
     else f (f h (r @ 0x80 # replicate (B - 1 - length r) 0)) (replicate (B - L) 0 @ len))"
proof -
  have B: "0 < B" using assms by simp
  have r: "length r = length m mod B" using absorb_rest [OF B assms(1)] .
  have r_less: "length r < B" using r B by simp
  have "(length m + 1 + L) mod B = (length r + 1 + L) mod B" unfolding r by (metis mod_add_left_eq add.assoc)
  moreover have start: "fst (absorb B f h0 (m @ md_pad B len m)) = fst (absorb B f h (r @ md_pad B len m))"
    by (simp add: absorb_append [of B f h0 m] assms(1))
  ultimately have pad: "md_pad B len m = 0x80 # replicate ((B - (length r + 1 + L) mod B) mod B) 0 @ len"
    by (simp add: md_pad_def L)
  show ?thesis
  proof (cases "length r + 1 + L \<le> B")
    case True
    have "(B - (length r + 1 + L) mod B) mod B = B - L - 1 - length r"
      using True assms B by (cases "length r + 1 + L = B") auto
    then have "fst (absorb B f h (r @ md_pad B len m)) =
        fst (absorb B f h ((r @ 0x80 # replicate (B - L - 1 - length r) 0 @ len) @ []))"
      by (simp add: pad)
    also have "\<dots> = f h (r @ 0x80 # replicate (B - L - 1 - length r) 0 @ len)"
      using True L by (subst absorb_block [OF B]) (simp_all add: absorb_short B)
    finally show ?thesis using start True by simp
  next
    case False
    have "(length r + 1 + L) mod B = length r + 1 + L - B" using False r_less assms by (simp add: le_mod_geq)
    then have "(B - (length r + 1 + L) mod B) mod B = (B - 1 - length r) + (B - L)"
      using False r_less assms by simp
    then have "fst (absorb B f h (r @ md_pad B len m)) = fst (absorb B f h ((r @ 0x80 # replicate (B - 1 - length r) 0) @
        (replicate (B - L) 0 @ len) @ []))"
      by (simp add: pad replicate_add)
    also have "\<dots> = f (f h (r @ 0x80 # replicate (B - 1 - length r) 0)) (replicate (B - L) 0 @ len)"
      using r_less assms by (subst absorb_block [OF B], simp, subst absorb_block [OF B]) (simp_all add: absorb_short B)
    finally show ?thesis using start False by simp
  qed
qed

end
