(* ===== verification/Sha.thy ===== *)
theory Sha
  imports Prelude
begin

text \<open>
  \<^verbatim>\<open>busybox/libbb/sha1.c\<close>: the SHA-1, SHA-256 and SHA-512 digests, fed piece by piece. A context
  buffers at most one incomplete block. The host is little-endian: a word is read from the buffer in memory order and then reversed.
\<close>

subsection \<open>Rotation and byte order\<close>

definition rotl32 :: "u32 \<Rightarrow> nat \<Rightarrow> u32" where
  "rotl32 x n = push_bit n x OR drop_bit (32 - n) x"

definition rotr32 :: "u32 \<Rightarrow> nat \<Rightarrow> u32" where
  "rotr32 x n = drop_bit n x OR push_bit (32 - n) x"

definition rotr64 :: "u64 \<Rightarrow> nat \<Rightarrow> u64" where
  "rotr64 x n = drop_bit n x OR push_bit (64 - n) x"

definition htonl :: "u32 \<Rightarrow> u32" where
  "htonl x = le_word (rev (le_bytes 4 x))"

definition hton64 :: "u64 \<Rightarrow> u64" where
  "hton64 v = push_bit 32 (ucast (htonl (ucast v))) OR ucast (htonl (ucast (drop_bit 32 v)))"

subsection \<open>Contexts\<close>

datatype process = Sha1_block | Sha256_block

record sha1_ctx_t =
  hash :: "u32 list"
  total64 :: u64
  wbuffer :: "byte list"
  process_block :: process

record sha512_ctx_t =
  hash512 :: "u64 list"
  total_lo :: u64
  total_hi :: u64
  wbuffer512 :: "byte list"

subsection \<open>SHA-1 blocks\<close>

definition ch :: "u32 \<Rightarrow> u32 \<Rightarrow> u32 \<Rightarrow> u32" where
  "ch x y z = z XOR (x AND (y XOR z))"

definition parity :: "u32 \<Rightarrow> u32 \<Rightarrow> u32 \<Rightarrow> u32" where
  "parity x y z = x XOR y XOR z"

definition maj :: "u32 \<Rightarrow> u32 \<Rightarrow> u32 \<Rightarrow> u32" where
  "maj x y z = (x AND y) OR (z AND (x OR y))"

definition load_words :: "byte list \<Rightarrow> u32 list" where
  "load_words buf = map (\<lambda>t. htonl (le_word (bslice (4 * t) 4 buf))) [0..<16]"

definition sha1_W :: "byte list \<Rightarrow> u32 list" where
  "sha1_W buf = fold (\<lambda>t W. W @ [rotl32 (W ! (t - 3) XOR W ! (t - 8) XOR W ! (t - 14) XOR W ! (t - 16)) 1])
     [16..<80] (load_words buf)"

type_synonym regs5 = "u32 \<times> u32 \<times> u32 \<times> u32 \<times> u32"

fun rnd :: "(u32 \<Rightarrow> u32 \<Rightarrow> u32 \<Rightarrow> u32) \<Rightarrow> u32 \<Rightarrow> u32 \<Rightarrow> regs5 \<Rightarrow> regs5" where
  "rnd f k w (a, b, c, d, e) = (rotl32 a 5 + f b c d + e + k + w, a, rotl32 b 30, c, d)"

definition sha1_rounds :: "u32 list \<Rightarrow> regs5 \<Rightarrow> regs5" where
  "sha1_rounds W r =
     fold (\<lambda>t. rnd parity 3395469782 (W ! t)) [60..<80]
      (fold (\<lambda>t. rnd maj 2400959708 (W ! t)) [40..<60]
       (fold (\<lambda>t. rnd parity 1859775393 (W ! t)) [20..<40]
        (fold (\<lambda>t. rnd ch 1518500249 (W ! t)) [0..<20] r)))"

definition sha1_process_block64 :: "sha1_ctx_t \<Rightarrow> sha1_ctx_t" where
  "sha1_process_block64 ctx =
     (let h = hash ctx in
      case sha1_rounds (sha1_W (wbuffer ctx)) (h ! 0, h ! 1, h ! 2, h ! 3, h ! 4) of (a, b, c, d, e) \<Rightarrow>
        ctx\<lparr>hash := [h ! 0 + a, h ! 1 + b, h ! 2 + c, h ! 3 + d, h ! 4 + e] @ drop 5 h\<rparr>)"

subsection \<open>SHA-256 and SHA-512 blocks\<close>

definition sha_K :: "u64 list" where
  "sha_K =
    [4794697086780616226, 8158064640168781261, 13096744586834688815, 16840607885511220156, 4131703408338449720,
     6480981068601479193, 10538285296894168987, 12329834152419229976, 15566598209576043074, 1334009975649890238,
     2608012711638119052, 6128411473006802146, 8268148722764581231, 9286055187155687089, 11230858885718282805,
     13951009754708518548, 16472876342353939154, 17275323862435702243, 1135362057144423861, 2597628984639134821,
     3308224258029322869, 5365058923640841347, 6679025012923562964, 8573033837759648693, 10970295158949994411,
     12119686244451234320, 12683024718118986047, 13788192230050041572, 14330467153632333762, 15395433587784984357,
     489312712824947311, 1452737877330783856, 2861767655752347644, 3322285676063803686, 5560940570517711597,
     5996557281743188959, 7280758554555802590, 8532644243296465576, 9350256976987008742, 10552545826968843579,
     11727347734174303076, 12113106623233404929, 14000437183269869457, 14369950271660146224, 15101387698204529176,
     15463397548674623760, 17586052441742319658, 1182934255886127544, 1847814050463011016, 2177327727835720531,
     2830643537854262169, 3796741975233480872, 4115178125766777443, 5681478168544905931, 6601373596472566643,
     7507060721942968483, 8399075790359081724, 8693463985226723168, 9568029438360202098, 10144078919501101548,
     10430055236837252648, 11840083180663258601, 13761210420658862357, 14299343276471374635, 14566680578165727644,
     15097957966210449927, 16922976911328602910, 17689382322260857208, 500013540394364858, 748580250866718886,
     1242879168328830382, 1977374033974150939, 2944078676154940804, 3659926193048069267, 4368137639120453308,
     4836135668995329356, 5532061633213252278, 6448918945643986474, 6902733635092675308, 7801388544844847127]"

definition Ch :: "'a::len word \<Rightarrow> 'a word \<Rightarrow> 'a word \<Rightarrow> 'a word" where
  "Ch x y z = (x AND y) XOR (NOT x AND z)"

definition Maj :: "'a::len word \<Rightarrow> 'a word \<Rightarrow> 'a word \<Rightarrow> 'a word" where
  "Maj x y z = (x AND y) XOR (x AND z) XOR (y AND z)"

definition S0_256 :: "u32 \<Rightarrow> u32" where
  "S0_256 x = rotr32 x 2 XOR rotr32 x 13 XOR rotr32 x 22"

definition S1_256 :: "u32 \<Rightarrow> u32" where
  "S1_256 x = rotr32 x 6 XOR rotr32 x 11 XOR rotr32 x 25"

definition R0_256 :: "u32 \<Rightarrow> u32" where
  "R0_256 x = rotr32 x 7 XOR rotr32 x 18 XOR drop_bit 3 x"

definition R1_256 :: "u32 \<Rightarrow> u32" where
  "R1_256 x = rotr32 x 17 XOR rotr32 x 19 XOR drop_bit 10 x"

definition S0_512 :: "u64 \<Rightarrow> u64" where
  "S0_512 x = rotr64 x 28 XOR rotr64 x 34 XOR rotr64 x 39"

definition S1_512 :: "u64 \<Rightarrow> u64" where
  "S1_512 x = rotr64 x 14 XOR rotr64 x 18 XOR rotr64 x 41"

definition R0_512 :: "u64 \<Rightarrow> u64" where
  "R0_512 x = rotr64 x 1 XOR rotr64 x 8 XOR drop_bit 7 x"

definition R1_512 :: "u64 \<Rightarrow> u64" where
  "R1_512 x = rotr64 x 19 XOR rotr64 x 61 XOR drop_bit 6 x"

definition sha256_W :: "byte list \<Rightarrow> u32 list" where
  "sha256_W buf = fold (\<lambda>t W. W @ [R1_256 (W ! (t - 2)) + W ! (t - 7) + R0_256 (W ! (t - 15)) + W ! (t - 16)])
     [16..<64] (load_words buf)"

definition sha512_W :: "byte list \<Rightarrow> u64 list" where
  "sha512_W buf = fold (\<lambda>t W. W @ [R1_512 (W ! (t - 2)) + W ! (t - 7) + R0_512 (W ! (t - 15)) + W ! (t - 16)])
     [16..<80] (map (\<lambda>t. hton64 (le_word (bslice (8 * t) 8 buf))) [0..<16])"

type_synonym 'w regs8 = "'w \<times> 'w \<times> 'w \<times> 'w \<times> 'w \<times> 'w \<times> 'w \<times> 'w"

text \<open>One round, the same code for both widths.\<close>

fun round8 :: "('a::len word \<Rightarrow> 'a word) \<Rightarrow> ('a word \<Rightarrow> 'a word) \<Rightarrow> 'a word \<Rightarrow> 'a word \<Rightarrow> 'a word regs8 \<Rightarrow> 'a word regs8" where
  "round8 S0 S1 k w (a, b, c, d, e, f, g, h) =
     (let T1 = h + S1 e + Ch e f g + k + w; T2 = S0 a + Maj a b c
      in (T1 + T2, a, b, c, d + T1, e, f, g))"

definition sha256_process_block64 :: "sha1_ctx_t \<Rightarrow> sha1_ctx_t" where
  "sha256_process_block64 ctx =
     (let s = hash ctx; W = sha256_W (wbuffer ctx) in
      case fold (\<lambda>t. round8 S0_256 S1_256 (ucast (drop_bit 32 (sha_K ! t))) (W ! t)) [0..<64]
             (s ! 0, s ! 1, s ! 2, s ! 3, s ! 4, s ! 5, s ! 6, s ! 7) of (a, b, c, d, e, f, g, h) \<Rightarrow>
        ctx\<lparr>hash := [s ! 0 + a, s ! 1 + b, s ! 2 + c, s ! 3 + d, s ! 4 + e, s ! 5 + f, s ! 6 + g, s ! 7 + h]\<rparr>)"

definition sha512_process_block128 :: "sha512_ctx_t \<Rightarrow> sha512_ctx_t" where
  "sha512_process_block128 ctx =
     (let s = hash512 ctx; W = sha512_W (wbuffer512 ctx) in
      case fold (\<lambda>t. round8 S0_512 S1_512 (sha_K ! t) (W ! t)) [0..<80]
             (s ! 0, s ! 1, s ! 2, s ! 3, s ! 4, s ! 5, s ! 6, s ! 7) of (a, b, c, d, e, f, g, h) \<Rightarrow>
        ctx\<lparr>hash512 := [s ! 0 + a, s ! 1 + b, s ! 2 + c, s ! 3 + d, s ! 4 + e, s ! 5 + f, s ! 6 + g, s ! 7 + h]\<rparr>)"

subsection \<open>Starting a digest\<close>

definition sha1_begin :: "sha1_ctx_t \<Rightarrow> sha1_ctx_t" where
  "sha1_begin ctx = ctx\<lparr>hash := [1732584193, 4023233417, 2562383102, 271733878, 3285377520] @ drop 5 (hash ctx),
     total64 := 0, process_block := Sha1_block\<rparr>"

definition init256 :: "u32 list" where
  "init256 = [1779033703, 3144134277, 1013904242, 2773480762, 1359893119, 2600822924, 528734635, 1541459225]"

definition init512_lo :: "u32 list" where
  "init512_lo = [4089235720, 2227873595, 4271175723, 1595750129, 2917565137, 725511199, 4215389547, 327033209]"

definition sha256_begin :: "sha1_ctx_t \<Rightarrow> sha1_ctx_t" where
  "sha256_begin ctx = ctx\<lparr>hash := init256, total64 := 0, process_block := Sha256_block\<rparr>"

definition sha512_begin :: "sha512_ctx_t \<Rightarrow> sha512_ctx_t" where
  "sha512_begin ctx = ctx\<lparr>hash512 := map (\<lambda>i. push_bit 32 (ucast (init256 ! i)) + ucast (init512_lo ! i)) [0..<8],
     total_lo := 0, total_hi := 0\<rparr>"

subsection \<open>Feeding data\<close>

definition run_block :: "sha1_ctx_t \<Rightarrow> sha1_ctx_t" where
  "run_block ctx = (case process_block ctx of
       Sha1_block \<Rightarrow> sha1_process_block64 ctx | Sha256_block \<Rightarrow> sha256_process_block64 ctx)"

text \<open>The loop of \<open>sha1_hash\<close> once the buffer is empty.\<close>

function sha1_loop :: "byte list \<Rightarrow> sha1_ctx_t \<Rightarrow> sha1_ctx_t" where
  "sha1_loop buf ctx =
     (if 64 \<le> length buf then sha1_loop (drop 64 buf) (run_block (ctx\<lparr>wbuffer := blit 0 (take 64 buf) (wbuffer ctx)\<rparr>))
      else ctx\<lparr>wbuffer := blit 0 buf (wbuffer ctx)\<rparr>)"
  by pat_completeness auto
termination by (relation "measure (length \<circ> fst)") auto

declare sha1_loop.simps [simp del]

definition sha1_hash :: "byte list \<Rightarrow> sha1_ctx_t \<Rightarrow> sha1_ctx_t" where
  "sha1_hash buf ctx0 =
     (let in_buf = unat (total64 ctx0 AND 63); add = 64 - in_buf;
          ctx = ctx0\<lparr>total64 := total64 ctx0 + of_nat (length buf)\<rparr> in
      if add \<le> length buf
      then sha1_loop (drop add buf) (run_block (ctx\<lparr>wbuffer := blit in_buf (take add buf) (wbuffer ctx)\<rparr>))
      else ctx\<lparr>wbuffer := blit in_buf buf (wbuffer ctx)\<rparr>)"

function sha512_loop :: "byte list \<Rightarrow> sha512_ctx_t \<Rightarrow> sha512_ctx_t" where
  "sha512_loop buf ctx =
     (if 128 \<le> length buf
      then sha512_loop (drop 128 buf) (sha512_process_block128 (ctx\<lparr>wbuffer512 := blit 0 (take 128 buf) (wbuffer512 ctx)\<rparr>))
      else ctx\<lparr>wbuffer512 := blit 0 buf (wbuffer512 ctx)\<rparr>)"
  by pat_completeness auto
termination by (relation "measure (length \<circ> fst)") auto

declare sha512_loop.simps [simp del]

definition sha512_hash :: "byte list \<Rightarrow> sha512_ctx_t \<Rightarrow> sha512_ctx_t" where
  "sha512_hash buf ctx0 =
     (let in_buf = unat (total_lo ctx0 AND 127); add = 128 - in_buf; len = of_nat (length buf);
          lo = total_lo ctx0 + len; hi = (if lo < len then total_hi ctx0 + 1 else total_hi ctx0);
          ctx = ctx0\<lparr>total_lo := lo, total_hi := hi\<rparr> in
      if add \<le> length buf
      then sha512_loop (drop add buf)
        (sha512_process_block128 (ctx\<lparr>wbuffer512 := blit in_buf (take add buf) (wbuffer512 ctx)\<rparr>))
      else ctx\<lparr>wbuffer512 := blit in_buf buf (wbuffer512 ctx)\<rparr>)"

subsection \<open>Ending a digest\<close>

function sha1_pad :: "nat \<Rightarrow> sha1_ctx_t \<Rightarrow> sha1_ctx_t" where
  "sha1_pad in_buf ctx0 =
     (let pad = 64 - in_buf; ctx = ctx0\<lparr>wbuffer := blit in_buf (replicate pad 0) (wbuffer ctx0)\<rparr> in
      if 8 \<le> pad
      then run_block (ctx\<lparr>wbuffer := blit 56 (le_bytes 8 (hton64 (push_bit 3 (total64 ctx)))) (wbuffer ctx)\<rparr>)
      else sha1_pad 0 (run_block ctx))"
  by pat_completeness auto
termination by (relation "measure fst") auto

declare sha1_pad.simps [simp del]

definition sha1_end :: "sha1_ctx_t \<Rightarrow> byte list" where
  "sha1_end ctx0 =
     (let in_buf = unat (total64 ctx0 AND 63);
          ctx = sha1_pad (in_buf + 1) (ctx0\<lparr>wbuffer := (wbuffer ctx0)[in_buf := 0x80]\<rparr>);
          words = (if process_block ctx = Sha1_block then 5 else 8) in
      concat (map (\<lambda>i. le_bytes 4 (htonl (hash ctx ! i))) [0..<words]))"

function sha512_pad :: "nat \<Rightarrow> sha512_ctx_t \<Rightarrow> sha512_ctx_t" where
  "sha512_pad in_buf ctx0 =
     (let pad = 128 - in_buf; ctx = ctx0\<lparr>wbuffer512 := blit in_buf (replicate pad 0) (wbuffer512 ctx0)\<rparr> in
      if 16 \<le> pad
      then sha512_process_block128 (ctx\<lparr>wbuffer512 :=
        blit 112 (le_bytes 8 (hton64 (push_bit 3 (total_hi ctx) OR drop_bit 61 (total_lo ctx))))
          (blit 120 (le_bytes 8 (hton64 (push_bit 3 (total_lo ctx)))) (wbuffer512 ctx))\<rparr>)
      else sha512_pad 0 (sha512_process_block128 ctx))"
  by pat_completeness auto
termination by (relation "measure fst") auto

declare sha512_pad.simps [simp del]

definition sha512_end :: "sha512_ctx_t \<Rightarrow> byte list" where
  "sha512_end ctx0 =
     (let in_buf = unat (total_lo ctx0 AND 127);
          ctx = sha512_pad (in_buf + 1) (ctx0\<lparr>wbuffer512 := (wbuffer512 ctx0)[in_buf := 0x80]\<rparr>) in
      concat (map (\<lambda>i. le_bytes 8 (hton64 (hash512 ctx ! i))) [0..<8]))"

end
