(* ===== verification/Sha_Spec.thy ===== *)
theory Sha_Spec
  imports Sha
begin

text \<open>
  The secure hash standard as a specification: the compression functions with the message schedule as a recurrence and the logical
  functions as the standard writes them, padding, and the digest of a whole message. The block functions of the code compute
  these compression functions.
\<close>

subsection \<open>Bytes in network order\<close>

definition be_bytes :: "nat \<Rightarrow> 'a::len word \<Rightarrow> byte list" where
  "be_bytes n w = rev (le_bytes n w)"

definition be_word :: "byte list \<Rightarrow> 'a::len word" where
  "be_word bs = le_word (rev bs)"

lemma length_be_bytes [simp]: "length (be_bytes n w) = n"
  by (simp add: be_bytes_def)

lemma le_bytes_htonl: "le_bytes 4 (htonl x) = be_bytes 4 x"
  by (simp add: htonl_def be_bytes_def)

lemma htonl_le_word: "length bs = 4 \<Longrightarrow> htonl (le_word bs) = be_word bs"
  by (simp add: htonl_def be_word_def)

lemma le_bytes_split: "le_bytes 8 (w :: u64) = le_bytes 4 (ucast w :: u32) @ le_bytes 4 (ucast (drop_bit 32 w) :: u32)"
proof (rule nth_equalityI)
  fix i
  assume "i < length (le_bytes 8 w)"
  then have i: "i < 8" by simp
  show "le_bytes 8 w ! i = (le_bytes 4 (ucast w :: u32) @ le_bytes 4 (ucast (drop_bit 32 w) :: u32)) ! i"
  proof (rule bit_word_eqI)
    fix j
    assume j: "j < LENGTH(8)"
    show "bit (le_bytes 8 w ! i) j = bit ((le_bytes 4 (ucast w :: u32) @ le_bytes 4 (ucast (drop_bit 32 w) :: u32)) ! i) j"
    proof (cases "i < 4")
      case False
      then have "8 * i + j = 32 + (8 * (i - 4) + j)" using i by linarith
      with i j False show ?thesis by (simp add: nth_append bit_le_bytes bit_simps add.assoc)
    qed (use j in \<open>auto simp: nth_append bit_le_bytes bit_simps\<close>)
  qed
qed simp

lemma le_bytes_hton64: "le_bytes 8 (hton64 w) = be_bytes 8 w"
proof -
  have lo: "ucast (hton64 w) = htonl (ucast (drop_bit 32 w))" and hi: "ucast (drop_bit 32 (hton64 w)) = htonl (ucast w)"
    by (rule bit_word_eqI; auto simp: hton64_def bit_simps dest: bit_imp_le_length)+
  have "le_bytes 8 (hton64 w) = be_bytes 4 (ucast (drop_bit 32 w) :: u32) @ be_bytes 4 (ucast w :: u32)"
    by (simp add: le_bytes_split [of "hton64 w"] lo hi le_bytes_htonl)
  then show ?thesis by (simp add: be_bytes_def le_bytes_split [of w])
qed

lemma hton64_le_word:
  assumes "length bs = 8"
  shows "hton64 (le_word bs) = be_word bs"
proof -
  have "le_bytes 8 (hton64 (le_word bs)) = rev bs" using assms by (simp add: le_bytes_hton64 be_bytes_def)
  then have "le_word (le_bytes 8 (hton64 (le_word bs))) = (le_word (rev bs) :: u64)" by simp
  then show ?thesis by (simp add: be_word_def)
qed

subsection \<open>Rotation\<close>

lemma rotl_shifts:
  fixes x :: "'a::len word"
  assumes "0 < n" "n < LENGTH('a)"
  shows "push_bit n x OR drop_bit (LENGTH('a) - n) x = word_rotl n x"
proof (rule bit_word_eqI)
  fix i
  assume i: "i < LENGTH('a)"
  show "bit (push_bit n x OR drop_bit (LENGTH('a) - n) x) i = bit (word_rotl n x) i"
  proof (cases "n \<le> i")
    case True
    then have "i + (LENGTH('a) - n) = (i - n) + LENGTH('a)" using assms by simp
    then have "(i + (LENGTH('a) - n)) mod LENGTH('a) = i - n" using i by (metis less_imp_diff_less mod_add_self2 mod_less)
    moreover have "\<not> bit x (LENGTH('a) - n + i)" using True assms by (auto dest: bit_imp_le_length)
    ultimately show ?thesis using True i assms by (simp add: bit_simps bit_word_rotl_iff)
  next
    case False
    with i assms show ?thesis by (simp add: bit_simps bit_word_rotl_iff add.commute)
  qed
qed

lemma rotr_shifts:
  fixes x :: "'a::len word"
  assumes "0 < n" "n < LENGTH('a)"
  shows "drop_bit n x OR push_bit (LENGTH('a) - n) x = word_rotr n x"
proof (rule bit_word_eqI)
  fix i
  assume i: "i < LENGTH('a)"
  show "bit (drop_bit n x OR push_bit (LENGTH('a) - n) x) i = bit (word_rotr n x) i"
  proof (cases "LENGTH('a) - n \<le> i")
    case True
    then have "i + n = (i - (LENGTH('a) - n)) + LENGTH('a)" using assms by simp
    then have "(i + n) mod LENGTH('a) = i - (LENGTH('a) - n)" using i by (metis less_imp_diff_less mod_add_self2 mod_less)
    moreover have "\<not> bit x (n + i)" using True assms by (auto dest: bit_imp_le_length)
    ultimately show ?thesis using True i assms by (simp add: bit_simps bit_word_rotr_iff)
  next
    case False
    with i assms show ?thesis by (simp add: bit_simps bit_word_rotr_iff add.commute)
  qed
qed

lemma rotations:
  "0 < n \<Longrightarrow> n < 32 \<Longrightarrow> rotl32 x n = word_rotl n x" "0 < n \<Longrightarrow> n < 32 \<Longrightarrow> rotr32 x n = word_rotr n x"
  "0 < n \<Longrightarrow> n < 64 \<Longrightarrow> rotr64 y n = word_rotr n y"
  using rotl_shifts [of n x] rotr_shifts [of n x] rotr_shifts [of n y]
  by (simp_all add: rotl32_def rotr32_def rotr64_def)

subsection \<open>The compression functions of the standard\<close>

definition block_words :: "nat \<Rightarrow> byte list \<Rightarrow> 'a::len word list" where
  "block_words n blk = map (\<lambda>t. be_word (bslice (n * t) n blk)) [0..<16]"

text \<open>SHA-1.\<close>

fun fips_W1 :: "u32 list \<Rightarrow> nat \<Rightarrow> u32" where
  "fips_W1 M t =
     (if t < 16 then M ! t
      else word_rotl 1 (fips_W1 M (t - 3) XOR fips_W1 M (t - 8) XOR fips_W1 M (t - 14) XOR fips_W1 M (t - 16)))"

declare fips_W1.simps [simp del]

definition fips_f :: "nat \<Rightarrow> u32 \<Rightarrow> u32 \<Rightarrow> u32 \<Rightarrow> u32" where
  "fips_f t x y z =
     (if t < 20 then Ch x y z else if t < 40 then x XOR y XOR z else if t < 60 then Maj x y z else x XOR y XOR z)"

definition fips_K1 :: "nat \<Rightarrow> u32" where
  "fips_K1 t = (if t < 20 then 0x5a827999 else if t < 40 then 0x6ed9eba1 else if t < 60 then 0x8f1bbcdc else 0xca62c1d6)"

fun fips_step1 :: "u32 list \<Rightarrow> nat \<Rightarrow> regs5 \<Rightarrow> regs5" where
  "fips_step1 M t (a, b, c, d, e) =
     (let T = word_rotl 5 a + fips_f t b c d + e + fips_K1 t + fips_W1 M t in (T, a, word_rotl 30 b, c, d))"

definition fips_sha1 :: "u32 list \<Rightarrow> byte list \<Rightarrow> u32 list" where
  "fips_sha1 H blk = (case fold (fips_step1 (block_words 4 blk)) [0..<80] (H ! 0, H ! 1, H ! 2, H ! 3, H ! 4) of
     (a, b, c, d, e) \<Rightarrow> [a + H ! 0, b + H ! 1, c + H ! 2, d + H ! 3, e + H ! 4])"

text \<open>SHA-256 and SHA-512: the schedule and the step for both widths.\<close>

fun fips_W2 :: "('a::len word \<Rightarrow> 'a word) \<Rightarrow> ('a word \<Rightarrow> 'a word) \<Rightarrow> 'a word list \<Rightarrow> nat \<Rightarrow> 'a word" where
  "fips_W2 s0 s1 M t =
     (if t < 16 then M ! t
      else s1 (fips_W2 s0 s1 M (t - 2)) + fips_W2 s0 s1 M (t - 7) + s0 (fips_W2 s0 s1 M (t - 15)) + fips_W2 s0 s1 M (t - 16))"

declare fips_W2.simps [simp del]

definition fips_sha2 ::
  "('a::len word \<Rightarrow> 'a word) \<Rightarrow> ('a word \<Rightarrow> 'a word) \<Rightarrow> (nat \<Rightarrow> 'a word) \<Rightarrow> (nat \<Rightarrow> 'a word) \<Rightarrow> nat \<Rightarrow> 'a word list \<Rightarrow> 'a word list" where
  "fips_sha2 S0 S1 K W n H =
     (case fold (\<lambda>t (a, b, c, d, e, f, g, h).
          let T1 = h + S1 e + Ch e f g + K t + W t; T2 = S0 a + Maj a b c in (T1 + T2, a, b, c, d + T1, e, f, g))
        [0..<n] (H ! 0, H ! 1, H ! 2, H ! 3, H ! 4, H ! 5, H ! 6, H ! 7) of
      (a, b, c, d, e, f, g, h) \<Rightarrow>
        [a + H ! 0, b + H ! 1, c + H ! 2, d + H ! 3, e + H ! 4, f + H ! 5, g + H ! 6, h + H ! 7])"

definition fips_sha256 :: "u32 list \<Rightarrow> byte list \<Rightarrow> u32 list" where
  "fips_sha256 H blk = fips_sha2
     (\<lambda>x. word_rotr 2 x XOR word_rotr 13 x XOR word_rotr 22 x) (\<lambda>x. word_rotr 6 x XOR word_rotr 11 x XOR word_rotr 25 x)
     (\<lambda>t. ucast (drop_bit 32 (sha_K ! t)))
     (fips_W2 (\<lambda>x. word_rotr 7 x XOR word_rotr 18 x XOR drop_bit 3 x)
        (\<lambda>x. word_rotr 17 x XOR word_rotr 19 x XOR drop_bit 10 x) (block_words 4 blk)) 64 H"

definition fips_sha512 :: "u64 list \<Rightarrow> byte list \<Rightarrow> u64 list" where
  "fips_sha512 H blk = fips_sha2
     (\<lambda>x. word_rotr 28 x XOR word_rotr 34 x XOR word_rotr 39 x) (\<lambda>x. word_rotr 14 x XOR word_rotr 18 x XOR word_rotr 41 x)
     (\<lambda>t. sha_K ! t)
     (fips_W2 (\<lambda>x. word_rotr 1 x XOR word_rotr 8 x XOR drop_bit 7 x)
        (\<lambda>x. word_rotr 19 x XOR word_rotr 61 x XOR drop_bit 6 x) (block_words 8 blk)) 80 H"

subsection \<open>The block functions compute them\<close>

text \<open>A table that is extended one entry at a time holds the values of the recurrence it follows.\<close>

lemma schedule_fold:
  assumes "length W0 = m" "\<And>i. i < m \<Longrightarrow> W0 ! i = F i"
    and "\<And>W t. m \<le> t \<Longrightarrow> length W = t \<Longrightarrow> (\<And>i. i < t \<Longrightarrow> W ! i = F i) \<Longrightarrow> g t W = F t" and "m \<le> n"
  shows "fold (\<lambda>t W. W @ [g t W]) [m..<n] W0 = map F [0..<n]"
  using assms(4)
proof (induction n rule: dec_induct)
  case base
  show ?case using assms(1,2) by (intro nth_equalityI) auto
next
  case (step n)
  then have "g n (map F [0..<n]) = F n" by (intro assms(3)) auto
  with step show ?case by simp
qed

lemma block_words_nth: "t < 16 \<Longrightarrow> block_words n blk ! t = be_word (bslice (n * t) n blk)"
  by (simp add: block_words_def)

lemma load_words_block: "length buf = 64 \<Longrightarrow> load_words buf = block_words 4 buf"
  by (auto simp: load_words_def block_words_def htonl_le_word)

lemma sha1_W_fips:
  assumes "length buf = 64"
  shows "sha1_W buf = map (fips_W1 (block_words 4 buf)) [0..<80]"
  unfolding sha1_W_def
proof (rule schedule_fold)
  show "length (load_words buf) = 16" by (simp add: load_words_def)
  show "load_words buf ! i = fips_W1 (block_words 4 buf) i" if "i < 16" for i
    using that by (simp add: load_words_block [OF assms] fips_W1.simps)
  fix W t
  assume "16 \<le> t" "length W = t" "\<And>i. i < t \<Longrightarrow> W ! i = fips_W1 (block_words 4 buf) i"
  then show "rotl32 (W ! (t - 3) XOR W ! (t - 8) XOR W ! (t - 14) XOR W ! (t - 16)) 1 = fips_W1 (block_words 4 buf) t"
    by (simp add: rotations fips_W1.simps [of _ t])
qed simp

lemma logical_functions: "ch x y z = Ch x y z" "maj x y z = Maj x y z"
  by (rule bit_word_eqI; auto simp: ch_def maj_def Ch_def Maj_def bit_simps)+

lemma fold_rounds:
  assumes "\<And>t r. t \<in> set ts \<Longrightarrow> g t r = h t r"
  shows "fold g ts r = fold h ts r"
  using assms by (intro fold_cong) (auto simp: fun_eq_iff)

lemma sha1_rounds_fips: "sha1_rounds (map (fips_W1 M) [0..<80]) r = fold (fips_step1 M) [0..<80] r"
proof -
  have split: "[0..<80] = [0..<20] @ [20..<40] @ [40..<60] @ [60..<80]" by code_simp
  have "fold (\<lambda>t. rnd ch 1518500249 (map (fips_W1 M) [0..<80] ! t)) [0..<20] r = fold (fips_step1 M) [0..<20] r" for r
    by (rule fold_rounds) (auto simp: rotations fips_f_def fips_K1_def logical_functions Let_def)
  moreover have "fold (\<lambda>t. rnd parity 1859775393 (map (fips_W1 M) [0..<80] ! t)) [20..<40] r = fold (fips_step1 M) [20..<40] r" for r
    by (rule fold_rounds) (auto simp: rotations fips_f_def fips_K1_def parity_def Let_def)
  moreover have "fold (\<lambda>t. rnd maj 2400959708 (map (fips_W1 M) [0..<80] ! t)) [40..<60] r = fold (fips_step1 M) [40..<60] r" for r
    by (rule fold_rounds) (auto simp: rotations fips_f_def fips_K1_def logical_functions Let_def)
  moreover have "fold (\<lambda>t. rnd parity 3395469782 (map (fips_W1 M) [0..<80] ! t)) [60..<80] r = fold (fips_step1 M) [60..<80] r" for r
    by (rule fold_rounds) (auto simp: rotations fips_f_def fips_K1_def parity_def Let_def)
  ultimately show ?thesis by (simp only: sha1_rounds_def split fold_append comp_apply)
qed

lemma sha1_block:
  assumes "length (wbuffer ctx) = 64" "5 \<le> length (hash ctx)"
  shows "sha1_process_block64 ctx = ctx\<lparr>hash := fips_sha1 (take 5 (hash ctx)) (wbuffer ctx) @ drop 5 (hash ctx)\<rparr>"
  using assms
  by (simp add: sha1_process_block64_def fips_sha1_def sha1_W_fips sha1_rounds_fips Let_def add.commute split: prod.split)

lemma sigmas256:
  "S0_256 = (\<lambda>x. word_rotr 2 x XOR word_rotr 13 x XOR word_rotr 22 x)"
  "S1_256 = (\<lambda>x. word_rotr 6 x XOR word_rotr 11 x XOR word_rotr 25 x)"
  "R0_256 = (\<lambda>x. word_rotr 7 x XOR word_rotr 18 x XOR drop_bit 3 x)"
  "R1_256 = (\<lambda>x. word_rotr 17 x XOR word_rotr 19 x XOR drop_bit 10 x)"
  by (simp_all add: fun_eq_iff S0_256_def S1_256_def R0_256_def R1_256_def rotations)

lemma sigmas512:
  "S0_512 = (\<lambda>x. word_rotr 28 x XOR word_rotr 34 x XOR word_rotr 39 x)"
  "S1_512 = (\<lambda>x. word_rotr 14 x XOR word_rotr 18 x XOR word_rotr 41 x)"
  "R0_512 = (\<lambda>x. word_rotr 1 x XOR word_rotr 8 x XOR drop_bit 7 x)"
  "R1_512 = (\<lambda>x. word_rotr 19 x XOR word_rotr 61 x XOR drop_bit 6 x)"
  by (simp_all add: fun_eq_iff S0_512_def S1_512_def R0_512_def R1_512_def rotations)

lemma schedule2:
  assumes "length W0 = 16" "16 \<le> n"
  shows "fold (\<lambda>t W. W @ [s1 (W ! (t - 2)) + W ! (t - 7) + s0 (W ! (t - 15)) + W ! (t - 16)]) [16..<n] W0 =
    map (fips_W2 s0 s1 W0) [0..<n]"
proof (rule schedule_fold [OF assms(1) _ _ assms(2)])
  show "W0 ! i = fips_W2 s0 s1 W0 i" if "i < 16" for i using that by (simp add: fips_W2.simps)
  fix W t
  assume "16 \<le> t" "length W = t" "\<And>i. i < t \<Longrightarrow> W ! i = fips_W2 s0 s1 W0 i"
  then show "s1 (W ! (t - 2)) + W ! (t - 7) + s0 (W ! (t - 15)) + W ! (t - 16) = fips_W2 s0 s1 W0 t"
    by (simp add: fips_W2.simps [of _ _ _ t])
qed

lemma rounds2:
  "fold (\<lambda>t. round8 S0 S1 (K t) (map W [0..<n] ! t)) [0..<n] r =
    fold (\<lambda>t (a, b, c, d, e, f, g, h).
      let T1 = h + S1 e + Ch e f g + K t + W t; T2 = S0 a + Maj a b c in (T1 + T2, a, b, c, d + T1, e, f, g)) [0..<n] r"
  by (rule fold_rounds) (auto simp: Let_def)

lemma sha256_block:
  assumes "length (wbuffer ctx) = 64"
  shows "sha256_process_block64 ctx = ctx\<lparr>hash := fips_sha256 (hash ctx) (wbuffer ctx)\<rparr>"
proof -
  have "sha256_W (wbuffer ctx) = map (fips_W2 R0_256 R1_256 (block_words 4 (wbuffer ctx))) [0..<64]"
    unfolding sha256_W_def load_words_block [OF assms] by (rule schedule2) (simp_all add: block_words_def)
  then show ?thesis
    unfolding fips_sha256_def sigmas256 [symmetric]
    by (simp add: sha256_process_block64_def fips_sha2_def rounds2 Let_def add.commute split: prod.split)
qed

lemma load64_block: "length buf = 128 \<Longrightarrow> map (\<lambda>t. hton64 (le_word (bslice (8 * t) 8 buf))) [0..<16] = block_words 8 buf"
  by (auto simp: block_words_def hton64_le_word)

lemma sha512_block:
  assumes "length (wbuffer512 ctx) = 128"
  shows "sha512_process_block128 ctx = ctx\<lparr>hash512 := fips_sha512 (hash512 ctx) (wbuffer512 ctx)\<rparr>"
proof -
  have "sha512_W (wbuffer512 ctx) = map (fips_W2 R0_512 R1_512 (block_words 8 (wbuffer512 ctx))) [0..<80]"
    unfolding sha512_W_def load64_block [OF assms] by (rule schedule2) (simp_all add: block_words_def)
  then show ?thesis
    unfolding fips_sha512_def sigmas512 [symmetric]
    by (simp add: sha512_process_block128_def fips_sha2_def rounds2 Let_def add.commute split: prod.split)
qed

end
