(* ===== verification/Sha_Digest.thy ===== *)
theory Sha_Digest
  imports Digest Sha_Spec
begin

text \<open>
  The digests of \<^verbatim>\<open>libbb/sha1.c\<close> against the standard: a context fed piece by piece holds the chaining value of the complete
  blocks and the bytes of the incomplete one, and ending it gives the digest of all that was fed.
\<close>

subsection \<open>Lengths as byte strings\<close>

definition be_nat :: "nat \<Rightarrow> nat \<Rightarrow> byte list" where
  "be_nat k n = rev (map (\<lambda>i. of_nat (n div 256 ^ i)) [0..<k])"

lemma length_be_nat [simp]: "length (be_nat k n) = k"
  by (simp add: be_nat_def)

lemma be_bytes_of_nat:
  assumes "8 * k \<le> LENGTH('a)"
  shows "be_bytes k (of_nat n :: 'a::len word) = be_nat k n"
proof -
  have "ucast (drop_bit (8 * i) (of_nat n :: 'a word)) = (of_nat (n div 256 ^ i) :: byte)" if "i < k" for i
  proof (rule bit_word_eqI)
    fix j
    assume "j < LENGTH(8)"
    then have "8 * i + j < LENGTH('a)" using that assms by auto
    moreover have "n div 256 ^ i = drop_bit (8 * i) n" by (simp add: drop_bit_eq_div power_mult)
    ultimately show "bit (ucast (drop_bit (8 * i) (of_nat n :: 'a word)) :: byte) j = bit (of_nat (n div 256 ^ i) :: byte) j"
      using \<open>j < LENGTH(8)\<close> by (simp add: bit_simps)
  qed
  then show ?thesis by (simp add: be_bytes_def be_nat_def le_bytes_def)
qed

lemma be_nat_split: "be_nat (k + l) n = be_nat k (n div 256 ^ l) @ be_nat l n"
proof -
  have "map (\<lambda>i. of_nat (n div 256 ^ i)) [l..<k + l] = map (\<lambda>i. of_nat (n div 256 ^ l div 256 ^ i) :: byte) [0..<k]"
    by (rule nth_equalityI) (simp_all add: div_mult2_eq [symmetric] power_add [symmetric] flip: power_add)
  moreover have "[0..<k + l] = [0..<l] @ [l..<k + l]" using upt_add_eq_append [of 0 l k] by (simp add: add.commute)
  ultimately show ?thesis by (simp add: be_nat_def flip: rev_append)
qed

subsection \<open>The digests of the standard\<close>

definition fips_init :: "process \<Rightarrow> u32 list" where
  "fips_init k = (case k of Sha1_block \<Rightarrow> [0x67452301, 0xefcdab89, 0x98badcfe, 0x10325476, 0xc3d2e1f0]
     | Sha256_block \<Rightarrow> [0x6a09e667, 0xbb67ae85, 0x3c6ef372, 0xa54ff53a, 0x510e527f, 0x9b05688c, 0x1f83d9ab, 0x5be0cd19])"

definition fips_block :: "process \<Rightarrow> u32 list \<Rightarrow> byte list \<Rightarrow> u32 list" where
  "fips_block k = (case k of Sha1_block \<Rightarrow> fips_sha1 | Sha256_block \<Rightarrow> fips_sha256)"

definition fips_digest :: "process \<Rightarrow> byte list \<Rightarrow> byte list" where
  "fips_digest k m = concat (map (be_bytes 4)
     (fst (absorb 64 (fips_block k) (fips_init k) (m @ md_pad 64 (be_nat 8 (8 * length m)) m))))"

definition fips_init512 :: "u64 list" where
  "fips_init512 = [0x6a09e667f3bcc908, 0xbb67ae8584caa73b, 0x3c6ef372fe94f82b, 0xa54ff53a5f1d36f1,
     0x510e527fade682d1, 0x9b05688c2b3e6c1f, 0x1f83d9abfb41bd6b, 0x5be0cd19137e2179]"

definition fips_digest512 :: "byte list \<Rightarrow> byte list" where
  "fips_digest512 m = concat (map (be_bytes 8)
     (fst (absorb 128 fips_sha512 fips_init512 (m @ md_pad 128 (be_nat 16 (8 * length m)) m))))"

definition hash_words :: "process \<Rightarrow> nat" where
  "hash_words k = (case k of Sha1_block \<Rightarrow> 5 | Sha256_block \<Rightarrow> 8)"

lemma length_fips_block [simp]: "length (fips_block k h b) = hash_words k"
  by (simp add: fips_block_def hash_words_def fips_sha1_def fips_sha256_def fips_sha2_def split: process.split prod.split)

lemma length_fips_sha512 [simp]: "length (fips_sha512 h b) = 8"
  by (simp add: fips_sha512_def fips_sha2_def split: prod.split)

lemma hash_words_le [simp]: "hash_words k \<le> 8"
  by (simp add: hash_words_def split: process.split)

subsection \<open>Feeding SHA-1 and SHA-256\<close>

definition ctx_wf :: "sha1_ctx_t \<Rightarrow> bool" where
  "ctx_wf ctx \<longleftrightarrow> length (wbuffer ctx) = 64 \<and> length (hash ctx) = 8"

definition chain :: "sha1_ctx_t \<Rightarrow> u32 list" where
  "chain ctx = take (hash_words (process_block ctx)) (hash ctx)"

lemma run_block_fips:
  assumes "ctx_wf ctx"
  shows "run_block ctx = ctx\<lparr>hash := fips_block (process_block ctx) (chain ctx) (wbuffer ctx)
     @ drop (hash_words (process_block ctx)) (hash ctx)\<rparr>"
  using assms sha1_block [of ctx] sha256_block [of ctx]
  by (simp add: run_block_def ctx_wf_def chain_def fips_block_def hash_words_def split: process.split)

lemma run_block_simps:
  assumes "ctx_wf ctx"
  shows "ctx_wf (run_block ctx)" "chain (run_block ctx) = fips_block (process_block ctx) (chain ctx) (wbuffer ctx)"
    "total64 (run_block ctx) = total64 ctx" "process_block (run_block ctx) = process_block ctx"
    "wbuffer (run_block ctx) = wbuffer ctx"
  using assms by (simp_all add: run_block_fips) (auto simp: ctx_wf_def chain_def)

lemma sha1_loop_absorb:
  assumes "ctx_wf ctx" "absorb 64 (fips_block (process_block ctx)) (chain ctx) buf = (h, r)"
  shows "ctx_wf (sha1_loop buf ctx) \<and> chain (sha1_loop buf ctx) = h \<and> take (length r) (wbuffer (sha1_loop buf ctx)) = r
    \<and> total64 (sha1_loop buf ctx) = total64 ctx \<and> process_block (sha1_loop buf ctx) = process_block ctx"
  using assms
proof (induction buf ctx rule: sha1_loop.induct)
  case (1 buf ctx)
  let ?c = "ctx\<lparr>wbuffer := blit 0 (take 64 buf) (wbuffer ctx)\<rparr>"
  show ?case
  proof (cases "64 \<le> length buf")
    case True
    then have c: "ctx_wf ?c" "wbuffer ?c = take 64 buf" "chain ?c = chain ctx"
      using 1(2) by (auto simp: ctx_wf_def blit_def chain_def)
    have "absorb 64 (fips_block (process_block ctx)) (chain (run_block ?c)) (drop 64 buf) = (h, r)"
      using 1(3) True c by (simp add: run_block_simps absorb.simps [of 64 _ "chain ctx" buf])
    with 1(1) [OF True] True c show ?thesis by (simp add: run_block_simps sha1_loop.simps [of buf ctx])
  next
    case False
    then have "sha1_loop buf ctx = ctx\<lparr>wbuffer := blit 0 buf (wbuffer ctx)\<rparr>" by (subst sha1_loop.simps) simp
    then show ?thesis using False 1(2,3) by (auto simp: absorb_short ctx_wf_def chain_def blit_def)
  qed
qed

text \<open>The context has received \<open>m\<close>.\<close>

definition sha_fed :: "process \<Rightarrow> byte list \<Rightarrow> sha1_ctx_t \<Rightarrow> bool" where
  "sha_fed k m ctx \<longleftrightarrow> ctx_wf ctx \<and> process_block ctx = k \<and> total64 ctx = of_nat (length m) \<and>
     absorb 64 (fips_block k) (fips_init k) m = (chain ctx, take (length m mod 64) (wbuffer ctx))"

lemma in_buf_64: "unat ((of_nat n :: u64) AND 63) = n mod 64"
proof -
  have "(of_nat n :: u64) AND 63 = take_bit 6 (of_nat n)" by (simp add: take_bit_eq_mask mask_eq_exp_minus_1)
  also have "unat \<dots> = n mod 64"
    unfolding unsigned_take_bit_eq by (simp add: unsigned_of_nat take_bit_eq_mod mod_mod_cancel)
  finally show ?thesis .
qed

lemma in_buf_128: "unat ((of_nat n :: u64) AND 127) = n mod 128"
proof -
  have "(of_nat n :: u64) AND 127 = take_bit 7 (of_nat n)" by (simp add: take_bit_eq_mask mask_eq_exp_minus_1)
  also have "unat \<dots> = n mod 128"
    unfolding unsigned_take_bit_eq by (simp add: unsigned_of_nat take_bit_eq_mod mod_mod_cancel)
  finally show ?thesis .
qed

lemma sha_fed_begin: "ctx_wf ctx \<Longrightarrow> sha_fed Sha1_block [] (sha1_begin ctx)" "ctx_wf ctx \<Longrightarrow> sha_fed Sha256_block [] (sha256_begin ctx)"
  by (simp_all add: sha_fed_def ctx_wf_def sha1_begin_def sha256_begin_def chain_def hash_words_def fips_init_def init256_def
      absorb_short)

lemma sha1_hash_fed:
  assumes "sha_fed k m ctx"
  shows "sha_fed k (m @ p) (sha1_hash p ctx)"
proof -
  define n where "n = length m mod 64"
  define r where "r = take n (wbuffer ctx)"
  have ctx: "ctx_wf ctx" "process_block ctx = k" "total64 ctx = of_nat (length m)"
      and abs: "absorb 64 (fips_block k) (fips_init k) m = (chain ctx, r)"
    using assms by (simp_all add: sha_fed_def r_def n_def)
  have wb: "length (wbuffer ctx) = 64" using ctx by (simp add: ctx_wf_def)
  have n: "n < 64" by (simp add: n_def)
  have r: "length r = n" using n wb by (simp add: r_def)
  have all: "absorb 64 (fips_block k) (fips_init k) (m @ p) = absorb 64 (fips_block k) (chain ctx) (r @ p)"
    by (simp add: absorb_append [of _ _ _ m] abs)
  let ?ctx = "ctx\<lparr>total64 := total64 ctx + of_nat (length p)\<rparr>"
  show ?thesis
  proof (cases "64 - n \<le> length p")
    case True
    let ?c = "?ctx\<lparr>wbuffer := blit n (take (64 - n) p) (wbuffer ctx)\<rparr>"
    have c: "ctx_wf ?c" "wbuffer ?c = r @ take (64 - n) p" "chain ?c = chain ctx"
      using True n wb ctx by (auto simp: ctx_wf_def blit_def r_def chain_def)
    have run: "sha1_hash p ctx = sha1_loop (drop (64 - n) p) (run_block ?c)"
      using True by (simp add: sha1_hash_def ctx in_buf_64 Let_def flip: n_def)
    have "absorb 64 (fips_block k) (chain ctx) ((r @ take (64 - n) p) @ drop (64 - n) p)
        = absorb 64 (fips_block k) (chain (run_block ?c)) (drop (64 - n) p)"
      using True n r c ctx by (subst absorb_block) (simp_all add: run_block_simps)
    then obtain h s where hs: "absorb 64 (fips_block k) (chain (run_block ?c)) (drop (64 - n) p) = (h, s)"
        "absorb 64 (fips_block k) (fips_init k) (m @ p) = (h, s)"
      using all by (metis append.assoc append_take_drop_id surj_pair)
    have "length s = (length m + length p) mod 64" using absorb_rest [OF _ hs(2)] by simp
    moreover have "absorb 64 (fips_block (process_block (run_block ?c))) (chain (run_block ?c)) (drop (64 - n) p) = (h, s)"
      using hs(1) c ctx by (simp add: run_block_simps)
    note sha1_loop_absorb [OF run_block_simps(1) [OF c(1)] this]
    ultimately show ?thesis unfolding sha_fed_def run hs(2) using c ctx by (simp add: run_block_simps)
  next
    case False
    have len: "(length m + length p) mod 64 = n + length p"
      using False mod_add_left_eq [of "length m" 64 "length p"] by (simp add: n_def)
    have "sha1_hash p ctx = ?ctx\<lparr>wbuffer := blit n p (wbuffer ctx)\<rparr>"
      using False by (simp add: sha1_hash_def ctx in_buf_64 Let_def flip: n_def)
    then show ?thesis
      using False ctx wb n r all len by (simp add: sha_fed_def absorb_short ctx_wf_def chain_def) (simp add: blit_def r_def)
  qed
qed

subsection \<open>Ending SHA-1 and SHA-256\<close>

lemma sha1_pad_one:
  assumes "ctx_wf ctx" "j \<le> 56" and len: "len = le_bytes 8 (hton64 (push_bit 3 (total64 ctx)))"
  shows "chain (sha1_pad j ctx) = fips_block (process_block ctx) (chain ctx) (take j (wbuffer ctx) @ replicate (56 - j) 0 @ len)
    \<and> process_block (sha1_pad j ctx) = process_block ctx \<and> ctx_wf (sha1_pad j ctx)"
proof -
  let ?c = "ctx\<lparr>wbuffer := blit 56 len (blit j (replicate (64 - j) 0) (wbuffer ctx))\<rparr>"
  have "sha1_pad j ctx = run_block ?c" using assms(2) by (simp add: sha1_pad.simps len Let_def)
  moreover have "ctx_wf ?c" "chain ?c = chain ctx" using assms by (auto simp: ctx_wf_def chain_def)
  moreover have "wbuffer ?c = take j (wbuffer ctx) @ replicate (56 - j) 0 @ len"
    using assms by (simp add: blit_def ctx_wf_def min_def)
  ultimately show ?thesis by (simp add: run_block_simps)
qed

lemma sha1_pad_two:
  assumes "ctx_wf ctx" "56 < j" "j \<le> 64" and len: "len = le_bytes 8 (hton64 (push_bit 3 (total64 ctx)))"
  shows "chain (sha1_pad j ctx) = fips_block (process_block ctx)
      (fips_block (process_block ctx) (chain ctx) (take j (wbuffer ctx) @ replicate (64 - j) 0)) (replicate 56 0 @ len)
    \<and> process_block (sha1_pad j ctx) = process_block ctx \<and> ctx_wf (sha1_pad j ctx)"
proof -
  let ?c = "ctx\<lparr>wbuffer := blit j (replicate (64 - j) 0) (wbuffer ctx)\<rparr>"
  have "sha1_pad j ctx = sha1_pad 0 (run_block ?c)" using assms(2,3) by (simp add: sha1_pad.simps [of j] Let_def)
  moreover have "ctx_wf ?c" "chain ?c = chain ctx" using assms by (auto simp: ctx_wf_def chain_def)
  moreover have "wbuffer ?c = take j (wbuffer ctx) @ replicate (64 - j) 0"
    using assms by (simp add: blit_def ctx_wf_def)
  ultimately show ?thesis using sha1_pad_one [of "run_block ?c" 0 len] len by (simp add: run_block_simps)
qed

lemma length_field: "le_bytes 8 (hton64 (push_bit 3 (of_nat n :: u64))) = be_nat 8 (8 * n)"
proof -
  have "push_bit 3 (of_nat n :: u64) = of_nat (8 * n)" by (simp add: push_bit_eq_mult)
  then show ?thesis by (simp only: le_bytes_hton64) (simp add: be_bytes_of_nat del: of_nat_mult)
qed

lemma map_nth_take: "n \<le> length xs \<Longrightarrow> map (\<lambda>i. f (xs ! i)) [0..<n] = map f (take n xs)"
  by (rule nth_equalityI) auto

lemma sha1_end_fed:
  assumes "sha_fed k m ctx"
  shows "sha1_end ctx = fips_digest k m"
proof -
  define n where "n = length m mod 64"
  define r where "r = take n (wbuffer ctx)"
  define len where "len = be_nat 8 (8 * length m)"
  let ?c = "ctx\<lparr>wbuffer := (wbuffer ctx)[n := 0x80]\<rparr>"
  let ?e = "sha1_pad (n + 1) ?c"
  have ctx: "ctx_wf ctx" "process_block ctx = k" "total64 ctx = of_nat (length m)"
      and abs: "absorb 64 (fips_block k) (fips_init k) m = (chain ctx, r)"
    using assms by (simp_all add: sha_fed_def r_def n_def)
  have n: "n < 64" by (simp add: n_def)
  have r: "length r = n" using n ctx by (simp add: r_def ctx_wf_def)
  have c: "ctx_wf ?c" "chain ?c = chain ctx" "process_block ?c = k" "len = le_bytes 8 (hton64 (push_bit 3 (total64 ?c)))"
    using ctx by (simp_all add: ctx_wf_def chain_def len_def length_field)
  have wb: "take (Suc n) ((wbuffer ctx)[n := 0x80]) = r @ [0x80]"
    using n ctx by (simp add: take_Suc_conv_app_nth r_def ctx_wf_def)
  have "chain ?e = fst (absorb 64 (fips_block k) (fips_init k) (m @ md_pad 64 len m)) \<and> process_block ?e = k \<and> ctx_wf ?e"
  proof (cases "n + 1 \<le> 56")
    case True
    with sha1_pad_one [OF c(1) True c(4)] show ?thesis
      by (subst absorb_pad [OF abs, of 8]) (simp_all add: len_def wb c r)
  next
    case False
    with sha1_pad_two [OF c(1) _ _ c(4), of "n + 1"] n show ?thesis
      by (subst absorb_pad [OF abs, of 8]) (simp_all add: len_def wb c r)
  qed
  moreover have "sha1_end ctx = concat (map (\<lambda>i. be_bytes 4 (hash ?e ! i)) [0..<if process_block ?e = Sha1_block then 5 else 8])"
    by (simp add: sha1_end_def ctx in_buf_64 Let_def le_bytes_htonl flip: n_def)
  moreover have "map (\<lambda>i. be_bytes 4 (hash ?e ! i)) [0..<hash_words k] = map (be_bytes 4) (take (hash_words k) (hash ?e))"
    if "ctx_wf ?e"
    using that by (simp add: ctx_wf_def map_nth_take)
  ultimately show ?thesis
    by (cases k) (auto simp: fips_digest_def chain_def hash_words_def len_def)
qed

interpretation sha1_stream: digest_stream sha1_begin sha1_hash sha1_end ctx_wf "sha_fed Sha1_block" "fips_digest Sha1_block" "\<lambda>p. True"
  by unfold_locales (simp_all add: sha_fed_begin sha1_hash_fed sha1_end_fed)

interpretation sha256_stream: digest_stream sha256_begin sha1_hash sha1_end ctx_wf "sha_fed Sha256_block" "fips_digest Sha256_block" "\<lambda>p. True"
  by unfold_locales (simp_all add: sha_fed_begin sha1_hash_fed sha1_end_fed)

subsection \<open>SHA-512\<close>

definition ctx512_wf :: "sha512_ctx_t \<Rightarrow> bool" where
  "ctx512_wf ctx \<longleftrightarrow> length (wbuffer512 ctx) = 128 \<and> length (hash512 ctx) = 8"

lemma block512_simps:
  assumes "ctx512_wf ctx"
  shows "ctx512_wf (sha512_process_block128 ctx)"
    "hash512 (sha512_process_block128 ctx) = fips_sha512 (hash512 ctx) (wbuffer512 ctx)"
    "total_lo (sha512_process_block128 ctx) = total_lo ctx" "total_hi (sha512_process_block128 ctx) = total_hi ctx"
    "wbuffer512 (sha512_process_block128 ctx) = wbuffer512 ctx"
  using assms sha512_block [of ctx] by (simp_all add: ctx512_wf_def)

lemma sha512_loop_absorb:
  assumes "ctx512_wf ctx" "absorb 128 fips_sha512 (hash512 ctx) buf = (h, r)"
  shows "ctx512_wf (sha512_loop buf ctx) \<and> hash512 (sha512_loop buf ctx) = h
    \<and> take (length r) (wbuffer512 (sha512_loop buf ctx)) = r
    \<and> total_lo (sha512_loop buf ctx) = total_lo ctx \<and> total_hi (sha512_loop buf ctx) = total_hi ctx"
  using assms
proof (induction buf ctx rule: sha512_loop.induct)
  case (1 buf ctx)
  let ?c = "ctx\<lparr>wbuffer512 := blit 0 (take 128 buf) (wbuffer512 ctx)\<rparr>"
  show ?case
  proof (cases "128 \<le> length buf")
    case True
    then have c: "ctx512_wf ?c" "wbuffer512 ?c = take 128 buf" "hash512 ?c = hash512 ctx"
      using 1(2) by (auto simp: ctx512_wf_def blit_def)
    have "absorb 128 fips_sha512 (hash512 (sha512_process_block128 ?c)) (drop 128 buf) = (h, r)"
      using 1(3) True c by (simp add: block512_simps absorb.simps [of 128 _ "hash512 ctx" buf])
    with 1(1) [OF True] True c show ?thesis by (simp add: block512_simps sha512_loop.simps [of buf ctx])
  next
    case False
    then have "sha512_loop buf ctx = ctx\<lparr>wbuffer512 := blit 0 buf (wbuffer512 ctx)\<rparr>" by (subst sha512_loop.simps) simp
    then show ?thesis using False 1(2,3) by (auto simp: absorb_short ctx512_wf_def blit_def)
  qed
qed

text \<open>The two words of the counter hold the length modulo $2^{128}$, as long as a piece has fewer than $2^{64}$ bytes.\<close>

definition sha512_fed :: "byte list \<Rightarrow> sha512_ctx_t \<Rightarrow> bool" where
  "sha512_fed m ctx \<longleftrightarrow> ctx512_wf ctx \<and> total_lo ctx = of_nat (length m) \<and> total_hi ctx = of_nat (length m div 2 ^ 64) \<and>
     absorb 128 fips_sha512 fips_init512 m = (hash512 ctx, take (length m mod 128) (wbuffer512 ctx))"

lemma div_carry:
  fixes N :: nat
  assumes "l < N"
  shows "(n + l) div N = (if (n + l) mod N < l then n div N + 1 else n div N)"
proof -
  obtain a q where n: "n = q * N + a" "a < N" using assms by (metis div_mult_mod_eq less_nat_zero_code mod_less_divisor neq0_conv)
  have nq: "n div N = q" using n by simp
  show ?thesis
  proof (cases "a + l < N")
    case True
    then have "(n + l) div N = q" "(n + l) mod N = a + l" by (simp_all add: n(1) add.assoc)
    then show ?thesis using nq by simp
  next
    case False
    then have "n + l = (q + 1) * N + (a + l - N)" "a + l - N < N" using n assms by auto
    then have "(n + l) div N = q + 1" "(n + l) mod N = a + l - N" by (simp_all only: div_mult_self3 mod_mult_self3 mod_less div_less)
    then show ?thesis using nq False n by simp
  qed
qed

lemma counter_carry:
  assumes "l < 2 ^ 64"
  shows "(if (of_nat n :: u64) + of_nat l < of_nat l then of_nat (n div 2 ^ 64) + 1 else of_nat (n div 2 ^ 64)) =
    (of_nat ((n + l) div 2 ^ 64) :: u64)"
proof -
  have un: "unat (of_nat j :: u64) = j mod 2 ^ 64" for j by (simp add: unsigned_of_nat take_bit_eq_mod)
  have "(of_nat n :: u64) + of_nat l < of_nat l \<longleftrightarrow> (n + l) mod 2 ^ 64 < l"
    using assms un [of "n + l"] un [of l] by (simp add: word_less_nat_alt)
  moreover have "(n + l) div 2 ^ 64 = (if (n + l) mod 2 ^ 64 < l then n div 2 ^ 64 + 1 else n div 2 ^ 64)"
    by (rule div_carry) (use assms in simp)
  ultimately show ?thesis by (auto simp: add.commute)
qed

lemma upt_eight: "[0..<8] = [0, 1, 2, 3, 4, 5, 6, 7 :: nat]"
  by code_simp

lemma sha512_fed_begin: "ctx512_wf ctx \<Longrightarrow> sha512_fed [] (sha512_begin ctx)"
  by (simp add: sha512_fed_def ctx512_wf_def sha512_begin_def absorb_short init256_def init512_lo_def fips_init512_def
      upt_eight push_bit_eq_mult)

lemma sha512_hash_fed:
  assumes "sha512_fed m ctx" "length p < 2 ^ 64"
  shows "sha512_fed (m @ p) (sha512_hash p ctx)"
proof -
  define n where "n = length m mod 128"
  define r where "r = take n (wbuffer512 ctx)"
  have ctx: "ctx512_wf ctx" "total_lo ctx = of_nat (length m)" "total_hi ctx = of_nat (length m div 2 ^ 64)"
      and abs: "absorb 128 fips_sha512 fips_init512 m = (hash512 ctx, r)"
    using assms by (simp_all add: sha512_fed_def r_def n_def)
  have wb: "length (wbuffer512 ctx) = 128" using ctx by (simp add: ctx512_wf_def)
  have n: "n < 128" by (simp add: n_def)
  have r: "length r = n" using n wb by (simp add: r_def)
  have all: "absorb 128 fips_sha512 fips_init512 (m @ p) = absorb 128 fips_sha512 (hash512 ctx) (r @ p)"
    by (simp add: absorb_append [of _ _ _ m] abs)
  let ?ctx = "ctx\<lparr>total_lo := of_nat (length m) + of_nat (length p), total_hi := of_nat ((length m + length p) div 2 ^ 64)\<rparr>"
  note hash = sha512_hash_def [of p ctx, unfolded Let_def ctx(2,3) counter_carry [OF assms(2)] in_buf_128, folded n_def]
  show ?thesis
  proof (cases "128 - n \<le> length p")
    case True
    let ?c = "?ctx\<lparr>wbuffer512 := blit n (take (128 - n) p) (wbuffer512 ctx)\<rparr>"
    have c: "ctx512_wf ?c" "wbuffer512 ?c = r @ take (128 - n) p" "hash512 ?c = hash512 ctx"
      using True n wb ctx by (auto simp: ctx512_wf_def blit_def r_def)
    have run: "sha512_hash p ctx = sha512_loop (drop (128 - n) p) (sha512_process_block128 ?c)" using True by (simp add: hash)
    have "absorb 128 fips_sha512 (hash512 ctx) ((r @ take (128 - n) p) @ drop (128 - n) p)
        = absorb 128 fips_sha512 (hash512 (sha512_process_block128 ?c)) (drop (128 - n) p)"
      using True n r c ctx by (subst absorb_block) (simp_all add: block512_simps)
    then obtain h s where hs: "absorb 128 fips_sha512 (hash512 (sha512_process_block128 ?c)) (drop (128 - n) p) = (h, s)"
        "absorb 128 fips_sha512 fips_init512 (m @ p) = (h, s)"
      using all by (metis append.assoc append_take_drop_id surj_pair)
    have "length s = (length m + length p) mod 128" using absorb_rest [OF _ hs(2)] by simp
    with sha512_loop_absorb [OF block512_simps(1) [OF c(1)] hs(1)] show ?thesis
      unfolding sha512_fed_def run hs(2) using c by (simp add: block512_simps)
  next
    case False
    have len: "(length m + length p) mod 128 = n + length p"
      using False mod_add_left_eq [of "length m" 128 "length p"] by (simp add: n_def)
    have "sha512_hash p ctx = ?ctx\<lparr>wbuffer512 := blit n p (wbuffer512 ctx)\<rparr>" using False by (simp add: hash)
    then show ?thesis
      using False ctx wb n r all len by (simp add: sha512_fed_def absorb_short ctx512_wf_def) (simp add: blit_def r_def)
  qed
qed

subsection \<open>Ending SHA-512\<close>

lemma sha512_pad_one:
  assumes "ctx512_wf ctx" "j \<le> 112" and len: "length len = 16"
    "len = le_bytes 8 (hton64 (push_bit 3 (total_hi ctx) OR drop_bit 61 (total_lo ctx))) @ le_bytes 8 (hton64 (push_bit 3 (total_lo ctx)))"
  shows "hash512 (sha512_pad j ctx) = fips_sha512 (hash512 ctx) (take j (wbuffer512 ctx) @ replicate (112 - j) 0 @ len)
    \<and> ctx512_wf (sha512_pad j ctx)"
proof -
  let ?b = "blit j (replicate (128 - j) 0) (wbuffer512 ctx)"
  let ?c = "ctx\<lparr>wbuffer512 := blit 112 (le_bytes 8 (hton64 (push_bit 3 (total_hi ctx) OR drop_bit 61 (total_lo ctx))))
          (blit 120 (le_bytes 8 (hton64 (push_bit 3 (total_lo ctx)))) ?b)\<rparr>"
  have "sha512_pad j ctx = sha512_process_block128 ?c" using assms(2) by (simp add: sha512_pad.simps Let_def)
  moreover have "ctx512_wf ?c" using assms by (auto simp: ctx512_wf_def)
  moreover have "wbuffer512 ?c = take j (wbuffer512 ctx) @ replicate (112 - j) 0 @ len"
    using assms(1,2) unfolding len(2) by (simp add: blit_def ctx512_wf_def min_def)
  ultimately show ?thesis by (simp add: block512_simps)
qed

lemma sha512_pad_two:
  assumes "ctx512_wf ctx" "112 < j" "j \<le> 128" and len: "length len = 16"
    "len = le_bytes 8 (hton64 (push_bit 3 (total_hi ctx) OR drop_bit 61 (total_lo ctx))) @ le_bytes 8 (hton64 (push_bit 3 (total_lo ctx)))"
  shows "hash512 (sha512_pad j ctx) =
      fips_sha512 (fips_sha512 (hash512 ctx) (take j (wbuffer512 ctx) @ replicate (128 - j) 0)) (replicate 112 0 @ len)
    \<and> ctx512_wf (sha512_pad j ctx)"
proof -
  let ?c = "ctx\<lparr>wbuffer512 := blit j (replicate (128 - j) 0) (wbuffer512 ctx)\<rparr>"
  have "sha512_pad j ctx = sha512_pad 0 (sha512_process_block128 ?c)" using assms(2,3) by (simp add: sha512_pad.simps [of j] Let_def)
  moreover have "ctx512_wf ?c" using assms by (auto simp: ctx512_wf_def)
  moreover have "wbuffer512 ?c = take j (wbuffer512 ctx) @ replicate (128 - j) 0"
    using assms by (simp add: blit_def ctx512_wf_def)
  ultimately show ?thesis using sha512_pad_one [of "sha512_process_block128 ?c" 0 len] len by (simp add: block512_simps)
qed

lemma length_field_hi: "push_bit 3 (of_nat (n div 2 ^ 64)) OR drop_bit 61 (of_nat n) = (of_nat (8 * n div 2 ^ 64) :: u64)"
proof (rule bit_word_eqI)
  fix i
  assume i: "i < LENGTH(64)"
  have "8 * n div 2 ^ 64 = drop_bit 61 n" by (simp add: drop_bit_eq_div div_mult2_eq [of n "2 ^ 61" 8])
  moreover have "n div 2 ^ 64 = drop_bit 64 n" by (simp add: drop_bit_eq_div)
  ultimately show "bit (push_bit 3 (of_nat (n div 2 ^ 64)) OR drop_bit 61 (of_nat n) :: u64) i = bit (of_nat (8 * n div 2 ^ 64) :: u64) i"
    using i by (cases "i < 3") (auto simp: bit_simps)
qed

lemma length_field512:
  "le_bytes 8 (hton64 (push_bit 3 (of_nat (n div 2 ^ 64)) OR drop_bit 61 (of_nat n :: u64))) @ le_bytes 8 (hton64 (push_bit 3 (of_nat n :: u64)))
   = be_nat 16 (8 * n)"
proof -
  have "be_nat (8 + 8) (8 * n) = be_nat 8 (8 * n div 2 ^ 64) @ be_nat 8 (8 * n)" by (simp only: be_nat_split) simp
  moreover have "be_bytes 8 (of_nat (8 * n div 2 ^ 64) :: u64) = be_nat 8 (8 * n div 2 ^ 64)"
    by (rule be_bytes_of_nat) simp
  ultimately show ?thesis
    using length_field [of n] unfolding length_field_hi le_bytes_hton64 by simp
qed

lemma sha512_end_fed:
  assumes "sha512_fed m ctx"
  shows "sha512_end ctx = fips_digest512 m"
proof -
  define n where "n = length m mod 128"
  define r where "r = take n (wbuffer512 ctx)"
  define len where "len = be_nat 16 (8 * length m)"
  let ?c = "ctx\<lparr>wbuffer512 := (wbuffer512 ctx)[n := 0x80]\<rparr>"
  let ?e = "sha512_pad (n + 1) ?c"
  have ctx: "ctx512_wf ctx" "total_lo ctx = of_nat (length m)" "total_hi ctx = of_nat (length m div 2 ^ 64)"
      and abs: "absorb 128 fips_sha512 fips_init512 m = (hash512 ctx, r)"
    using assms by (simp_all add: sha512_fed_def r_def n_def)
  have n: "n < 128" by (simp add: n_def)
  have r: "length r = n" using n ctx by (simp add: r_def ctx512_wf_def)
  have c: "ctx512_wf ?c" "hash512 ?c = hash512 ctx" "length len = 16"
      "len = le_bytes 8 (hton64 (push_bit 3 (total_hi ?c) OR drop_bit 61 (total_lo ?c))) @ le_bytes 8 (hton64 (push_bit 3 (total_lo ?c)))"
    using ctx length_field512 [of "length m"] by (simp_all add: ctx512_wf_def len_def)
  have wb: "take (Suc n) ((wbuffer512 ctx)[n := 0x80]) = r @ [0x80]"
    using n ctx by (simp add: take_Suc_conv_app_nth r_def ctx512_wf_def)
  have "hash512 ?e = fst (absorb 128 fips_sha512 fips_init512 (m @ md_pad 128 len m)) \<and> ctx512_wf ?e"
  proof (cases "n + 1 \<le> 112")
    case True
    with sha512_pad_one [OF c(1) True c(3,4)] show ?thesis
      by (subst absorb_pad [OF abs, of 16]) (simp_all add: len_def wb r)
  next
    case False
    with sha512_pad_two [OF c(1) _ _ c(3,4), of "n + 1"] n show ?thesis
      by (subst absorb_pad [OF abs, of 16]) (simp_all add: len_def wb r)
  qed
  moreover have "sha512_end ctx = concat (map (\<lambda>i. be_bytes 8 (hash512 ?e ! i)) [0..<8])"
    by (simp add: sha512_end_def ctx in_buf_128 Let_def le_bytes_hton64 flip: n_def)
  moreover have "map (\<lambda>i. be_bytes 8 (hash512 ?e ! i)) [0..<8] = map (be_bytes 8) (hash512 ?e)" if "ctx512_wf ?e"
    using that by (simp add: map_nth_take ctx512_wf_def)
  ultimately show ?thesis by (simp add: fips_digest512_def len_def)
qed

interpretation sha512_stream: digest_stream sha512_begin sha512_hash sha512_end ctx512_wf sha512_fed fips_digest512 "\<lambda>p. length p < 2 ^ 64"
  by unfold_locales (simp_all add: sha512_fed_begin sha512_hash_fed sha512_end_fed)

subsection \<open>The constants of the standard\<close>

text \<open>
  The standard defines the constants of the rounds as the first 64 bits of the fractional parts of the cube roots of the first eighty
  primes, and the initial values by the square roots of the first eight.
\<close>

definition first_primes :: "nat \<Rightarrow> int list" where
  "first_primes n = take n (filter (\<lambda>p. list_all (\<lambda>d. p < d * d \<or> p mod d \<noteq> 0) [2..20]) [2..410])"

definition root_fraction :: "(int \<Rightarrow> int) \<Rightarrow> int \<Rightarrow> u64 \<Rightarrow> bool" where
  "root_fraction pow p w =
     (let a = last (filter (\<lambda>a. pow a \<le> p) [0..20]); x = a * 18446744073709551616 + uint w; n = p * pow 18446744073709551616 in
      pow x \<le> n \<and> n < pow (x + 1))"

lemma sha512_begin_hash: "hash512 (sha512_begin ctx) = fips_init512"
  by (simp add: sha512_begin_def init256_def init512_lo_def fips_init512_def upt_eight push_bit_eq_mult)

lemma round_constants: "list_all2 (root_fraction (\<lambda>x. x * x * x)) (first_primes 80) sha_K"
  by code_simp

lemma start_constants: "list_all2 (root_fraction (\<lambda>x. x * x)) (first_primes 8) fips_init512"
  by code_simp

subsection \<open>Properties\<close>

definition fresh_ctx :: sha1_ctx_t where
  "fresh_ctx = \<lparr>hash = replicate 8 0, total64 = 7, wbuffer = replicate 64 255, process_block = Sha1_block\<rparr>"

definition fresh_ctx512 :: sha512_ctx_t where
  "fresh_ctx512 = \<lparr>hash512 = replicate 8 0, total_lo = 7, total_hi = 1, wbuffer512 = replicate 128 255\<rparr>"

text \<open>
  C29: a text fed to \<open>sha1_hash\<close> in pieces of any lengths has the SHA-1, or after \<open>sha256_begin\<close> the SHA-256, digest of the standard,
  whatever the context held before.
\<close>

theorem sha1_stream_digest:
  "ctx_wf ctx \<Longrightarrow>
   sha1_end (fold sha1_hash ps (sha1_begin ctx)) = fips_digest Sha1_block (concat ps) \<and>
   sha1_end (fold sha1_hash ps (sha256_begin ctx)) = fips_digest Sha256_block (concat ps)"
  by (simp add: sha1_stream.stream_digest sha256_stream.stream_digest)

theorem sha1_stream_digest_witness:
  "ctx_wf fresh_ctx \<and> sha1_end (sha1_hash [98, 99] (sha1_hash [97] (sha1_begin fresh_ctx))) = fips_digest Sha1_block [97, 98, 99]"
proof -
  have "ctx_wf fresh_ctx" by (simp add: ctx_wf_def fresh_ctx_def)
  with sha1_stream_digest [OF this, of "[[97], [98, 99]]"] show ?thesis by simp
qed

text \<open>
  C30: a text fed to \<open>sha512_hash\<close> in pieces has the SHA-512 digest of the standard, with the 128-bit length field computed from the two
  words of the counter; each piece has fewer than $2^{64}$ bytes.
\<close>

theorem sha512_stream_digest:
  "ctx512_wf ctx \<Longrightarrow> \<forall>p\<in>set ps. length p < 2 ^ 64 \<Longrightarrow>
   sha512_end (fold sha512_hash ps (sha512_begin ctx)) = fips_digest512 (concat ps)"
  by (rule sha512_stream.stream_digest)

theorem sha512_stream_digest_witness:
  "ctx512_wf fresh_ctx512 \<and> length [98, 99 :: byte] < 2 ^ 64 \<and>
   sha512_end (sha512_hash [98, 99] (sha512_hash [97] (sha512_begin fresh_ctx512))) = fips_digest512 [97, 98, 99]"
proof -
  have wf: "ctx512_wf fresh_ctx512" by (simp add: ctx512_wf_def fresh_ctx512_def)
  have small: "\<forall>p\<in>set [[97], [98, 99 :: byte]]. length p < 2 ^ 64" by simp
  from sha512_stream_digest [OF wf small] wf small show ?thesis by simp
qed

text \<open>
  C31: the table of round constants holds the fractions of the cube roots of the first eighty primes, and \<open>sha512_begin\<close> stores those
  of the square roots of the first eight, each to 64 bits.
\<close>

theorem sha_constants:
  "list_all2 (root_fraction (\<lambda>x. x * x * x)) (first_primes 80) sha_K \<and>
   list_all2 (root_fraction (\<lambda>x. x * x)) (first_primes 8) (hash512 (sha512_begin ctx))"
  by (simp add: round_constants start_constants sha512_begin_hash)

end
