(* ===== verification/Md5.thy ===== *)
theory Md5
  imports Digest Sha_Spec
begin

text \<open>
  \<^verbatim>\<open>busybox/libbb/md5.c\<close>: the MD5 digest. The block function has four variants, chosen when the program is built
  (\<open>MD5_SIZE_VS_SPEED\<close>, from unrolled to a single loop); all four are modelled. The macro \<open>rotl32\<close> is that of
  \<^verbatim>\<open>sha1.c\<close>. The host is little-endian.
\<close>

subsection \<open>The context\<close>

record md5_ctx_t =
  md5_A :: u32
  md5_B :: u32
  md5_C :: u32
  md5_D :: u32
  md5_total :: u64
  buflen :: u32
  md5_buffer :: "byte list"

type_synonym md5_regs = "u32 \<times> u32 \<times> u32 \<times> u32"

definition md5_begin :: "md5_ctx_t \<Rightarrow> md5_ctx_t" where
  "md5_begin ctx = ctx\<lparr>md5_A := 0x67452301, md5_B := 0xefcdab89, md5_C := 0x98badcfe, md5_D := 0x10325476,
     md5_total := 0, buflen := 0\<rparr>"

subsection \<open>Tables and round functions\<close>

definition FF :: "u32 \<Rightarrow> u32 \<Rightarrow> u32 \<Rightarrow> u32" where
  "FF b c d = d XOR (b AND (c XOR d))"

definition FG :: "u32 \<Rightarrow> u32 \<Rightarrow> u32 \<Rightarrow> u32" where
  "FG b c d = FF d b c"

definition FH :: "u32 \<Rightarrow> u32 \<Rightarrow> u32 \<Rightarrow> u32" where
  "FH b c d = b XOR c XOR d"

definition FI :: "u32 \<Rightarrow> u32 \<Rightarrow> u32 \<Rightarrow> u32" where
  "FI b c d = c XOR (b OR NOT d)"

definition C_array :: "u32 list" where
  "C_array =
    [3614090360, 3905402710, 606105819, 3250441966, 4118548399, 1200080426, 2821735955, 4249261313,
     1770035416, 2336552879, 4294925233, 2304563134, 1804603682, 4254626195, 2792965006, 1236535329,
     4129170786, 3225465664, 643717713, 3921069994, 3593408605, 38016083, 3634488961, 3889429448,
     568446438, 3275163606, 4107603335, 1163531501, 2850285829, 4243563512, 1735328473, 2368359562,
     4294588738, 2272392833, 1839030562, 4259657740, 2763975236, 1272893353, 4139469664, 3200236656,
     681279174, 3936430074, 3572445317, 76029189, 3654602809, 3873151461, 530742520, 3299628645,
     4096336452, 1126891415, 2878612391, 4237533241, 1700485571, 2399980690, 4293915773, 2240044497,
     1873313359, 4264355552, 2734768916, 1309151649, 4149444226, 3174756917, 718787259, 3951481745]"

text \<open>The smaller variants keep the indices of the first round too.\<close>

definition P_array :: "nat \<Rightarrow> nat list" where
  "P_array speed = (if 1 < speed then [0, 1, 2, 3, 4, 5, 6, 7, 8, 9, 10, 11, 12, 13, 14, 15] else []) @
     [1, 6, 11, 0, 5, 10, 15, 4, 9, 14, 3, 8, 13, 2, 7, 12,
      5, 8, 11, 14, 1, 4, 7, 10, 13, 0, 3, 6, 9, 12, 15, 2,
      0, 7, 14, 5, 12, 3, 10, 1, 8, 15, 6, 13, 4, 11, 2, 9]"

definition S_array :: "nat list" where
  "S_array = [7, 12, 17, 22, 5, 9, 14, 20, 4, 11, 16, 23, 6, 10, 15, 21]"

subsection \<open>The loops of the small variants\<close>

fun md5_turn :: "(u32 \<Rightarrow> u32 \<Rightarrow> u32 \<Rightarrow> u32) \<Rightarrow> u32 \<Rightarrow> u32 \<Rightarrow> nat \<Rightarrow> md5_regs \<Rightarrow> md5_regs" where
  "md5_turn f x T s (A, B, C, D) =
     (let temp = A + f B C D + x + T; temp = rotl32 temp s; temp = temp + B in (D, temp, B, C))"

definition md5_rounds3 :: "u32 list \<Rightarrow> md5_regs \<Rightarrow> md5_regs" where
  "md5_rounds3 cwp = fold (\<lambda>i.
     md5_turn (case i div 16 of 0 \<Rightarrow> FF | Suc 0 \<Rightarrow> FG | Suc (Suc 0) \<Rightarrow> FH | _ \<Rightarrow> FI)
       (cwp ! (P_array 3 ! i)) (C_array ! i) (S_array ! (4 * (i div 16) + i mod 4))) [0..<64]"

definition md5_loop16 :: "u32 list \<Rightarrow> (u32 \<Rightarrow> u32 \<Rightarrow> u32 \<Rightarrow> u32) \<Rightarrow> nat \<Rightarrow> md5_regs \<Rightarrow> md5_regs" where
  "md5_loop16 cwp f j = fold (\<lambda>i.
     md5_turn f (cwp ! (P_array 2 ! (16 * j + i))) (C_array ! (16 * j + i)) (S_array ! (4 * j + i mod 4))) [0..<16]"

definition md5_rounds2 :: "u32 list \<Rightarrow> md5_regs \<Rightarrow> md5_regs" where
  "md5_rounds2 cwp r = md5_loop16 cwp FI 3 (md5_loop16 cwp FH 2 (md5_loop16 cwp FG 1 (md5_loop16 cwp FF 0 r)))"

subsection \<open>The unrolled variants\<close>

definition md5_OP :: "(u32 \<Rightarrow> u32 \<Rightarrow> u32 \<Rightarrow> u32) \<Rightarrow> u32 \<Rightarrow> nat \<Rightarrow> u32 \<Rightarrow> u32 \<Rightarrow> u32 \<Rightarrow> u32 \<Rightarrow> u32 \<Rightarrow> u32" where
  "md5_OP f x s T a b c d = rotl32 (a + (f b c d + x + T)) s + b"

text \<open>Four consecutive operations, on \<open>A\<close>, \<open>D\<close>, \<open>C\<close> and \<open>B\<close>.\<close>

fun md5_quad :: "(u32 \<Rightarrow> u32 \<Rightarrow> u32 \<Rightarrow> u32) \<Rightarrow> (u32 \<times> nat \<times> u32) \<Rightarrow> (u32 \<times> nat \<times> u32) \<Rightarrow> (u32 \<times> nat \<times> u32) \<Rightarrow>
    (u32 \<times> nat \<times> u32) \<Rightarrow> md5_regs \<Rightarrow> md5_regs" where
  "md5_quad f (x1, s1, T1) (x2, s2, T2) (x3, s3, T3) (x4, s4, T4) (A, B, C, D) =
     (let A = md5_OP f x1 s1 T1 A B C D; D = md5_OP f x2 s2 T2 D A B C;
          C = md5_OP f x3 s3 T3 C D A B; B = md5_OP f x4 s4 T4 B C D A in (A, B, C, D))"

definition md5_loop4 :: "(nat \<Rightarrow> u32) \<Rightarrow> (u32 \<Rightarrow> u32 \<Rightarrow> u32 \<Rightarrow> u32) \<Rightarrow> nat \<Rightarrow> nat \<Rightarrow> nat \<Rightarrow> nat \<Rightarrow> nat \<Rightarrow> md5_regs \<Rightarrow> md5_regs" where
  "md5_loop4 x f pc s1 s2 s3 s4 = fold (\<lambda>i.
     md5_quad f (x (4 * i), s1, C_array ! (pc + 4 * i)) (x (4 * i + 1), s2, C_array ! (pc + 4 * i + 1))
       (x (4 * i + 2), s3, C_array ! (pc + 4 * i + 2)) (x (4 * i + 3), s4, C_array ! (pc + 4 * i + 3))) [0..<4]"

definition md5_rounds1 :: "u32 list \<Rightarrow> md5_regs \<Rightarrow> md5_regs" where
  "md5_rounds1 cwp r =
     (let r = md5_loop4 (\<lambda>i. cwp ! i) FF 0 7 12 17 22 r;
          r = md5_loop4 (\<lambda>i. cwp ! (P_array 1 ! i)) FG 16 5 9 14 20 r;
          r = md5_loop4 (\<lambda>i. cwp ! (P_array 1 ! (16 + i))) FH 32 4 11 16 23 r in
      md5_loop4 (\<lambda>i. cwp ! (P_array 1 ! (32 + i))) FI 48 6 10 15 21 r)"

text \<open>The fastest variant writes out the word, the shift and the constant of every operation.\<close>

fun md5_ops :: "u32 list \<Rightarrow> (u32 \<Rightarrow> u32 \<Rightarrow> u32 \<Rightarrow> u32) \<Rightarrow> (nat \<times> nat \<times> u32) list \<Rightarrow> md5_regs \<Rightarrow> md5_regs" where
  "md5_ops cwp f ((k1, o1) # (k2, o2) # (k3, o3) # (k4, o4) # ops) r =
     md5_ops cwp f ops (md5_quad f (cwp ! k1, o1) (cwp ! k2, o2) (cwp ! k3, o3) (cwp ! k4, o4) r)"
| "md5_ops cwp f _ r = r"

definition md5_ops1 :: "(nat \<times> nat \<times> u32) list" where
  "md5_ops1 =
    [(0, 7, 3614090360), (1, 12, 3905402710), (2, 17, 606105819), (3, 22, 3250441966),
     (4, 7, 4118548399), (5, 12, 1200080426), (6, 17, 2821735955), (7, 22, 4249261313),
     (8, 7, 1770035416), (9, 12, 2336552879), (10, 17, 4294925233), (11, 22, 2304563134),
     (12, 7, 1804603682), (13, 12, 4254626195), (14, 17, 2792965006), (15, 22, 1236535329)]"

definition md5_ops2 :: "(nat \<times> nat \<times> u32) list" where
  "md5_ops2 =
    [(1, 5, 4129170786), (6, 9, 3225465664), (11, 14, 643717713), (0, 20, 3921069994),
     (5, 5, 3593408605), (10, 9, 38016083), (15, 14, 3634488961), (4, 20, 3889429448),
     (9, 5, 568446438), (14, 9, 3275163606), (3, 14, 4107603335), (8, 20, 1163531501),
     (13, 5, 2850285829), (2, 9, 4243563512), (7, 14, 1735328473), (12, 20, 2368359562)]"

definition md5_ops3 :: "(nat \<times> nat \<times> u32) list" where
  "md5_ops3 =
    [(5, 4, 4294588738), (8, 11, 2272392833), (11, 16, 1839030562), (14, 23, 4259657740),
     (1, 4, 2763975236), (4, 11, 1272893353), (7, 16, 4139469664), (10, 23, 3200236656),
     (13, 4, 681279174), (0, 11, 3936430074), (3, 16, 3572445317), (6, 23, 76029189),
     (9, 4, 3654602809), (12, 11, 3873151461), (15, 16, 530742520), (2, 23, 3299628645)]"

definition md5_ops4 :: "(nat \<times> nat \<times> u32) list" where
  "md5_ops4 =
    [(0, 6, 4096336452), (7, 10, 1126891415), (14, 15, 2878612391), (5, 21, 4237533241),
     (12, 6, 1700485571), (3, 10, 2399980690), (10, 15, 4293915773), (1, 21, 2240044497),
     (8, 6, 1873313359), (15, 10, 4264355552), (6, 15, 2734768916), (13, 21, 1309151649),
     (4, 6, 4149444226), (11, 10, 3174756917), (2, 15, 718787259), (9, 21, 3951481745)]"

definition md5_rounds0 :: "u32 list \<Rightarrow> md5_regs \<Rightarrow> md5_regs" where
  "md5_rounds0 cwp r =
     md5_ops cwp FI md5_ops4 (md5_ops cwp FH md5_ops3 (md5_ops cwp FG md5_ops2 (md5_ops cwp FF md5_ops1 r)))"

subsection \<open>Hashing\<close>

definition correct_words :: "byte list \<Rightarrow> u32 list" where
  "correct_words buf = map (\<lambda>i. le_word (bslice (4 * i) 4 buf)) [0..<16]"

definition md5_rounds :: "nat \<Rightarrow> u32 list \<Rightarrow> md5_regs \<Rightarrow> md5_regs" where
  "md5_rounds speed =
     (if 2 < speed then md5_rounds3 else if 1 < speed then md5_rounds2 else if speed = 1 then md5_rounds1 else md5_rounds0)"

definition md5_hash_block :: "nat \<Rightarrow> byte list \<Rightarrow> md5_ctx_t \<Rightarrow> md5_ctx_t" where
  "md5_hash_block speed buf ctx =
     (case md5_rounds speed (correct_words buf) (md5_A ctx, md5_B ctx, md5_C ctx, md5_D ctx) of (A, B, C, D) \<Rightarrow>
      ctx\<lparr>md5_A := A + md5_A ctx, md5_B := B + md5_B ctx, md5_C := C + md5_C ctx, md5_D := D + md5_D ctx\<rparr>)"

text \<open>The loop of \<open>md5_hash\<close>: with a full buffer the copy is empty and the buffer is processed.\<close>

function md5_loop :: "nat \<Rightarrow> byte list \<Rightarrow> md5_ctx_t \<Rightarrow> md5_ctx_t" where
  "md5_loop speed buf ctx0 =
     (if buf = [] then ctx0
      else let i = min (unat (64 - buflen ctx0)) (length buf);
               ctx = ctx0\<lparr>md5_buffer := blit (unat (buflen ctx0)) (take i buf) (md5_buffer ctx0),
                 buflen := buflen ctx0 + of_nat i\<rparr> in
           md5_loop speed (drop i buf)
             (if buflen ctx = 64 then (md5_hash_block speed (take 64 (md5_buffer ctx)) ctx)\<lparr>buflen := 0\<rparr> else ctx))"
  by pat_completeness auto
termination
proof (relation "measure (\<lambda>(speed, buf, ctx). 2 * length buf + (if buflen ctx = 64 then 1 else 0))", goal_cases)
  case (2 speed buf ctx0 i ctx)
  show ?case
  proof (cases "buflen ctx0 = 64")
    case True
    with 2 show ?thesis by simp
  next
    case False
    then have "0 < unat (64 - buflen ctx0)" by (simp add: unat_gt_0)
    with 2 have "0 < i" "i \<le> length buf" by auto
    then show ?thesis by auto
  qed
qed simp

declare md5_loop.simps [simp del]

definition md5_hash :: "nat \<Rightarrow> byte list \<Rightarrow> md5_ctx_t \<Rightarrow> md5_ctx_t" where
  "md5_hash speed buf ctx = md5_loop speed buf (ctx\<lparr>md5_total := md5_total ctx + of_nat (length buf)\<rparr>)"

definition md5_end :: "nat \<Rightarrow> md5_ctx_t \<Rightarrow> byte list" where
  "md5_end speed ctx0 =
     (let n = unat (buflen ctx0) + 1;
          buf = blit n (replicate (128 - n) 0) ((md5_buffer ctx0)[n - 1 := 0x80]);
          total = push_bit 3 (md5_total ctx0);
          off = (if 56 < n then 64 else 0);
          buf = blit (off + 56) (le_bytes 8 total) buf;
          ctx = ctx0\<lparr>md5_total := total, md5_buffer := buf\<rparr>;
          ctx = (if off \<noteq> 0 then md5_hash_block speed (take 64 buf) ctx else ctx);
          ctx = md5_hash_block speed (bslice off 64 buf) ctx in
      concat (map (le_bytes 4) [md5_A ctx, md5_B ctx, md5_C ctx, md5_D ctx]))"

end
