(* ===== verification/Md5_Digest.thy ===== *)
theory Md5_Digest
  imports Md5
begin

text \<open>
  The MD5 digest against the definition of RFC 1321: the four variants of the block function compute the same compression function, and
  a digest fed in pieces is that of the whole message.
\<close>

subsection \<open>The definition of the RFC\<close>

definition rfc_F :: "nat \<Rightarrow> u32 \<Rightarrow> u32 \<Rightarrow> u32 \<Rightarrow> u32" where
  "rfc_F i x y z =
     (if i < 16 then (x AND y) OR (NOT x AND z) else if i < 32 then (x AND z) OR (y AND NOT z)
      else if i < 48 then x XOR y XOR z else y XOR (x OR NOT z))"

definition rfc_k :: "nat \<Rightarrow> nat" where
  "rfc_k i = (if i < 16 then i else if i < 32 then (5 * i + 1) mod 16 else if i < 48 then (3 * i + 5) mod 16 else 7 * i mod 16)"

definition rfc_s :: "nat \<Rightarrow> nat" where
  "rfc_s i = [[7, 12, 17, 22], [5, 9, 14, 20], [4, 11, 16, 23], [6, 10, 15, 21]] ! (i div 16) ! (i mod 4)"

fun rfc_step :: "u32 list \<Rightarrow> nat \<Rightarrow> md5_regs \<Rightarrow> md5_regs" where
  "rfc_step X i (a, b, c, d) = (d, b + word_rotl (rfc_s i) (a + rfc_F i b c d + X ! rfc_k i + C_array ! i), b, c)"

definition rfc_rounds :: "u32 list \<Rightarrow> md5_regs \<Rightarrow> md5_regs" where
  "rfc_rounds X = fold (rfc_step X) [0..<64]"

subsection \<open>The four variants\<close>

lemma round_functions:
  "FF x y z = (x AND y) OR (NOT x AND z)" "FG x y z = (x AND z) OR (y AND NOT z)"
  by (rule bit_word_eqI, auto simp: FF_def FG_def bit_simps)+

lemmas FHI = FH_def FI_def

lemma rfc_k_lt: "i < 64 \<Longrightarrow> rfc_k i < 16"
  by (simp add: rfc_k_def)

lemma rfc_s_range: "\<forall>i\<in>set [0..<64]. 0 < rfc_s i \<and> rfc_s i < 32"
  by code_simp

lemma turn_rfc:
  assumes "i < 64" "f = rfc_F i" "k = rfc_k i" "T = C_array ! i" "s = rfc_s i"
  shows "md5_turn f (X ! k) T s r = rfc_step X i r"
  using assms rfc_s_range by (cases r) (simp add: rotations Let_def add.commute)

lemma small_tables:
  "\<forall>i\<in>set [0..<64]. P_array 3 ! i = rfc_k i \<and> P_array 2 ! i = rfc_k i \<and> S_array ! (4 * (i div 16) + i mod 4) = rfc_s i"
  by code_simp

lemma F_case: "i < 64 \<Longrightarrow> (case i div 16 of 0 \<Rightarrow> FF | Suc 0 \<Rightarrow> FG | Suc (Suc 0) \<Rightarrow> FH | _ \<Rightarrow> FI) = rfc_F i"
  by (auto simp: fun_eq_iff rfc_F_def round_functions FHI split: nat.split)

lemma md5_rounds3_rfc: "md5_rounds3 X = rfc_rounds X"
proof (rule ext)
  fix r
  show "md5_rounds3 X r = rfc_rounds X r"
    unfolding md5_rounds3_def rfc_rounds_def
    by (rule fold_cong [OF refl refl], rule ext, rule turn_rfc) (use small_tables in \<open>auto simp: F_case\<close>)
qed

text \<open>A round of sixteen turns.\<close>

lemma fold_upt_shift: "fold f [a..<a + n] = fold (\<lambda>i. f (a + i)) [0..<n]"
proof -
  have "[a..<a + n] = map (\<lambda>i. a + i) [0..<n]" by (rule nth_equalityI) auto
  then show ?thesis by (simp add: fold_map comp_def)
qed

lemma rfc_rounds_split:
  "rfc_rounds X r = fold (\<lambda>i. rfc_step X (48 + i)) [0..<16] (fold (\<lambda>i. rfc_step X (32 + i)) [0..<16]
     (fold (\<lambda>i. rfc_step X (16 + i)) [0..<16] (fold (\<lambda>i. rfc_step X (0 + i)) [0..<16] r)))"
proof -
  have "[0..<64] = [0..<0 + 16] @ [16..<16 + 16] @ [32..<32 + 16] @ [48..<48 + 16 :: nat]" by code_simp
  then show ?thesis unfolding rfc_rounds_def by (simp only: fold_append comp_def fold_upt_shift)
qed

lemma round_F:
  "i < 16 \<Longrightarrow> rfc_F i = FF" "i < 16 \<Longrightarrow> rfc_F (16 + i) = FG" "i < 16 \<Longrightarrow> rfc_F (32 + i) = FH" "i < 16 \<Longrightarrow> rfc_F (48 + i) = FI"
  by (simp_all add: fun_eq_iff rfc_F_def round_functions FHI)

lemma loop16_rfc:
  assumes "j < 4" "\<And>i. i < 16 \<Longrightarrow> f = rfc_F (16 * j + i)"
  shows "md5_loop16 X f j = fold (\<lambda>i. rfc_step X (16 * j + i)) [0..<16]"
proof -
  have "md5_turn f (X ! (P_array 2 ! (16 * j + i))) (C_array ! (16 * j + i)) (S_array ! (4 * j + i mod 4)) = rfc_step X (16 * j + i)"
    if i: "i < 16" for i
  proof (rule ext, rule turn_rfc)
    have "(16 * j + i) div 16 = j" "(16 * j + i) mod 4 = i mod 4" using i mod_mult_self2 [of i 4 "4 * j"] by (simp_all add: add.commute)
    then show "S_array ! (4 * j + i mod 4) = rfc_s (16 * j + i)"
      using small_tables [THEN bspec, of "16 * j + i"] assms(1) i by simp
    show "P_array 2 ! (16 * j + i) = rfc_k (16 * j + i)"
      using small_tables [THEN bspec, of "16 * j + i"] assms(1) i by simp
  qed (use assms i in auto)
  then show ?thesis unfolding md5_loop16_def by (intro ext fold_cong) auto
qed

lemma md5_rounds2_rfc: "md5_rounds2 X = rfc_rounds X"
  by (rule ext) (simp add: md5_rounds2_def rfc_rounds_split loop16_rfc round_F)

text \<open>Four unrolled operations are four turns.\<close>

lemma quad_turns:
  "md5_quad f (x1, s1, T1) (x2, s2, T2) (x3, s3, T3) (x4, s4, T4) r =
   md5_turn f x4 T4 s4 (md5_turn f x3 T3 s3 (md5_turn f x2 T2 s2 (md5_turn f x1 T1 s1 r)))"
  by (cases r) (simp add: Let_def md5_OP_def add.assoc)

lemma loop4_turns:
  "md5_loop4 x f pc s1 s2 s3 s4 = fold (\<lambda>i. md5_turn f (x i) (C_array ! (pc + i)) ([s1, s2, s3, s4] ! (i mod 4))) [0..<16]"
proof -
  have "[0..<4] = [0, 1, 2, 3 :: nat]" "[0..<16] = [0, 1, 2, 3, 4, 5, 6, 7, 8, 9, 10, 11, 12, 13, 14, 15 :: nat]"
    by code_simp+
  then show ?thesis by (intro ext) (simp add: md5_loop4_def quad_turns add.commute del: md5_turn.simps add_2_eq_Suc add_2_eq_Suc')
qed

lemma tables1:
  "\<forall>i\<in>set [0..<16]. rfc_k i = i \<and> P_array 1 ! i = rfc_k (16 + i) \<and> P_array 1 ! (16 + i) = rfc_k (32 + i) \<and>
     P_array 1 ! (32 + i) = rfc_k (48 + i) \<and> [7, 12, 17, 22] ! (i mod 4) = rfc_s i \<and> [5, 9, 14, 20] ! (i mod 4) = rfc_s (16 + i) \<and>
     [4, 11, 16, 23] ! (i mod 4) = rfc_s (32 + i) \<and> [6, 10, 15, 21] ! (i mod 4) = rfc_s (48 + i)"
  by code_simp

lemma loop4_rfc:
  assumes "n \<le> 48" "\<And>i. i < 16 \<Longrightarrow> f = rfc_F (n + i) \<and> x i = X ! rfc_k (n + i) \<and> [s1, s2, s3, s4] ! (i mod 4) = rfc_s (n + i)"
  shows "md5_loop4 x f n s1 s2 s3 s4 r = fold (\<lambda>i. rfc_step X (n + i)) [0..<16] r"
  unfolding loop4_turns
  by (intro fold_cong ext refl) (use assms in \<open>auto intro!: turn_rfc\<close>)

lemma md5_rounds1_rfc: "md5_rounds1 X r = rfc_rounds X r"
proof -
  have "md5_loop4 (\<lambda>i. X ! i) FF 0 7 12 17 22 = fold (\<lambda>i. rfc_step X (0 + i)) [0..<16]"
    "md5_loop4 (\<lambda>i. X ! (P_array 1 ! i)) FG 16 5 9 14 20 = fold (\<lambda>i. rfc_step X (16 + i)) [0..<16]"
    "md5_loop4 (\<lambda>i. X ! (P_array 1 ! (16 + i))) FH 32 4 11 16 23 = fold (\<lambda>i. rfc_step X (32 + i)) [0..<16]"
    "md5_loop4 (\<lambda>i. X ! (P_array 1 ! (32 + i))) FI 48 6 10 15 21 = fold (\<lambda>i. rfc_step X (48 + i)) [0..<16]"
    by (rule ext, rule loop4_rfc; use tables1 in \<open>auto simp: round_F\<close>)+
  then show ?thesis unfolding md5_rounds1_def Let_def rfc_rounds_split by simp
qed

lemma md5_ops_turns:
  "4 dvd length ops \<Longrightarrow> md5_ops X f ops r = fold (\<lambda>(k, s, T). md5_turn f (X ! k) T s) ops r"
proof (induction X f ops r rule: md5_ops.induct)
  case (1 cwp f k1 o1 k2 o2 k3 o3 k4 o4 ops r)
  then have "4 dvd length ops" using dvd_add_triv_right_iff [of 4 "length ops"] by (simp add: numeral_eq_Suc)
  with 1 show ?case by (cases o1; cases o2; cases o3; cases o4) (simp add: quad_turns)
qed (auto simp del: md5_turn.simps dest!: dvd_imp_le)

lemma ops_tables:
  "md5_ops1 = map (\<lambda>i. (rfc_k i, rfc_s i, C_array ! i)) [0..<16] \<and>
   md5_ops2 = map (\<lambda>i. (rfc_k (16 + i), rfc_s (16 + i), C_array ! (16 + i))) [0..<16] \<and>
   md5_ops3 = map (\<lambda>i. (rfc_k (32 + i), rfc_s (32 + i), C_array ! (32 + i))) [0..<16] \<and>
   md5_ops4 = map (\<lambda>i. (rfc_k (48 + i), rfc_s (48 + i), C_array ! (48 + i))) [0..<16]"
  by code_simp

lemma md5_ops_rfc:
  assumes "ops = map (\<lambda>i. (rfc_k (n + i), rfc_s (n + i), C_array ! (n + i))) [0..<16]" "n \<le> 48" "\<And>i. i < 16 \<Longrightarrow> f = rfc_F (n + i)"
  shows "md5_ops X f ops r = fold (\<lambda>i. rfc_step X (n + i)) [0..<16] r"
proof -
  have "md5_ops X f ops r = fold (\<lambda>i. md5_turn f (X ! rfc_k (n + i)) (C_array ! (n + i)) (rfc_s (n + i))) [0..<16] r"
    by (simp add: md5_ops_turns assms(1) fold_map comp_def)
  also have "\<dots> = fold (\<lambda>i. rfc_step X (n + i)) [0..<16] r"
    by (intro fold_cong ext refl turn_rfc) (use assms in auto)
  finally show ?thesis .
qed

lemma md5_rounds0_rfc: "md5_rounds0 X r = rfc_rounds X r"
proof -
  have "md5_ops X FF md5_ops1 = fold (\<lambda>i. rfc_step X (0 + i)) [0..<16]"
    "md5_ops X FG md5_ops2 = fold (\<lambda>i. rfc_step X (16 + i)) [0..<16]"
    "md5_ops X FH md5_ops3 = fold (\<lambda>i. rfc_step X (32 + i)) [0..<16]"
    "md5_ops X FI md5_ops4 = fold (\<lambda>i. rfc_step X (48 + i)) [0..<16]"
    by (rule ext, rule md5_ops_rfc; simp add: ops_tables round_F)+
  then show ?thesis unfolding md5_rounds0_def rfc_rounds_split by simp
qed

lemma md5_rounds_rfc: "md5_rounds speed X = rfc_rounds X"
  by (rule ext) (simp add: md5_rounds_def md5_rounds0_rfc md5_rounds1_rfc md5_rounds2_rfc md5_rounds3_rfc)

subsection \<open>Digests\<close>

definition rfc_block :: "md5_regs \<Rightarrow> byte list \<Rightarrow> md5_regs" where
  "rfc_block h blk = (case (h, rfc_rounds (map (\<lambda>i. le_word (bslice (4 * i) 4 blk)) [0..<16]) h) of
     ((a0, b0, c0, d0), (a, b, c, d)) \<Rightarrow> (a0 + a, b0 + b, c0 + c, d0 + d))"

definition rfc_init :: md5_regs where
  "rfc_init = (0x67452301, 0xefcdab89, 0x98badcfe, 0x10325476)"

definition rfc_digest :: "byte list \<Rightarrow> byte list" where
  "rfc_digest m = (case fst (absorb 64 rfc_block rfc_init (m @ md_pad 64 (le_bytes 8 (of_nat (8 * length m) :: u64)) m)) of
     (a, b, c, d) \<Rightarrow> concat (map (le_bytes 4) [a, b, c, d]))"

definition md5_regs :: "md5_ctx_t \<Rightarrow> md5_regs" where
  "md5_regs ctx = (md5_A ctx, md5_B ctx, md5_C ctx, md5_D ctx)"

lemma md5_block_simps:
  "md5_regs (md5_hash_block speed blk ctx) = rfc_block (md5_regs ctx) blk"
  "md5_total (md5_hash_block speed blk ctx) = md5_total ctx" "buflen (md5_hash_block speed blk ctx) = buflen ctx"
  "md5_buffer (md5_hash_block speed blk ctx) = md5_buffer ctx"
  by (simp_all add: md5_hash_block_def md5_rounds_rfc rfc_block_def md5_regs_def correct_words_def add.commute split: prod.split)

lemma md5_regs_update [simp]:
  "md5_regs (ctx\<lparr>buflen := x\<rparr>) = md5_regs ctx" "md5_regs (ctx\<lparr>md5_buffer := y\<rparr>) = md5_regs ctx" "md5_regs (ctx\<lparr>md5_total := z\<rparr>) = md5_regs ctx"
  by (simp_all add: md5_regs_def)

text \<open>The context holds the registers \<open>h\<close> and the incomplete block \<open>r\<close>.\<close>

definition md5_holds :: "md5_ctx_t \<Rightarrow> md5_regs \<Rightarrow> byte list \<Rightarrow> bool" where
  "md5_holds ctx h r \<longleftrightarrow> length (md5_buffer ctx) = 128 \<and> length r < 64 \<and> buflen ctx = of_nat (length r) \<and>
     take (length r) (md5_buffer ctx) = r \<and> md5_regs ctx = h"

lemma unat_buflen: "n \<le> 64 \<Longrightarrow> unat (of_nat n :: u32) = n" "n \<le> 64 \<Longrightarrow> unat (64 - of_nat n :: u32) = 64 - n"
  by (simp_all add: unat_sub word_le_nat_alt unsigned_of_nat take_bit_eq_mod)

lemma md5_loop_step:
  assumes "md5_holds ctx h r" "p \<noteq> []"
  obtains "length r + length p < 64" "md5_holds (md5_loop speed p ctx) h (r @ p)" "md5_total (md5_loop speed p ctx) = md5_total ctx"
  | q ctx' where "64 - length r \<le> length p" "q = drop (64 - length r) p" "md5_loop speed p ctx = md5_loop speed q ctx'"
      "md5_holds ctx' (rfc_block h (r @ take (64 - length r) p)) []" "md5_total ctx' = md5_total ctx"
proof -
  have ctx: "length (md5_buffer ctx) = 128" "length r < 64" "buflen ctx = of_nat (length r)" "take (length r) (md5_buffer ctx) = r"
      "md5_regs ctx = h"
    using assms(1) by (simp_all add: md5_holds_def)
  let ?b = "\<lambda>i. blit (length r) (take i p) (md5_buffer ctx)"
  have b: "i \<le> length p \<Longrightarrow> length r + i \<le> 64 \<Longrightarrow> length (?b i) = 128 \<and> take (length r + i) (?b i) = r @ take i p" for i
    using ctx by (simp add: blit_def)
  show thesis
  proof (cases "64 - length r \<le> length p")
    case True
    let ?c = "ctx\<lparr>md5_buffer := ?b (64 - length r), buflen := 64\<rparr>"
    let ?d = "(md5_hash_block speed (take 64 (md5_buffer ?c)) ?c)\<lparr>buflen := 0\<rparr>"
    have "of_nat (length r) + of_nat (64 - length r) = (64 :: u32)" using ctx(2) by (simp flip: of_nat_add)
    then have "md5_loop speed p ctx = md5_loop speed (drop (64 - length r) p) ?d"
      using True assms(2) ctx(2,3) by (subst md5_loop.simps) (simp add: unat_buflen Let_def)
    moreover have "md5_holds ?d (rfc_block h (r @ take (64 - length r) p)) []"
      using b [of "64 - length r"] True ctx by (simp add: md5_holds_def md5_block_simps)
    ultimately show thesis by (intro that(2) [OF True refl, of ?d]) (simp_all add: md5_block_simps)
  next
    case False
    have small: "of_nat (length r) + of_nat (length p) \<noteq> (64 :: u32)"
    proof -
      have "length r + length p < 64" using False by simp
      then show ?thesis using unat_buflen(1) [of "length r + length p"] by (auto simp flip: of_nat_add)
    qed
    have "md5_loop speed p ctx = ctx\<lparr>md5_buffer := ?b (length p), buflen := of_nat (length r + length p)\<rparr>"
      using False assms(2) ctx(2,3) small
      by (subst md5_loop.simps) (simp add: unat_buflen Let_def md5_loop.simps [of _ "[]"])
    then show thesis using False b [of "length p"] ctx by (intro that(1)) (simp_all add: md5_holds_def)
  qed
qed

lemma md5_loop_absorb:
  assumes "md5_holds ctx h r" "absorb 64 rfc_block h (r @ p) = (h', r')"
  shows "md5_holds (md5_loop speed p ctx) h' r' \<and> md5_total (md5_loop speed p ctx) = md5_total ctx"
  using assms
proof (induction "length p" arbitrary: p ctx h r rule: less_induct)
  case less
  show ?case
  proof (cases "p = []")
    case True
    then show ?thesis using less.prems by (simp add: md5_loop.simps [of _ "[]"] absorb_short md5_holds_def)
  next
    case False
    with less.prems(1) show ?thesis
    proof (cases rule: md5_loop_step [of ctx h r p speed])
      case 1
      then show ?thesis using less.prems(2) by (simp add: absorb_short)
    next
      case (2 q ctx')
      have r: "length r < 64" using less.prems(1) by (simp add: md5_holds_def)
      have "absorb 64 rfc_block h ((r @ take (64 - length r) p) @ q) = absorb 64 rfc_block (rfc_block h (r @ take (64 - length r) p)) q"
        using 2(1) r by (intro absorb_block) auto
      then have "absorb 64 rfc_block (rfc_block h (r @ take (64 - length r) p)) ([] @ q) = (h', r')"
        using less.prems(2) 2(2) by simp
      moreover have "length q < length p" using 2(1,2) r False by simp
      ultimately show ?thesis using less.hyps [of q ctx'] 2(3-5) by simp
    qed
  qed
qed

definition md5_wf :: "md5_ctx_t \<Rightarrow> bool" where
  "md5_wf ctx \<longleftrightarrow> length (md5_buffer ctx) = 128"

definition md5_fed :: "byte list \<Rightarrow> md5_ctx_t \<Rightarrow> bool" where
  "md5_fed m ctx \<longleftrightarrow> md5_total ctx = of_nat (length m) \<and> (case absorb 64 rfc_block rfc_init m of (h, r) \<Rightarrow> md5_holds ctx h r)"

lemma md5_begin_fed: "md5_wf ctx \<Longrightarrow> md5_fed [] (md5_begin ctx)"
  by (simp add: md5_fed_def md5_wf_def md5_begin_def absorb_short md5_holds_def md5_regs_def rfc_init_def)

lemma md5_hash_fed:
  assumes "md5_fed m ctx"
  shows "md5_fed (m @ p) (md5_hash speed p ctx)"
proof -
  obtain h r where hr: "absorb 64 rfc_block rfc_init m = (h, r)" by fastforce
  obtain h' r' where hr': "absorb 64 rfc_block h (r @ p) = (h', r')" by fastforce
  let ?c = "ctx\<lparr>md5_total := md5_total ctx + of_nat (length p)\<rparr>"
  have "md5_holds ?c h r" using assms hr by (simp add: md5_fed_def md5_holds_def)
  from md5_loop_absorb [OF this hr', of speed] show ?thesis
    using assms hr hr' by (simp add: md5_fed_def md5_hash_def absorb_append [of _ _ _ m])
qed

lemma md5_end_blocks:
  assumes "md5_holds ctx h r" "len = le_bytes 8 (push_bit 3 (md5_total ctx))"
  shows "md5_end speed ctx = (case
      (if length r + 1 + 8 \<le> 64
       then rfc_block h (r @ 0x80 # replicate (64 - 8 - 1 - length r) 0 @ len)
       else rfc_block (rfc_block h (r @ 0x80 # replicate (64 - 1 - length r) 0)) (replicate (64 - 8) 0 @ len))
     of (a, b, c, d) \<Rightarrow> concat (map (le_bytes 4) [a, b, c, d]))"
proof -
  let ?n = "length r"
  let ?p = "r @ 0x80 # replicate (127 - ?n) 0 :: byte list"
  have ctx: "length (md5_buffer ctx) = 128" "?n < 64" "buflen ctx = of_nat ?n" "take ?n (md5_buffer ctx) = r" "md5_regs ctx = h"
    using assms(1) by (simp_all add: md5_holds_def)
  have len: "length len = 8" by (simp add: assms(2))
  have "take (Suc ?n) ((md5_buffer ctx)[?n := 0x80]) = r @ [0x80]"
    using ctx by (simp add: take_Suc_conv_app_nth)
  then have pad: "blit (?n + 1) (replicate (128 - (?n + 1)) 0) ((md5_buffer ctx)[?n := 0x80]) = ?p"
    using ctx by (simp add: blit_def)
  have regs: "concat (map (le_bytes 4) [md5_A c, md5_B c, md5_C c, md5_D c]) =
      (case md5_regs c of (a, b, c, d) \<Rightarrow> concat (map (le_bytes 4) [a, b, c, d]))" for c
    by (simp add: md5_regs_def)
  note end_def = md5_end_def [of speed ctx, unfolded ctx(3) unat_buflen(1) [OF less_imp_le [OF ctx(2)]] Let_def add_diff_cancel_right' pad regs]
  show ?thesis
  proof (cases "?n + 1 + 8 \<le> 64")
    case True
    have "bslice 0 64 (blit 56 len ?p) = r @ 0x80 # replicate (64 - 8 - 1 - ?n) 0 @ len"
    proof -
      have "replicate (127 - ?n) (0 :: byte) = replicate (55 - ?n) 0 @ replicate 72 0" using True by (simp flip: replicate_add)
      then show ?thesis using True len by (simp add: blit_def bslice_def take_Cons')
    qed
    with True show ?thesis unfolding end_def by (simp add: md5_block_simps ctx(5) assms(2))
  next
    case False
    have zeros: "replicate (127 - ?n) (0 :: byte) = replicate (63 - ?n) 0 @ replicate 64 0" using ctx(2) by (simp flip: replicate_add)
    have "take 64 (blit 120 len ?p) = r @ 0x80 # replicate (64 - 1 - ?n) 0"
      using False ctx(2) len by (simp add: zeros blit_def take_Cons')
    moreover have "bslice 64 64 (blit 120 len ?p) = replicate (64 - 8) 0 @ len"
      using False ctx(2) len by (simp add: zeros blit_def bslice_def take_Cons' drop_Cons')
    ultimately show ?thesis using False unfolding end_def by (simp add: md5_block_simps ctx(5) assms(2))
  qed
qed

lemma md5_end_fed:
  assumes "md5_fed m ctx"
  shows "md5_end speed ctx = rfc_digest m"
proof -
  obtain h r where hr: "absorb 64 rfc_block rfc_init m = (h, r)" by fastforce
  have ctx: "md5_holds ctx h r" "md5_total ctx = of_nat (length m)" using assms hr by (simp_all add: md5_fed_def)
  have "push_bit 3 (md5_total ctx) = of_nat (8 * length m)" by (simp add: ctx push_bit_eq_mult)
  with md5_end_blocks [OF ctx(1) refl, of speed] absorb_pad [OF hr, of 8 "le_bytes 8 (push_bit 3 (md5_total ctx))"]
  show ?thesis by (simp add: rfc_digest_def del: of_nat_mult)
qed

interpretation md5_stream: digest_stream md5_begin "md5_hash speed" "md5_end speed" md5_wf md5_fed rfc_digest "\<lambda>p. True" for speed
  by unfold_locales (simp_all add: md5_begin_fed md5_hash_fed md5_end_fed)

subsection \<open>Properties\<close>

definition fresh_md5 :: md5_ctx_t where
  "fresh_md5 = \<lparr>md5_A = 1, md5_B = 2, md5_C = 3, md5_D = 4, md5_total = 5, buflen = 6, md5_buffer = replicate 128 255\<rparr>"

text \<open>
  C32: every variant of the block function, from the unrolled one to the single loop, computes the compression function of
  RFC 1321, so the choice between size and speed does not change a digest.
\<close>

theorem md5_variants:
  "md5_regs (md5_hash_block speed blk ctx) = rfc_block (md5_regs ctx) blk \<and> md5_hash_block speed blk ctx = md5_hash_block 0 blk ctx"
  by (intro conjI md5_block_simps(1)) (simp add: md5_hash_block_def md5_rounds_rfc)

text \<open>
  C33: a text fed to \<open>md5_hash\<close> in pieces of any lengths has the MD5 digest of RFC 1321, whatever the context held before.
\<close>

theorem md5_stream_digest:
  "md5_wf ctx \<Longrightarrow> md5_end speed (fold (md5_hash speed) ps (md5_begin ctx)) = rfc_digest (concat ps)"
  by (simp add: md5_stream.stream_digest)

theorem md5_stream_digest_witness:
  "md5_wf fresh_md5 \<and> md5_end 3 (md5_hash 3 [98, 99] (md5_hash 3 [97] (md5_begin fresh_md5))) = rfc_digest [97, 98, 99]"
proof -
  have "md5_wf fresh_md5" by (simp add: md5_wf_def fresh_md5_def)
  with md5_stream_digest [OF this, of 3 "[[97], [98, 99]]"] show ?thesis by simp
qed

end
