(* ===== verification/Stream_IO.thy ===== *)
theory Stream_IO
  imports CString
begin

text \<open>
  What the applets of busybox that read streams share: files by name, standard input and standard output, the read loop and the line reader
  of \<^verbatim>\<open>libbb/get_line_from_file.c\<close>. The environment decides how many bytes each read returns and whether it fails.
\<close>

subsection \<open>Files, standard input and output\<close>

record sum_world =
  files :: "string \<Rightarrow> byte list option"
  stdin :: "byte list"
  read_env :: "nat \<Rightarrow> nat option"
  nreads :: nat
  stdout :: string

definition text_of :: "byte list \<Rightarrow> string" where
  "text_of bs = map (\<lambda>b. char_of (unat b)) bs"

definition bytes_of :: "string \<Rightarrow> byte list" where
  "bytes_of s = map of_char s"

definition print :: "string \<Rightarrow> sum_world \<Rightarrow> sum_world" where
  "print s w = w\<lparr>stdout := stdout w @ s\<rparr>"

text \<open>The bytes that can be read from a name; a lone dash is standard input.\<close>

definition open_or_warn_stdin :: "string \<Rightarrow> sum_world \<Rightarrow> byte list option" where
  "open_or_warn_stdin name w = (if name \<noteq> ''-'' then files w name else Some (stdin w))"

definition consume :: "string \<Rightarrow> byte list \<Rightarrow> sum_world \<Rightarrow> sum_world" where
  "consume name rest w = (if name \<noteq> ''-'' then w else w\<lparr>stdin := rest\<rparr>)"

text \<open>A read of at most \<open>bufsz\<close> bytes, after the restarts of \<open>safe_read\<close>; \<open>None\<close>: it failed.\<close>

definition safe_read :: "nat \<Rightarrow> byte list \<Rightarrow> sum_world \<Rightarrow> byte list option \<times> sum_world" where
  "safe_read bufsz rest w = (map_option (\<lambda>k. take (min bufsz (max 1 k)) rest) (read_env w (nreads w)), w\<lparr>nreads := nreads w + 1\<rparr>)"

text \<open>The loop over the file: whether it reached the end, the bytes not read, the world and the context.\<close>

function read_loop :: "nat \<Rightarrow> (byte list \<Rightarrow> 'c \<Rightarrow> 'c) \<Rightarrow> byte list \<Rightarrow> sum_world \<Rightarrow> 'c \<Rightarrow> bool \<times> byte list \<times> sum_world \<times> 'c" where
  "read_loop bufsz update rest w ctx =
     (case safe_read bufsz rest w of
        (None, w') \<Rightarrow> (False, rest, w', ctx)
      | (Some in_buf, w') \<Rightarrow>
          if in_buf = [] then (True, rest, w', ctx)
          else read_loop bufsz update (drop (length in_buf) rest) w' (update in_buf ctx))"
  by pat_completeness auto
termination
  by (relation "measure (\<lambda>(bufsz, u, rest, w, c). length rest)") (auto simp: safe_read_def map_option_case split: option.splits)

declare read_loop.simps [simp del]

subsection \<open>Reading lines\<close>

fun bb_get_chunk :: "string \<Rightarrow> string \<times> string" where
  "bb_get_chunk [] = ([], [])"
| "bb_get_chunk (c # s) =
     (if c = CHR 0x00 \<or> c = CHR 0x0A then ([c], s) else case bb_get_chunk s of (line, rest) \<Rightarrow> (c # line, rest))"

definition xmalloc_fgetline :: "string \<Rightarrow> (string \<times> string) option" where
  "xmalloc_fgetline s =
     (if s = [] then None
      else case bb_get_chunk s of (line, rest) \<Rightarrow>
        Some (takeWhile (\<lambda>c. c \<noteq> CHR 0x00) (if last line = CHR 0x0A then butlast line else line), rest))"

lemma bb_get_chunk_rest: "s \<noteq> [] \<Longrightarrow> length (snd (bb_get_chunk s)) < length s"
proof (induction s)
  case (Cons c s)
  then show ?case by (cases "s = []") (auto split: prod.split)
qed simp

subsection \<open>Reads that succeed\<close>

definition reads_ok :: "sum_world \<Rightarrow> bool" where
  "reads_ok w \<longleftrightarrow> (\<forall>t. read_env w t \<noteq> None)"

lemma reads_ok_update [simp]:
  "reads_ok (w\<lparr>nreads := n\<rparr>) = reads_ok w" "reads_ok (print s w) = reads_ok w" "reads_ok (w\<lparr>files := fs\<rparr>) = reads_ok w"
  by (simp_all add: reads_ok_def print_def)

lemma print_simps [simp]:
  "files (print s w) = files w" "stdout (print s w) = stdout w @ s"
  by (simp_all add: print_def)

text \<open>A property of the bytes read so far and the context that every piece keeps holds at the end of the file, however the reads cut it.\<close>

lemma read_loop_keeps:
  assumes "0 < bufsz" "\<And>m p c. I m c \<Longrightarrow> length p \<le> bufsz \<Longrightarrow> I (m @ p) (update p c)" "I m c" "reads_ok w"
  shows "\<exists>n c'. read_loop bufsz update rest w c = (True, [], w\<lparr>nreads := n\<rparr>, c') \<and> I (m @ rest) c'"
  using assms(3,4)
proof (induction "length rest" arbitrary: rest w c m rule: less_induct)
  case less
  obtain k where k: "read_env w (nreads w) = Some k" using less.prems(2) by (auto simp: reads_ok_def)
  define p where "p = take (min bufsz (max 1 k)) rest"
  let ?w = "w\<lparr>nreads := nreads w + 1\<rparr>"
  have read: "safe_read bufsz rest w = (Some p, ?w)" by (simp add: safe_read_def k p_def)
  show ?case
  proof (cases "rest = []")
    case True
    then show ?thesis using less.prems(1) read
      by (intro exI [of _ "nreads w + 1"] exI [of _ c]) (simp add: read_loop.simps p_def)
  next
    case False
    then have p: "p \<noteq> []" "length p \<le> bufsz" using assms(1) by (auto simp: p_def)
    have "rest = p @ drop (length p) rest" unfolding p_def by (metis append_eq_conv_conj append_take_drop_id)
    note p = p this
    have "I (m @ p) (update p c)" using less.prems(1) p(2) by (rule assms(2))
    moreover have "length (drop (length p) rest) < length rest" using p False by simp
    moreover have "reads_ok ?w" using less.prems(2) by simp
    ultimately obtain n c' where "read_loop bufsz update (drop (length p) rest) ?w (update p c) = (True, [], ?w\<lparr>nreads := n\<rparr>, c')"
        "I ((m @ p) @ drop (length p) rest) c'"
      using less.hyps [of "drop (length p) rest" "m @ p" "update p c" ?w] by blast
    then show ?thesis using read p by (intro exI [of _ n] exI [of _ c']) (simp add: read_loop.simps [of bufsz update rest])
  qed
qed

text \<open>A sum that is computed piece by piece: what it is after a text, and how a further piece changes it.\<close>

locale stream_sum =
  fixes update :: "byte list \<Rightarrow> 'c \<Rightarrow> 'c" and start :: 'c and sum_of :: "byte list \<Rightarrow> 'c"
  assumes sum_of_Nil: "sum_of [] = start" and sum_of_append: "sum_of (m @ p) = update p (sum_of m)"
begin

lemma read_loop_sum:
  assumes "reads_ok w" "0 < bufsz"
  shows "\<exists>n. read_loop bufsz update bs w start = (True, [], w\<lparr>nreads := n\<rparr>, sum_of bs)"
  using read_loop_keeps [of bufsz "\<lambda>m c. c = sum_of m" update "[]" start w bs] assms by (auto simp: sum_of_Nil sum_of_append)

end

subsection \<open>Lines\<close>

definition plain :: "string \<Rightarrow> bool" where
  "plain s \<longleftrightarrow> CHR 0x00 \<notin> set s \<and> CHR 0x0A \<notin> set s"

definition unlines :: "string list \<Rightarrow> string" where
  "unlines ls = concat (map (\<lambda>l. l @ [CHR 0x0A]) ls)"

lemma bb_get_chunk_line: "plain l \<Longrightarrow> bb_get_chunk (l @ CHR 0x0A # rest) = (l @ [CHR 0x0A], rest)"
  by (induction l) (auto simp: plain_def)

lemma fgetline_line: "plain l \<Longrightarrow> xmalloc_fgetline (l @ CHR 0x0A # rest) = Some (l, rest)"
  by (auto simp: xmalloc_fgetline_def bb_get_chunk_line plain_def takeWhile_eq_all_conv)

lemma unat_of_char: "unat (of_char c :: byte) = of_char c"
  by (subst of_nat_of_char [symmetric]) (simp add: unsigned_of_nat take_bit_eq_mod)

lemma text_bytes [simp]: "text_of (bytes_of s) = s"
  by (induction s) (simp_all add: text_of_def bytes_of_def unat_of_char)

end
