(* ===== verification/Hash_Sum.thy ===== *)
theory Hash_Sum
  imports Sha_Digest Md5_Digest Stream_IO
begin

text \<open>
  \<^verbatim>\<open>busybox/coreutils/md5_sha1_sum.c\<close>: the applets md5sum, sha1sum, sha256sum and sha512sum, with \<open>bin2hex\<close>. A list of sums that comes from standard input is read before its first line is
  handled. Messages on standard error are not part of the state.
\<close>

subsection \<open>The sum of a file\<close>

datatype hash_algo_t = HASH_MD5 | HASH_SHA1 | HASH_SHA256 | HASH_SHA512

definition hash_algo :: "char \<Rightarrow> hash_algo_t option" where
  "hash_algo c = (if c = CHR ''s'' then Some HASH_MD5 else if c = CHR ''1'' then Some HASH_SHA1
     else if c = CHR ''2'' then Some HASH_SHA256 else if c = CHR ''5'' then Some HASH_SHA512 else None)"

definition bb_hexdigits_upcase :: string where
  "bb_hexdigits_upcase = ''0123456789ABCDEF''"

definition hex_digit :: "byte \<Rightarrow> char" where
  "hex_digit d = char_of (unat (0x20 OR (of_char (bb_hexdigits_upcase ! unat d) :: byte)))"

definition bin2hex :: "byte list \<Rightarrow> string" where
  "bin2hex bs = concat (map (\<lambda>c. [hex_digit (drop_bit 4 c), hex_digit (c AND 0xf)]) bs)"

definition hash_bin_to_hex :: "byte list \<Rightarrow> nat \<Rightarrow> string" where
  "hash_bin_to_hex hash_value hash_length = bin2hex (take hash_length hash_value)"

definition hash_stream ::
  "'c \<Rightarrow> (byte list \<Rightarrow> 'c \<Rightarrow> 'c) \<Rightarrow> ('c \<Rightarrow> byte list) \<Rightarrow> nat \<Rightarrow> string \<Rightarrow> byte list \<Rightarrow> sum_world \<Rightarrow> string option \<times> sum_world" where
  "hash_stream ctx update final hash_len name bs w =
     (case read_loop 4096 update bs w ctx of (eof, rest, w', ctx') \<Rightarrow>
        (if eof then Some (hash_bin_to_hex (final ctx') hash_len) else None, consume name rest w'))"

text \<open>The memory of the context before the call, seen as each member of the union.\<close>

record context_union =
  as_md5 :: md5_ctx_t
  as_sha1 :: sha1_ctx_t
  as_sha512 :: sha512_ctx_t

text \<open>The fourth letter of the applet's name selects the algorithm; \<open>None\<close>: the applet dies.\<close>

definition hash_file :: "nat \<Rightarrow> string \<Rightarrow> context_union \<Rightarrow> string \<Rightarrow> sum_world \<Rightarrow> (string option \<times> sum_world) option" where
  "hash_file speed applet_name mem filename w =
     (case open_or_warn_stdin filename w of
        None \<Rightarrow> Some (None, w)
      | Some bs \<Rightarrow>
          (case hash_algo (applet_name ! 3) of
             Some HASH_MD5 \<Rightarrow> Some (hash_stream (md5_begin (as_md5 mem)) (md5_hash speed) (md5_end speed) 16 filename bs w)
           | Some HASH_SHA1 \<Rightarrow> Some (hash_stream (sha1_begin (as_sha1 mem)) sha1_hash sha1_end 20 filename bs w)
           | Some HASH_SHA256 \<Rightarrow> Some (hash_stream (sha256_begin (as_sha1 mem)) sha1_hash sha1_end 32 filename bs w)
           | Some HASH_SHA512 \<Rightarrow> Some (hash_stream (sha512_begin (as_sha512 mem)) sha512_hash sha512_end 64 filename bs w)
           | None \<Rightarrow> None))"

subsection \<open>Lines of a list\<close>

text \<open>The text before the first occurrence and the text from there.\<close>

fun strstr_at :: "string \<Rightarrow> string \<Rightarrow> (string \<times> string) option" where
  "strstr_at hay needle =
     (if is_prefix needle hay then Some ([], hay)
      else case hay of [] \<Rightarrow> None | c # cs \<Rightarrow> map_option (\<lambda>(a, b). (c # a, b)) (strstr_at cs needle))"

declare strstr_at.simps [simp del]

definition split_line :: "string \<Rightarrow> (string \<times> string) option" where
  "split_line line =
     (case (case strstr_at line ''  '' of None \<Rightarrow> strstr_at line '' *'' | r \<Rightarrow> r) of
        None \<Rightarrow> None | Some (hex, rest) \<Rightarrow> Some (hex, drop 2 rest))"

subsection \<open>The applet\<close>

definition FLAG_SILENT :: u32 where "FLAG_SILENT = 1"
definition FLAG_CHECK :: u32 where "FLAG_CHECK = 2"
definition FLAG_WARN :: u32 where "FLAG_WARN = 4"

definition flag :: "u32 \<Rightarrow> u32 \<Rightarrow> bool" where
  "flag flags f \<longleftrightarrow> flags AND f \<noteq> 0"

type_synonym hasher = "string \<Rightarrow> sum_world \<Rightarrow> (string option \<times> sum_world) option"

record check_state =
  count_total :: int
  count_failed :: int
  return_value :: int

definition check_failed :: "check_state \<Rightarrow> check_state" where
  "check_failed s = s\<lparr>count_failed := count_failed s + 1, return_value := 1\<rparr>"

definition check_line ::
  "hasher \<Rightarrow> u32 \<Rightarrow> string \<Rightarrow> check_state \<Rightarrow> sum_world \<Rightarrow> (check_state \<times> sum_world) option" where
  "check_line hash_of flags line s0 w =
     (let s = s0\<lparr>count_total := count_total s0 + 1\<rparr> in
      case split_line line of
        None \<Rightarrow> Some (check_failed s, w)
      | Some (hex, name) \<Rightarrow>
          (case hash_of name w of
             None \<Rightarrow> None
           | Some (hash_value, w') \<Rightarrow>
               if hash_value \<noteq> None \<and> strcmp (the hash_value) hex = 0
               then Some (s, if flag flags FLAG_SILENT then w' else print (name @ '': OK'' @ [CHR 0x0A]) w')
               else Some (check_failed s, if flag flags FLAG_SILENT then w' else print (name @ '': FAILED'' @ [CHR 0x0A]) w')))"

function check_loop ::
  "hasher \<Rightarrow> u32 \<Rightarrow> string \<Rightarrow> check_state \<Rightarrow> sum_world \<Rightarrow> (check_state \<times> sum_world) option" where
  "check_loop hash_of flags stream s w =
     (case xmalloc_fgetline stream of
        None \<Rightarrow> Some (s, w)
      | Some (line, rest) \<Rightarrow>
          (case check_line hash_of flags line s w of None \<Rightarrow> None | Some (s', w') \<Rightarrow> check_loop hash_of flags rest s' w'))"
  by pat_completeness auto
termination
  by (relation "measure (\<lambda>(h, f, stream, s, w). length stream)")
    (auto simp: xmalloc_fgetline_def bb_get_chunk_rest split: if_splits prod.splits dest: bb_get_chunk_rest)

declare check_loop.simps [simp del]

fun sum_loop :: "hasher \<Rightarrow> string list \<Rightarrow> int \<Rightarrow> sum_world \<Rightarrow> (int \<times> sum_world) option" where
  "sum_loop hash_of [] ret w = Some (ret, w)"
| "sum_loop hash_of (name # argv) ret w =
     (case hash_of name w of
        None \<Rightarrow> None
      | Some (None, w') \<Rightarrow> sum_loop hash_of argv 1 w'
      | Some (Some hash_value, w') \<Rightarrow> sum_loop hash_of argv ret (print (hash_value @ ''  '' @ name @ [CHR 0x0A]) w'))"

text \<open>
  The options have been read into \<open>flags\<close>, \<open>args\<close> are the other arguments. \<open>check_enabled\<close> is \<open>ENABLE_FEATURE_MD5_SHA1_SUM_CHECK\<close>.
  \<open>None\<close>: the applet dies with a message.
\<close>

definition md5_sha1_sum_main ::
  "bool \<Rightarrow> nat \<Rightarrow> string \<Rightarrow> context_union \<Rightarrow> u32 \<Rightarrow> string list \<Rightarrow> sum_world \<Rightarrow> (int \<times> sum_world) option" where
  "md5_sha1_sum_main check_enabled speed applet_name mem flags args w =
     (let argv = (if args = [] then [''-''] else args); hash = hash_file speed applet_name mem in
      if check_enabled \<and> \<not> flag flags FLAG_CHECK \<and> (flag flags FLAG_SILENT \<or> flag flags FLAG_WARN) then None
      else if check_enabled \<and> flag flags FLAG_CHECK
      then if tl argv \<noteq> [] then None
           else case open_or_warn_stdin (hd argv) w of
             None \<Rightarrow> None
           | Some bs \<Rightarrow>
               map_option (\<lambda>(s, w'). (return_value s, w'))
                 (check_loop hash flags (text_of bs) \<lparr>count_total = 0, count_failed = 0, return_value = 0\<rparr> (consume (hd argv) [] w))
      else sum_loop hash argv 0 w)"

end
