(* ===== verification/Hash_Sum_Props.thy ===== *)
theory Hash_Sum_Props
  imports Hash_Sum
begin

text \<open>
  What the checksum applets promise: the sum of a file is its digest however the file is read, checking a list succeeds exactly when every
  line names a file with that sum, and the output of the applet passes the check.
\<close>

subsection \<open>The sum of a file is its digest\<close>

definition digest_of :: "hash_algo_t \<Rightarrow> byte list \<Rightarrow> byte list" where
  "digest_of a = (case a of HASH_MD5 \<Rightarrow> rfc_digest | HASH_SHA1 \<Rightarrow> fips_digest Sha1_block
     | HASH_SHA256 \<Rightarrow> fips_digest Sha256_block | HASH_SHA512 \<Rightarrow> fips_digest512)"

definition mem_wf :: "context_union \<Rightarrow> bool" where
  "mem_wf mem \<longleftrightarrow> md5_wf (as_md5 mem) \<and> ctx_wf (as_sha1 mem) \<and> ctx512_wf (as_sha512 mem)"

context digest_stream
begin

lemma hash_loop_fed:
  assumes "\<And>p. length p \<le> 4096 \<Longrightarrow> piece p" "fed m c" "reads_ok w"
  shows "\<exists>n c'. read_loop 4096 update rest w c = (True, [], w\<lparr>nreads := n\<rparr>, c') \<and> fed (m @ rest) c'"
  using assms fed_update by (intro read_loop_keeps) auto

lemma hash_stream_digest:
  assumes "\<And>p. length p \<le> 4096 \<Longrightarrow> piece p" "usable c" "reads_ok w" "name \<noteq> ''-''" "length (digest bs) = len"
  shows "\<exists>n. hash_stream (start c) update finish len name bs w = (Some (bin2hex (digest bs)), w\<lparr>nreads := n\<rparr>)"
proof -
  obtain n c' where "read_loop 4096 update bs w (start c) = (True, [], w\<lparr>nreads := n\<rparr>, c')" "fed ([] @ bs) c'"
    using hash_loop_fed [OF assms(1) fed_start [OF assms(2)] assms(3)] by blast
  then show ?thesis
    using assms(4,5) by (intro exI [of _ n]) (simp add: hash_stream_def hash_bin_to_hex_def fed_finish consume_def)
qed

end

lemma absorb_keeps: "P h \<Longrightarrow> (\<And>h b. P (f h b)) \<Longrightarrow> P (fst (absorb B f h s))"
proof (induction B f h s rule: absorb.induct)
  case (1 B f h s)
  then show ?case by (subst absorb.simps) simp
qed

lemma length_digests [simp]:
  "length (rfc_digest m) = 16" "length (fips_digest Sha1_block m) = 20" "length (fips_digest Sha256_block m) = 32"
  "length (fips_digest512 m) = 64"
proof -
  show "length (rfc_digest m) = 16" by (simp add: rfc_digest_def split: prod.split)
  have "length (fst (absorb 64 (fips_block k) (fips_init k) s)) = hash_words k" for k s
    by (rule absorb_keeps [where P = "\<lambda>h. length h = hash_words k"]) (simp_all add: fips_init_def hash_words_def split: process.split)
  then show "length (fips_digest Sha1_block m) = 20" "length (fips_digest Sha256_block m) = 32"
    by (simp_all add: fips_digest_def length_concat_const [where n = 4] hash_words_def)
  have "length (fst (absorb 128 fips_sha512 fips_init512 s)) = 8" for s
    by (rule absorb_keeps [where P = "\<lambda>h. length h = 8"]) (simp_all add: fips_init512_def)
  then show "length (fips_digest512 m) = 64" by (simp add: fips_digest512_def length_concat_const [where n = 8])
qed

lemma hash_file_digest:
  assumes "mem_wf mem" "hash_algo (applet ! 3) = Some a" "reads_ok w" "name \<noteq> ''-''"
  shows "\<exists>n. hash_file speed applet mem name w =
    Some (map_option (\<lambda>bs. bin2hex (digest_of a bs)) (files w name), w\<lparr>nreads := n\<rparr>)"
proof (cases "files w name")
  case None
  then show ?thesis using assms(4) by (intro exI [of _ "nreads w"]) (simp add: hash_file_def open_or_warn_stdin_def)
next
  case (Some bs)
  have mem: "md5_wf (as_md5 mem)" "ctx_wf (as_sha1 mem)" "ctx512_wf (as_sha512 mem)" using assms(1) by (simp_all add: mem_wf_def)
  note streams = md5_stream.hash_stream_digest [OF _ mem(1) assms(3,4), of bs 16]
    sha1_stream.hash_stream_digest [OF _ mem(2) assms(3,4), of bs 20] sha256_stream.hash_stream_digest [OF _ mem(2) assms(3,4), of bs 32]
    sha512_stream.hash_stream_digest [OF _ mem(3) assms(3,4), of bs 64]
  show ?thesis using Some assms(2,4) streams
    by (cases a) (simp_all add: hash_file_def open_or_warn_stdin_def digest_of_def)
qed

subsection \<open>Lines\<close>

lemma strstr_at_Some: "strstr_at h n = Some (a, b) \<Longrightarrow> h = a @ b \<and> is_prefix n b"
proof (induction h arbitrary: a b)
  case Nil
  then show ?case by (cases n) (simp_all add: strstr_at.simps)
next
  case (Cons c h)
  show ?case
  proof (cases "is_prefix n (c # h)")
    case True
    with Cons.prems show ?thesis by (simp add: strstr_at.simps [of "c # h"])
  next
    case False
    with Cons.prems obtain a' where "strstr_at h n = Some (a', b)" "a = c # a'" by (auto simp: strstr_at.simps [of "c # h"])
    with Cons.IH show ?thesis by simp
  qed
qed

lemma strstr_at_None: "strstr_at h n = None \<longleftrightarrow> \<not> strstr h n"
proof (induction h)
  case Nil
  then show ?case by (cases n) (simp_all add: strstr_at.simps)
next
  case (Cons c h)
  then show ?case by (simp add: strstr_at.simps [of "c # h"])
qed

lemma strstr_at_first: "x \<notin> set a \<Longrightarrow> strstr_at (a @ x # n @ b) (x # n) = Some (a, x # n @ b)"
proof (induction a)
  case Nil
  have "is_prefix (x # n) (x # n @ b)" by (subst is_prefix_iff) auto
  then show ?case by (simp add: strstr_at.simps)
next
  case (Cons c a)
  then show ?case by (simp add: strstr_at.simps [of "c # _"])
qed

lemma hex_digit_graphic: "\<forall>d\<in>set (map word_of_nat [0..<16]). hex_digit d \<noteq> CHR 0x20 \<and> hex_digit d \<noteq> CHR 0x00 \<and> hex_digit d \<noteq> CHR 0x0A"
  by code_simp

lemma nibble: "drop_bit 4 (c :: byte) \<in> set (map word_of_nat [0..<16])" "(c :: byte) AND 0xf \<in> set (map word_of_nat [0..<16])"
proof -
  have *: "d < 16 \<Longrightarrow> d \<in> set (map word_of_nat [0..<16])" for d :: byte
    by (auto simp: image_iff word_less_nat_alt intro!: bexI [of _ "unat d"])
  show "drop_bit 4 c \<in> set (map word_of_nat [0..<16])"
    using unsigned_less [of c, where 'a = nat]
    by (intro *) (simp only: word_less_nat_alt unsigned_drop_bit_eq, simp add: drop_bit_eq_div unsigned_take_bit_eq take_bit_eq_mod less_mult_imp_div_less)
  have "c AND 15 \<le> 15" by (rule word_and_le1)
  then show "c AND 0xf \<in> set (map word_of_nat [0..<16])" by (intro *) (auto simp: word_le_nat_alt word_less_nat_alt)
qed

lemma bin2hex_graphic: "CHR 0x20 \<notin> set (bin2hex bs)" "plain (bin2hex bs)"
proof -
  have "hex_digit d \<noteq> CHR 0x20 \<and> hex_digit d \<noteq> CHR 0x00 \<and> hex_digit d \<noteq> CHR 0x0A"
    if "d = drop_bit 4 c \<or> d = c AND 0xf" for c d :: byte
    using hex_digit_graphic nibble that by metis
  then have "x \<noteq> CHR 0x20 \<and> x \<noteq> CHR 0x00 \<and> x \<noteq> CHR 0x0A" if "x \<in> set (bin2hex bs)" for x
    using that unfolding bin2hex_def by (induction bs) (simp, fastforce)
  then show "CHR 0x20 \<notin> set (bin2hex bs)" "plain (bin2hex bs)" by (auto simp: plain_def)
qed

text \<open>
  The line of a file: sum, two characters and name. Two spaces anywhere are preferred to the mark of binary files.
\<close>

definition line_ok :: "hash_algo_t \<Rightarrow> (string \<Rightarrow> byte list option) \<Rightarrow> string \<Rightarrow> bool" where
  "line_ok a fs l \<longleftrightarrow> (\<exists>name bs. fs name = Some bs \<and>
     (l = bin2hex (digest_of a bs) @ ''  '' @ name \<or> l = bin2hex (digest_of a bs) @ '' *'' @ name \<and> \<not> strstr l ''  ''))"

lemma split_line_ok:
  "line_ok a fs l \<longleftrightarrow> (\<exists>name bs. split_line l = Some (bin2hex (digest_of a bs), name) \<and> fs name = Some bs)"
proof -
  have two: "split_line (bin2hex bs @ ''  '' @ name) = Some (bin2hex bs, name)" for bs name
    using strstr_at_first [of "CHR '' ''" "bin2hex bs" "'' ''" name] bin2hex_graphic(1) by (simp add: split_line_def)
  have star: "split_line (bin2hex bs @ '' *'' @ name) = Some (bin2hex bs, name)"
    if "\<not> strstr (bin2hex bs @ '' *'' @ name) ''  ''" for bs name
    using that strstr_at_first [of "CHR '' ''" "bin2hex bs" "''*''" name] bin2hex_graphic(1)
    by (simp add: split_line_def flip: strstr_at_None)
  have "l = h @ ''  '' @ name \<or> l = h @ '' *'' @ name \<and> \<not> strstr l ''  ''" if "split_line l = Some (h, name)" for h name
    using that
    by (auto simp: split_line_def is_prefix_iff strstr_at_None [symmetric] split: option.splits dest!: strstr_at_Some)
  note split = this
  show ?thesis
  proof
    assume "line_ok a fs l"
    then show "\<exists>name bs. split_line l = Some (bin2hex (digest_of a bs), name) \<and> fs name = Some bs"
      unfolding line_ok_def using two star by blast
  next
    assume "\<exists>name bs. split_line l = Some (bin2hex (digest_of a bs), name) \<and> fs name = Some bs"
    then show "line_ok a fs l" unfolding line_ok_def using split by blast
  qed
qed

subsection \<open>Checking a list\<close>

text \<open>A line that names standard input depends on what was read before; the lists here name files.\<close>

definition names_file :: "string \<Rightarrow> bool" where
  "names_file l \<longleftrightarrow> (case split_line l of None \<Rightarrow> True | Some (hex, name) \<Rightarrow> name \<noteq> ''-'')"

lemma split_line_plain: "split_line l = Some (h, name) \<Longrightarrow> plain l \<Longrightarrow> plain h"
  by (auto simp: split_line_def plain_def split: option.splits dest!: strstr_at_Some)

lemma check_line_verdict:
  assumes "mem_wf mem" "hash_algo (applet ! 3) = Some a" "reads_ok w" "plain l" "names_file l"
  shows "\<exists>s' w'. check_line (hash_file speed applet mem) flags l s w = Some (s', w') \<and>
    return_value s' = (if line_ok a (files w) l then return_value s else 1) \<and> files w' = files w \<and> reads_ok w'"
proof (cases "split_line l")
  case None
  then have "\<not> line_ok a (files w) l" by (simp add: split_line_ok)
  with None assms(3) show ?thesis by (simp add: check_line_def check_failed_def Let_def)
next
  case (Some p)
  obtain h name where p: "p = (h, name)" by fastforce
  have name: "name \<noteq> ''-''" using assms(5) Some p by (simp add: names_file_def)
  have h: "CHR 0x00 \<notin> set h" using split_line_plain [of l h name] Some p assms(4) by (simp add: plain_def)
  obtain n where n: "hash_file speed applet mem name w =
      Some (map_option (\<lambda>bs. bin2hex (digest_of a bs)) (files w name), w\<lparr>nreads := n\<rparr>)"
    using hash_file_digest [OF assms(1-3) name] by blast
  have cmp: "strcmp (bin2hex bs) h = 0 \<longleftrightarrow> bin2hex bs = h" for bs
    using bin2hex_graphic(2) [of bs] h by (intro strcmp_0) (simp_all add: plain_def)
  have ok: "line_ok a (files w) l \<longleftrightarrow> (\<exists>bs. files w name = Some bs \<and> bin2hex (digest_of a bs) = h)"
    using Some p by (auto simp: split_line_ok)
  show ?thesis
    using Some p n ok assms(3) by (cases "files w name") (auto simp: check_line_def check_failed_def Let_def cmp)
qed

lemma check_loop_verdict:
  assumes "mem_wf mem" "hash_algo (applet ! 3) = Some a" "\<forall>l\<in>set ls. plain l \<and> names_file l" "reads_ok w"
  shows "\<exists>s' w'. check_loop (hash_file speed applet mem) flags (unlines ls) s w = Some (s', w') \<and>
    return_value s' = (if \<forall>l\<in>set ls. line_ok a (files w) l then return_value s else 1)"
  using assms(3,4)
proof (induction ls arbitrary: s w)
  case Nil
  then show ?case by (simp add: unlines_def check_loop.simps xmalloc_fgetline_def)
next
  case (Cons l ls)
  let ?h = "hash_file speed applet mem"
  obtain s1 w1 where line: "check_line ?h flags l s w = Some (s1, w1)"
      "return_value s1 = (if line_ok a (files w) l then return_value s else 1)" "files w1 = files w" "reads_ok w1"
    using check_line_verdict [OF assms(1,2) Cons.prems(2), of l speed flags s] Cons.prems(1) by auto
  obtain s2 w2 where rest: "check_loop ?h flags (unlines ls) s1 w1 = Some (s2, w2)"
      "return_value s2 = (if \<forall>l\<in>set ls. line_ok a (files w) l then return_value s1 else 1)"
    using Cons.IH [of w1 s1] Cons.prems(1) line(3,4) by auto
  have "check_loop ?h flags (unlines (l # ls)) s w = Some (s2, w2)"
    using line(1) rest(1) Cons.prems(1)
    by (subst check_loop.simps) (simp add: unlines_def fgetline_line)
  then show ?case using line(2) rest(2) by auto
qed

subsection \<open>Writing a list\<close>

definition sum_line :: "hash_algo_t \<Rightarrow> (string \<Rightarrow> byte list option) \<Rightarrow> string \<Rightarrow> string" where
  "sum_line a fs name = bin2hex (digest_of a (the (fs name))) @ ''  '' @ name"

lemma sum_loop_output:
  assumes "mem_wf mem" "hash_algo (applet ! 3) = Some a" "\<forall>name\<in>set names. name \<noteq> ''-'' \<and> name \<in> dom (files w)" "reads_ok w"
  shows "\<exists>w'. sum_loop (hash_file speed applet mem) names ret w = Some (ret, w') \<and> files w' = files w \<and> reads_ok w' \<and>
    stdout w' = stdout w @ unlines (map (sum_line a (files w)) names)"
  using assms(3,4)
proof (induction names arbitrary: w)
  case Nil
  then show ?case by (simp add: unlines_def)
next
  case (Cons name names)
  obtain bs where bs: "files w name = Some bs" using Cons.prems(1) by auto
  obtain n where "hash_file speed applet mem name w = Some (Some (bin2hex (digest_of a bs)), w\<lparr>nreads := n\<rparr>)"
    using hash_file_digest [OF assms(1,2) Cons.prems(2), of name speed] Cons.prems(1) bs by auto
  moreover have "sum_line a (files w) name = bin2hex (digest_of a bs) @ ''  '' @ name" by (simp add: sum_line_def bs)
  ultimately show ?case
    using Cons.IH [of "print (bin2hex (digest_of a bs) @ ''  '' @ name @ [CHR 0x0A]) (w\<lparr>nreads := n\<rparr>)"] Cons.prems
    by (auto simp: unlines_def)
qed

lemma sum_line_ok:
  assumes "files w name = Some bs" "plain name" "name \<noteq> ''-''"
  shows "line_ok a (files w) (sum_line a (files w) name)" "plain (sum_line a (files w) name)" "names_file (sum_line a (files w) name)"
proof -
  show ok: "line_ok a (files w) (sum_line a (files w) name)" using assms(1) unfolding line_ok_def sum_line_def by auto
  show "plain (sum_line a (files w) name)" using bin2hex_graphic(2) assms(2) by (auto simp: sum_line_def plain_def)
  show "names_file (sum_line a (files w) name)"
    using strstr_at_first [of "CHR '' ''" "bin2hex (digest_of a bs)" "'' ''" name] bin2hex_graphic(1) assms
    by (simp add: names_file_def split_line_def sum_line_def)
qed

subsection \<open>Properties\<close>

definition sample_mem :: context_union where
  "sample_mem = \<lparr>as_md5 = fresh_md5, as_sha1 = fresh_ctx, as_sha512 = fresh_ctx512\<rparr>"

definition sample_sums :: sum_world where
  "sample_sums = \<lparr>files = [''a'' \<mapsto> [1, 2, 3], ''b  c'' \<mapsto> [], ''list'' \<mapsto> bytes_of (unlines [''zz  a''])],
     stdin = [], read_env = (\<lambda>t. Some (t mod 3)), nreads = 0, stdout = []\<rparr>"

lemma sample_mem_wf: "mem_wf sample_mem"
  by (simp add: sample_mem_def mem_wf_def md5_wf_def ctx_wf_def ctx512_wf_def fresh_md5_def fresh_ctx_def fresh_ctx512_def)

text \<open>
  C34: checking a list of sums exits with 0 exactly when every line is the sum of a readable file, two spaces and its name, or the sum, a
  space, an asterisk and the name with no two spaces in a row on the line; otherwise with 1. Sums are the digests of the standards, however the
  reads cut the files into pieces.
\<close>

theorem sum_check_verdict:
  assumes "mem_wf mem" "hash_algo (applet ! 3) = Some a" "reads_ok w" "flag flags FLAG_CHECK"
    and "lst \<noteq> ''-''" "files w lst = Some (bytes_of (unlines ls))" "\<forall>l\<in>set ls. plain l \<and> names_file l"
  shows "\<exists>w'. md5_sha1_sum_main True speed applet mem flags [lst] w =
    Some (if \<forall>l\<in>set ls. line_ok a (files w) l then 0 else 1, w')"
proof -
  obtain s' w' where "check_loop (hash_file speed applet mem) flags (unlines ls) \<lparr>count_total = 0, count_failed = 0, return_value = 0\<rparr> w = Some (s', w')"
      "return_value s' = (if \<forall>l\<in>set ls. line_ok a (files w) l then 0 else 1)"
    using check_loop_verdict [OF assms(1,2,7,3), of speed flags "\<lparr>count_total = 0, count_failed = 0, return_value = 0\<rparr>"] by auto
  then show ?thesis
    using assms(4-6) by (intro exI [of _ w']) (simp add: md5_sha1_sum_main_def open_or_warn_stdin_def consume_def)
qed

lemma length_bin2hex: "length (bin2hex bs) = 2 * length bs"
  by (simp add: bin2hex_def length_concat_const [where n = 2])

lemma sample_line: "split_line ''zz  a'' = Some (''zz'', ''a'')"
  by (simp add: split_line_def strstr_at.simps)

theorem sum_check_verdict_witness:
  "mem_wf sample_mem \<and> reads_ok sample_sums \<and>
   (\<exists>w'. md5_sha1_sum_main True 3 ''md5sum'' sample_mem FLAG_CHECK [''list''] sample_sums = Some (1, w'))"
proof -
  have algo: "hash_algo (''md5sum'' ! 3) = Some HASH_MD5" by (simp add: hash_algo_def)
  have reads: "reads_ok sample_sums" by (simp add: reads_ok_def sample_sums_def)
  have fl: "flag FLAG_CHECK FLAG_CHECK" by (simp add: flag_def FLAG_CHECK_def)
  have list: "files sample_sums ''list'' = Some (bytes_of (unlines [''zz  a'']))" by (simp add: sample_sums_def)
  have lines: "\<forall>l\<in>set [''zz  a'']. plain l \<and> names_file l" by (simp add: plain_def names_file_def sample_line)
  have "bin2hex (digest_of HASH_MD5 bs) \<noteq> ''zz''" for bs
    using length_bin2hex [of "rfc_digest bs"] by (auto simp: digest_of_def)
  then have "\<not> line_ok HASH_MD5 (files sample_sums) ''zz  a''" by (simp add: split_line_ok sample_line eq_commute [of "''zz''"])
  then show ?thesis using sum_check_verdict [OF sample_mem_wf algo reads fl _ list lines, of 3] sample_mem_wf reads by simp
qed

text \<open>
  C35: the output of the applet, stored in a file, passes the check of the same applet, also when the two are built with different variants of the
  block function.
\<close>

theorem sum_check_roundtrip:
  assumes "mem_wf mem" "hash_algo (applet ! 3) = Some a" "reads_ok w" "stdout w = []" "names \<noteq> []"
    and "\<forall>name\<in>set names. plain name \<and> name \<noteq> ''-'' \<and> name \<in> dom (files w)" "lst \<notin> set names" "lst \<noteq> ''-''"
  shows "\<exists>w1 w2. md5_sha1_sum_main True speed applet mem 0 names w = Some (0, w1) \<and>
    md5_sha1_sum_main True speed' applet mem FLAG_CHECK [lst] (w1\<lparr>files := (files w1)(lst \<mapsto> bytes_of (stdout w1))\<rparr>) = Some (0, w2)"
proof -
  obtain w1 where w1: "sum_loop (hash_file speed applet mem) names 0 w = Some (0, w1)" "files w1 = files w" "reads_ok w1"
      "stdout w1 = unlines (map (sum_line a (files w)) names)"
    using sum_loop_output [OF assms(1,2) _ assms(3), of names speed 0] assms(4,6) by auto
  let ?w = "w1\<lparr>files := (files w)(lst \<mapsto> bytes_of (stdout w1))\<rparr>" and ?ls = "map (sum_line a (files w)) names"
  have same: "sum_line a (files ?w) name = sum_line a (files w) name \<and> (\<exists>bs. files ?w name = Some bs)" if "name \<in> set names" for name
    using that assms(6,7) by (auto simp: sum_line_def)
  have good: "line_ok a (files ?w) (sum_line a (files w) name) \<and> plain (sum_line a (files w) name) \<and> names_file (sum_line a (files w) name)"
    if "name \<in> set names" for name
    using same [OF that] sum_line_ok [of ?w name _ a] assms(6) that by metis
  have list: "files ?w lst = Some (bytes_of (unlines ?ls))" by (simp add: w1(4))
  have flag: "flag FLAG_CHECK FLAG_CHECK" by (simp add: flag_def FLAG_CHECK_def)
  obtain s' w2 where "check_loop (hash_file speed' applet mem) FLAG_CHECK (unlines ?ls) \<lparr>count_total = 0, count_failed = 0, return_value = 0\<rparr> ?w = Some (s', w2)"
      "return_value s' = (if \<forall>l\<in>set ?ls. line_ok a (files ?w) l then 0 else 1)"
    using check_loop_verdict [OF assms(1,2), of ?ls ?w speed' FLAG_CHECK "\<lparr>count_total = 0, count_failed = 0, return_value = 0\<rparr>"]
      good w1(3) by auto
  then have "md5_sha1_sum_main True speed' applet mem FLAG_CHECK [lst] ?w = Some (0, w2)"
    using good list flag assms(8) by (simp add: md5_sha1_sum_main_def open_or_warn_stdin_def consume_def)
  moreover have "md5_sha1_sum_main True speed applet mem 0 names w = Some (0, w1)"
    using w1(1) assms(5) by (simp add: md5_sha1_sum_main_def flag_def)
  ultimately show ?thesis using w1(2) by auto
qed

theorem sum_check_roundtrip_witness:
  "mem_wf sample_mem \<and> reads_ok sample_sums \<and>
   (\<exists>w1 w2. md5_sha1_sum_main True 0 ''sha512sum'' sample_mem 0 [''a'', ''b  c''] sample_sums = Some (0, w1) \<and>
    md5_sha1_sum_main True 3 ''sha512sum'' sample_mem FLAG_CHECK [''sums'']
      (w1\<lparr>files := (files w1)(''sums'' \<mapsto> bytes_of (stdout w1))\<rparr>) = Some (0, w2))"
proof -
  have algo: "hash_algo (''sha512sum'' ! 3) = Some HASH_SHA512" by (simp add: hash_algo_def)
  have reads: "reads_ok sample_sums" by (simp add: reads_ok_def sample_sums_def)
  have "stdout sample_sums = []" by (simp add: sample_sums_def)
  moreover have "\<forall>name\<in>set [''a'', ''b  c'']. plain name \<and> name \<noteq> ''-'' \<and> name \<in> dom (files sample_sums)"
    by (simp add: plain_def sample_sums_def)
  ultimately show ?thesis
    using sum_check_roundtrip [OF sample_mem_wf algo reads, of "[''a'', ''b  c'']" "''sums''" 0 3] sample_mem_wf reads by simp
qed

end
