(* ===== verification/Cksum.thy ===== *)
theory Cksum
  imports Stream_IO
begin

text \<open>
  \<^verbatim>\<open>busybox/libbb/crc32.c\<close>, \<^verbatim>\<open>coreutils/cksum.c\<close> and \<^verbatim>\<open>coreutils/sum.c\<close>: the table of the cyclic redundancy check, the applet
  that prints it and the applet for the older sums. \<open>off_t\<close> is 64 bits wide (large file support); the options have been read. The size of
  the common buffer is a parameter.
\<close>

subsection \<open>The table\<close>

definition crc_step :: "bool \<Rightarrow> u32 \<Rightarrow> u32" where
  "crc_step endian c =
     (let polynomial = (if endian then 0x04c11db7 else 0xedb88320) in
      if endian then (if c AND 0x80000000 \<noteq> 0 then push_bit 1 c XOR polynomial else push_bit 1 c)
      else (if c AND 1 \<noteq> 0 then drop_bit 1 c XOR polynomial else drop_bit 1 c))"

definition crc32_filltable :: "bool \<Rightarrow> u32 list" where
  "crc32_filltable endian = map (\<lambda>i. (crc_step endian ^^ 8) (if endian then push_bit 24 (of_nat i) else of_nat i)) [0..<256]"

subsection \<open>cksum\<close>

definition cksum_byte :: "u32 list \<Rightarrow> u32 \<Rightarrow> byte \<Rightarrow> u32" where
  "cksum_byte crc32_table crc b = push_bit 8 crc XOR crc32_table ! unat (drop_bit 24 crc XOR ucast b)"

definition cksum_piece :: "u32 list \<Rightarrow> byte list \<Rightarrow> u32 \<times> u64 \<Rightarrow> u32 \<times> u64" where
  "cksum_piece crc32_table p = (\<lambda>(crc, len). (foldl (cksum_byte crc32_table) crc p, len + of_nat (length p)))"

function cksum_length :: "u32 list \<Rightarrow> u32 \<Rightarrow> u64 \<Rightarrow> u32" where
  "cksum_length crc32_table crc len =
     (if len = 0 then crc
      else cksum_length crc32_table (push_bit 8 crc XOR crc32_table ! unat ((ucast (drop_bit 24 crc) :: u8) XOR ucast len)) (drop_bit 8 len))"
  by pat_completeness auto
termination
proof (relation "measure (\<lambda>(t, c, l). unat l)")
  fix t c and l :: u64
  assume "l \<noteq> 0"
  then have "0 < unat l" by (simp add: unat_gt_0)
  then show "((t, push_bit 8 c XOR t ! unat ((ucast (drop_bit 24 c) :: u8) XOR ucast l), drop_bit 8 l), t, c :: u32, l) \<in> measure (\<lambda>(t, c, l). unat l)"
    by (simp add: drop_bit_eq_div unat_div)
qed simp

declare cksum_length.simps [simp del]

text \<open>One turn of the outer loop; \<open>None\<close> is the null pointer at the end of \<open>argv\<close>. A read that fails ends the loop like the end of the file;
  so a second \<open>-\<close>, read from the standard input that the first one closed, gives the sum of an empty file, as reading it at its end does here.\<close>

definition cksum_file :: "nat \<Rightarrow> u32 list \<Rightarrow> string option \<Rightarrow> int \<times> sum_world \<Rightarrow> int \<times> sum_world" where
  "cksum_file bufsz crc32_table arg = (\<lambda>(exit_code, w).
     let name = (case arg of None \<Rightarrow> ''-'' | Some f \<Rightarrow> f) in
     case open_or_warn_stdin name w of
       None \<Rightarrow> (1, w)
     | Some bs \<Rightarrow>
         (case read_loop bufsz (cksum_piece crc32_table) bs w (0, 0) of (eof, rest, w', crc, filesize) \<Rightarrow>
           let crc = NOT (cksum_length crc32_table crc filesize) in
           (exit_code, print (show_nat (unat crc) @ '' '' @ show_int (sint filesize) @ (case arg of None \<Rightarrow> [] | Some f \<Rightarrow> '' '' @ f) @ [CHR 0x0A])
              (consume name rest w'))))"

definition cksum_main :: "nat \<Rightarrow> string list \<Rightarrow> sum_world \<Rightarrow> int \<times> sum_world" where
  "cksum_main bufsz argv w =
     (let crc32_table = crc32_filltable True in
      if argv = [] then cksum_file bufsz crc32_table None (0, w)
      else fold (\<lambda>f. cksum_file bufsz crc32_table (Some f)) argv (0, w))"

subsection \<open>sum\<close>

definition SUM_BSD :: nat where "SUM_BSD = 0"
definition PRINT_NAME :: nat where "PRINT_NAME = 1"
definition SUM_SYSV :: nat where "SUM_SYSV = 2"

definition bsd_byte :: "u32 \<Rightarrow> byte \<Rightarrow> u32" where
  "bsd_byte s b = (drop_bit 1 s + push_bit 15 (s AND 1) + ucast b) AND 0xffff"

text \<open>The bytes of a piece are added from its end for the System V sum.\<close>

definition sum_piece :: "nat \<Rightarrow> byte list \<Rightarrow> u32 \<times> u64 \<Rightarrow> u32 \<times> u64" where
  "sum_piece type p = (\<lambda>(s, total_bytes).
     (if SUM_SYSV \<le> type then foldl (\<lambda>s b. s + ucast b) s (rev p) else foldl bsd_byte s p, total_bytes + of_nat (length p)))"

definition pad_left :: "char \<Rightarrow> nat \<Rightarrow> string \<Rightarrow> string" where
  "pad_left c n s = replicate (n - length s) c @ s"

definition sysv_fold :: "u32 \<Rightarrow> u32" where
  "sysv_fold s = (let r = (s AND 0xffff) + drop_bit 16 (s AND 0xffffffff) in (r AND 0xffff) + drop_bit 16 r)"

definition sum_line :: "nat \<Rightarrow> string \<Rightarrow> u32 \<Rightarrow> u64 \<Rightarrow> string" where
  "sum_line type file s total_bytes =
     (let file = (if type < PRINT_NAME then [] else file) in
      if SUM_SYSV \<le> type
      then show_nat (unat (sysv_fold s)) @ '' '' @ show_nat (unat ((total_bytes + 511) div 512)) @ '' '' @ file @ [CHR 0x0A]
      else pad_left CHR ''0'' 5 (show_nat (unat s)) @ '' '' @ pad_left CHR '' '' 5 (show_nat (unat ((total_bytes + 1023) div 1024))) @ '' '' @ file @ [CHR 0x0A])"

text \<open>The result is 1 for success; the closing of the file is taken to succeed.\<close>

definition sum_file :: "nat \<Rightarrow> string \<Rightarrow> nat \<Rightarrow> sum_world \<Rightarrow> bool \<times> sum_world" where
  "sum_file bufsiz file type w =
     (case open_or_warn_stdin file w of
        None \<Rightarrow> (False, w)
      | Some bs \<Rightarrow>
          (case read_loop bufsiz (sum_piece type) bs w (0, 0) of (eof, rest, w', s, total_bytes) \<Rightarrow>
            if eof then (True, print (sum_line type file s total_bytes) (consume file rest w')) else (False, consume file rest w')))"

fun sum_files :: "nat \<Rightarrow> nat \<Rightarrow> string list \<Rightarrow> bool \<Rightarrow> sum_world \<Rightarrow> bool \<times> sum_world" where
  "sum_files bufsiz type [] n w = (n, w)"
| "sum_files bufsiz type (f # argv) n w = (case sum_file bufsiz f type w of (r, w') \<Rightarrow> sum_files bufsiz type argv (n \<and> r) w')"

definition sum_main :: "nat \<Rightarrow> bool \<Rightarrow> bool \<Rightarrow> string list \<Rightarrow> sum_world \<Rightarrow> int \<times> sum_world" where
  "sum_main bufsiz opt_s opt_r argv w =
     (let type = (if opt_r then SUM_BSD else if opt_s then SUM_SYSV else SUM_BSD);
          (n, w') = (if argv = [] then sum_file bufsiz ''-'' type w
            else sum_files bufsiz (if tl argv \<noteq> [] \<or> type = SUM_SYSV then type + 1 else type) argv True w) in
      (if n then 0 else 1, w'))"

end
