(* ===== verification/Cksum_Props.thy ===== *)
theory Cksum_Props
  imports Cksum
begin

text \<open>
  The sum that \<open>cksum\<close> prints is the complement of a remainder of polynomials over the field with two elements. The table and the register
  shifted by bytes are related to a register shifted by bits, and that to the division.
\<close>

subsection \<open>The register shifted by bits\<close>

abbreviation step :: "u32 \<Rightarrow> u32" where
  "step \<equiv> crc_step True"

definition poly32 :: u32 where
  "poly32 = 0x04c11db7"

definition serial :: "u32 \<Rightarrow> bool \<Rightarrow> u32" where
  "serial r b = (if bit r 31 \<noteq> b then push_bit 1 r XOR poly32 else push_bit 1 r)"

lemma msb_test: "(c AND 0x80000000 \<noteq> 0) = bit c 31" for c :: u32
proof -
  have "(0x80000000 :: u32) = 2 ^ 31" by simp
  then show ?thesis by (simp only: and_exp_eq_0_iff_not_bit) simp
qed

lemma step_def: "step c = (if bit c 31 then push_bit 1 c XOR poly32 else push_bit 1 c)"
  by (simp add: crc_step_def msb_test poly32_def Let_def)

lemma step_low: "\<not> bit c 31 \<Longrightarrow> step c = push_bit 1 c"
  by (simp add: step_def)

lemma push_bit_xor_word: "push_bit n (a XOR b) = push_bit n a XOR push_bit n (b :: u32)"
  by (rule bit_word_eqI) (auto simp: bit_simps)

lemma step_xor: "step (a XOR b) = step a XOR step b"
  by (rule bit_word_eqI) (auto simp: step_def bit_xor_iff push_bit_xor_word)

lemma steps_xor: "(step ^^ n) (a XOR b) = (step ^^ n) a XOR (step ^^ n) b"
  by (induction n arbitrary: a b) (simp_all add: step_xor)

lemma serial_step: "serial r b = step (r XOR push_bit 31 (of_bool b))"
proof -
  have "push_bit 1 (push_bit 31 (of_bool b)) = (0 :: u32)" by (cases b) simp_all
  then show ?thesis by (simp add: serial_def step_def bit_simps push_bit_xor_word)
qed

lemma steps_low: "n \<le> 32 \<Longrightarrow> (step ^^ n) (take_bit (32 - n) r) = push_bit n r"
proof (induction n arbitrary: r)
  case (Suc n)
  have "step (take_bit (31 - n) r) = push_bit 1 (take_bit (31 - n) r)" by (rule step_low) (auto simp: bit_simps)
  also have "\<dots> = take_bit (31 - n + 1) (push_bit 1 r)" by (simp add: push_bit_take_bit del: push_bit_of_1)
  also have "31 - n + 1 = 32 - n" using Suc.prems by simp
  finally have "(step ^^ Suc n) (take_bit (32 - Suc n) r) = (step ^^ n) (take_bit (32 - n) (push_bit 1 r))"
    by (simp add: funpow_Suc_right del: funpow.simps)
  then show ?case using Suc by simp
qed (simp add: take_bit_word_eq_self)

lemma serial_bits:
  "n \<le> 8 \<Longrightarrow> foldl serial r (map (bit b) (rev [0..<n])) = (step ^^ n) (r XOR push_bit (32 - n) (take_bit n (ucast b)))" for b :: byte
proof (induction n arbitrary: r)
  case (Suc n)
  let ?b = "ucast b :: u32"
  have low: "push_bit (32 - n) (take_bit n ?b) = step (push_bit (31 - n) (take_bit n ?b))"
  proof -
    have "step (push_bit (31 - n) (take_bit n ?b)) = push_bit 1 (push_bit (31 - n) (take_bit n ?b))"
      using Suc.prems by (intro step_low) (simp add: bit_simps)
    moreover have "32 - n = 1 + (31 - n)" using Suc.prems by simp
    ultimately show ?thesis by (simp only: push_bit_push_bit)
  qed
  have split: "push_bit 31 (of_bool (bit b n)) XOR push_bit (31 - n) (take_bit n ?b) = push_bit (31 - n) (take_bit (Suc n) ?b)"
  proof (rule bit_word_eqI)
    fix i
    assume "i < LENGTH(32)"
    then show "bit (push_bit 31 (of_bool (bit b n)) XOR push_bit (31 - n) (take_bit n ?b)) i = bit (push_bit (31 - n) (take_bit (Suc n) ?b)) i"
      using Suc.prems by (cases "i = 31") (auto simp: bit_simps)
  qed
  have "foldl serial r (map (bit b) (rev [0..<Suc n])) = (step ^^ n) (serial r (bit b n) XOR push_bit (32 - n) (take_bit n ?b))"
    using Suc by simp
  also have "\<dots> = (step ^^ n) (step (r XOR push_bit (31 - n) (take_bit (Suc n) ?b)))"
    by (simp add: serial_step low split xor.assoc flip: step_xor)
  finally show ?case by (simp add: funpow_Suc_right del: funpow.simps)
qed simp

definition byte_bits :: "byte \<Rightarrow> bool list" where
  "byte_bits b = map (bit b) (rev [0..<8])"

abbreviation (input) table :: "u32 list" where
  "table \<equiv> crc32_filltable True"

lemma index_bound: "unat (drop_bit 24 r XOR ucast b) < 256" for r :: u32 and b :: byte
proof -
  have "drop_bit 24 r XOR ucast b = take_bit 8 (drop_bit 24 r XOR ucast b)"
    by (rule bit_word_eqI) (auto simp: bit_simps dest: bit_imp_le_length)
  then have "unat (drop_bit 24 r XOR ucast b) = take_bit 8 (unat (drop_bit 24 r XOR ucast b))" by (metis unsigned_take_bit_eq)
  with take_bit_nat_less_exp [of 8 "unat (drop_bit 24 r XOR ucast b)"] show ?thesis by simp
qed

lemma cksum_byte_serial: "cksum_byte table r b = foldl serial r (byte_bits b)"
proof -
  let ?i = "drop_bit 24 r XOR ucast b :: u32"
  have "r XOR push_bit 24 (ucast b) = push_bit 24 ?i XOR take_bit 24 r"
    by (rule bit_word_eqI) (auto simp: bit_simps)
  moreover have "take_bit 8 (ucast b) = (ucast b :: u32)" by (rule bit_word_eqI) (auto simp: bit_simps dest: bit_imp_le_length)
  ultimately have "foldl serial r (byte_bits b) = (step ^^ 8) (push_bit 24 ?i XOR take_bit 24 r)"
    using serial_bits [of 8 r b] unfolding byte_bits_def by simp
  then have "foldl serial r (byte_bits b) = (step ^^ 8) (push_bit 24 ?i) XOR push_bit 8 r"
    using steps_low [of 8 r] by (simp only: steps_xor) simp
  moreover have "table ! unat ?i = (step ^^ 8) (push_bit 24 ?i)"
    using index_bound [of r b] by (simp add: crc32_filltable_def del: funpow.simps)
  ultimately show ?thesis by (simp add: cksum_byte_def xor.commute)
qed

subsection \<open>Division of polynomials\<close>

text \<open>
  A natural number is the polynomial with its bits as coefficients. The product of a polynomial with the coefficients \<open>qs\<close>, the highest
  first, and \<open>g\<close> is built by Horner's scheme.
\<close>

definition gf2_step :: "nat \<Rightarrow> nat \<Rightarrow> bool \<Rightarrow> nat" where
  "gf2_step g m q = 2 * m XOR (if q then g else 0)"

definition gf2_mult :: "bool list \<Rightarrow> nat \<Rightarrow> nat" where
  "gf2_mult qs g = foldl (gf2_step g) 0 qs"

definition crc_polynomial :: nat where
  "crc_polynomial = 0x104c11db7"

definition bits_number :: "bool list \<Rightarrow> nat" where
  "bits_number bs = foldl (\<lambda>a b. 2 * a + of_bool b) 0 bs"

lemma polynomial_bits: "crc_polynomial = push_bit 32 1 XOR unat poly32"
  by (simp add: poly32_def crc_polynomial_def)

lemma bit_polynomial: "bit crc_polynomial i \<longleftrightarrow> i = 32 \<or> bit poly32 i"
  by (simp only: polynomial_bits bit_xor_iff bit_push_bit_iff bit_1_iff bit_unsigned_iff) (auto dest: bit_imp_le_length)

lemma bit_serial: "bit (serial r b) i \<longleftrightarrow> i < 32 \<and> (0 < i \<and> bit r (i - 1)) \<noteq> ((bit r 31 \<noteq> b) \<and> bit poly32 i)"
  by (simp only: serial_def bit_xor_iff bit_push_bit_iff split: if_split) (auto dest: bit_imp_le_length)

lemma double_xor: "2 * (a XOR b) = 2 * a XOR 2 * (b :: nat)"
  by (rule bit_eqI) (auto simp: bit_double_iff bit_xor_iff)

lemma xor_cancel: "a XOR (a XOR b) = (b :: nat)"
  by (simp flip: xor.assoc)

lemma serial_number:
  "push_bit 32 (2 * B + of_bool b) XOR unat (serial r b) = gf2_step crc_polynomial (push_bit 32 B XOR unat r) (bit r 31 \<noteq> b)"
proof (rule bit_eqI)
  fix i :: nat
  have odd: "2 * B + of_bool b = 2 * B XOR of_bool b" by (cases b) (use xor_one_eq [of "2 * B"] in simp_all)
  consider "i < 32" | "i = 32" | "32 < i" by linarith
  then show "bit (push_bit 32 (2 * B + of_bool b) XOR unat (serial r b)) i
    = bit (gf2_step crc_polynomial (push_bit 32 B XOR unat r) (bit r 31 \<noteq> b)) i"
    unfolding odd gf2_step_def
    by cases (auto simp: bit_serial bit_polynomial bit_xor_iff bit_push_bit_iff bit_double_iff bit_unsigned_iff bit_Suc_0_iff dest: bit_imp_le_length)
qed

lemma serial_divides: "\<exists>qs. gf2_mult qs crc_polynomial = push_bit 32 (bits_number bs) XOR unat (foldl serial 0 bs)"
proof (induction bs rule: rev_induct)
  case Nil
  show ?case by (rule exI [of _ "[]"]) (simp add: gf2_mult_def bits_number_def)
next
  case (snoc b bs)
  then obtain qs where "gf2_mult qs crc_polynomial = push_bit 32 (bits_number bs) XOR unat (foldl serial 0 bs)" by blast
  then have "gf2_mult (qs @ [bit (foldl serial 0 bs) 31 \<noteq> b]) crc_polynomial = push_bit 32 (bits_number (bs @ [b])) XOR unat (foldl serial 0 (bs @ [b]))"
    by (simp only: gf2_mult_def bits_number_def foldl_append foldl.simps serial_number)
  then show ?case by blast
qed

lemma gf2_step_xor: "gf2_step g (a XOR b) (p = (\<not> q)) = gf2_step g a p XOR gf2_step g b q"
  by (cases p; cases q) (simp_all add: gf2_step_def double_xor xor_cancel xor.assoc xor.left_commute xor.commute)

lemma gf2_mult_xor: "length ps = length qs \<Longrightarrow> gf2_mult (map2 (\<noteq>) ps qs) g = gf2_mult ps g XOR gf2_mult qs g"
proof -
  have "foldl (gf2_step g) (a XOR b) (map2 (\<noteq>) ps qs) = foldl (gf2_step g) a ps XOR foldl (gf2_step g) b qs" if "length ps = length qs" for a b
    using that by (induction ps qs arbitrary: a b rule: list_induct2) (simp_all add: gf2_step_xor)
  from this [of 0 0] show "length ps = length qs \<Longrightarrow> ?thesis" by (simp add: gf2_mult_def)
qed

lemma gf2_mult_zeros: "gf2_mult (replicate n False @ qs) g = gf2_mult qs g"
  by (induction n) (simp_all add: gf2_mult_def gf2_step_def)

lemma gf2_mult_large: "gf2_mult qs crc_polynomial \<noteq> 0 \<Longrightarrow> 2 ^ 32 \<le> gf2_mult qs crc_polynomial"
proof (induction qs rule: rev_induct)
  case (snoc q qs)
  let ?m = "gf2_mult qs crc_polynomial"
  show ?case
  proof (cases "?m = 0")
    case True
    then show ?thesis using snoc.prems by (simp add: gf2_mult_def gf2_step_def crc_polynomial_def split: if_splits)
  next
    case False
    then have "2 ^ 32 \<le> ?m" by (rule snoc.IH)
    moreover have "drop_bit 33 (gf2_mult (qs @ [q]) crc_polynomial) = drop_bit 32 ?m"
    proof -
      have "drop_bit 33 (if q then crc_polynomial else 0) = 0" by (simp add: crc_polynomial_def drop_bit_eq_div)
      moreover have "drop_bit 33 (2 * ?m) = drop_bit 32 ?m" by (simp add: drop_bit_eq_div)
      ultimately show ?thesis by (simp add: gf2_mult_def gf2_step_def drop_bit_xor)
    qed
    ultimately have "drop_bit 33 (gf2_mult (qs @ [q]) crc_polynomial) \<noteq> 0" by (simp add: drop_bit_eq_div)
    then show ?thesis by (simp add: drop_bit_eq_div div_eq_0_iff)
  qed
qed (simp add: gf2_mult_def)

lemma remainder_unique:
  assumes "gf2_mult ps crc_polynomial = n XOR unat (r :: u32)" "gf2_mult qs crc_polynomial = n XOR unat (s :: u32)"
  shows "r = s"
proof -
  let ?ps = "replicate (length qs) False @ ps" and ?qs = "replicate (length ps) False @ qs"
  have "gf2_mult (map2 (\<noteq>) ?ps ?qs) crc_polynomial = unat r XOR unat s"
    using assms gf2_mult_xor [of ?ps ?qs crc_polynomial] by (simp add: gf2_mult_zeros xor_cancel xor.assoc xor.left_commute)
  moreover have "unat (r XOR s) < 2 ^ LENGTH(32)" by (rule unsigned_less)
  ultimately have "\<not> 0 < unat (r XOR s)" using gf2_mult_large [of "map2 (\<noteq>) ?ps ?qs"] by (auto simp: unsigned_xor_eq)
  then have "r XOR s = 0" by (simp add: unat_gt_0)
  then have "(r XOR s) XOR s = s" by simp
  then show ?thesis by (simp add: xor.assoc)
qed

subsection \<open>The sum of a file\<close>

definition message_number :: "byte list \<Rightarrow> nat" where
  "message_number bs = foldl (\<lambda>a b. 256 * a + unat b) 0 bs"

text \<open>The octets of a length, the lowest first.\<close>

fun length_bytes :: "nat \<Rightarrow> byte list" where
  "length_bytes n = (if n = 0 then [] else of_nat n # length_bytes (n div 256))"

declare length_bytes.simps [simp del]

definition posix_crc :: "byte list \<Rightarrow> u32" where
  "posix_crc bs = NOT (foldl serial 0 (concat (map byte_bits (bs @ length_bytes (length bs)))))"

lemma foldl_horner: "foldl (\<lambda>a b. 2 * a + of_bool b) a (rev bs) = 2 ^ length bs * a + horner_sum of_bool 2 bs" for a :: nat
  by (induction bs arbitrary: a) (simp_all add: algebra_simps)

lemma byte_number: "foldl (\<lambda>a b. 2 * a + of_bool b) a (byte_bits b) = 256 * a + unat b" for a :: nat
proof -
  have "horner_sum of_bool 2 (map (bit b) [0..<8]) = horner_sum of_bool (2 :: nat) (map (bit (unat b)) [0..<8])"
    by (intro arg_cong [where f = "horner_sum of_bool 2"] map_cong) (auto simp: bit_simps)
  moreover have "unat b < 2 ^ LENGTH(8)" by (rule unsigned_less)
  then have "horner_sum of_bool (2 :: nat) (map (bit (unat b)) [0..<8]) = unat b" by (simp add: horner_sum_bit_eq_take_bit take_bit_nat_eq_self)
  ultimately show ?thesis using foldl_horner [of a "map (bit b) [0..<8]"] by (simp add: byte_bits_def rev_map)
qed

lemma bits_message: "bits_number (concat (map byte_bits bs)) = message_number bs"
proof -
  have "foldl (\<lambda>a b. 2 * a + of_bool b) a (concat (map byte_bits bs)) = foldl (\<lambda>a b. 256 * a + unat b) a bs" for a :: nat
    by (induction bs arbitrary: a) (simp_all only: list.map concat.simps foldl_append foldl.simps byte_number)
  then show ?thesis by (simp add: bits_number_def message_number_def)
qed

lemma cksum_bytes: "foldl (cksum_byte table) r bs = foldl serial r (concat (map byte_bits bs))"
  by (induction bs arbitrary: r) (simp_all add: cksum_byte_serial)

lemma cksum_length_bytes: "cksum_length t r len = foldl (cksum_byte t) r (length_bytes (unat len))"
proof (induction t r len rule: cksum_length.induct)
  case (1 t r len)
  have "unat ((ucast (drop_bit 24 r) :: u8) XOR ucast len) = unat (drop_bit 24 r XOR ucast (ucast len :: u8))"
    by (rule bit_eqI) (auto simp: bit_simps dest: bit_imp_le_length)
  then have index: "push_bit 8 r XOR t ! unat ((ucast (drop_bit 24 r) :: u8) XOR ucast len) = cksum_byte t r (ucast len)"
    by (simp add: cksum_byte_def)
  have step: "ucast len = (of_nat (unat len) :: byte)" "unat (drop_bit 8 len) = unat len div 256"
    by (simp_all add: unsigned_drop_bit_eq drop_bit_eq_div unat_div)
  show ?case
  proof (cases "len = 0")
    case False
    then have "cksum_length t r len = cksum_length t (cksum_byte t r (ucast len)) (drop_bit 8 len)"
      by (subst cksum_length.simps) (simp add: index)
    also have "\<dots> = foldl (cksum_byte t) (cksum_byte t r (ucast len)) (length_bytes (unat len div 256))"
      using 1 [OF False] by (simp only: index step(2))
    also have "\<dots> = foldl (cksum_byte t) r (length_bytes (unat len))"
      using False by (simp add: length_bytes.simps [of "unat len"] unat_eq_zero)
    finally show ?thesis .
  qed (simp add: cksum_length.simps length_bytes.simps)
qed

lemma cksum_value:
  assumes "length bs < 2 ^ 63"
  shows "NOT (cksum_length table (foldl (cksum_byte table) 0 bs) (of_nat (length bs))) = posix_crc bs"
  using assms by (simp add: cksum_length_bytes posix_crc_def cksum_bytes unsigned_of_nat take_bit_nat_eq_self)

text \<open>The complement of the sum is the only remainder.\<close>

lemma posix_crc_remainder:
  "(\<exists>qs. gf2_mult qs crc_polynomial = push_bit 32 (message_number (bs @ length_bytes (length bs))) XOR unat r) \<longleftrightarrow> r = NOT (posix_crc bs)"
proof -
  let ?b = "concat (map byte_bits (bs @ length_bytes (length bs)))"
  have m: "bits_number ?b = message_number (bs @ length_bytes (length bs))" by (rule bits_message)
  have c: "NOT (posix_crc bs) = foldl serial 0 ?b" unfolding posix_crc_def by (rule bit.double_compl)
  obtain qs where qs: "gf2_mult qs crc_polynomial = push_bit 32 (message_number (bs @ length_bytes (length bs))) XOR unat (NOT (posix_crc bs))"
    using serial_divides [of ?b] unfolding m c by blast
  then show ?thesis using remainder_unique [OF _ qs] by blast
qed

text \<open>The line of a file; a file that cannot be opened has none.\<close>

definition cksum_text :: "sum_world \<Rightarrow> string \<Rightarrow> string" where
  "cksum_text w f =
     (case files w f of None \<Rightarrow> []
      | Some bs \<Rightarrow> show_nat (unat (posix_crc bs)) @ '' '' @ show_nat (length bs) @ '' '' @ f @ [CHR 0x0A])"

definition small_files :: "sum_world \<Rightarrow> string list \<Rightarrow> bool" where
  "small_files w fs \<longleftrightarrow> (\<forall>f \<in> set fs. f \<noteq> ''-'' \<and> (case files w f of None \<Rightarrow> True | Some bs \<Rightarrow> length bs < 2 ^ 63))"

lemma print_print: "print t (print s w) = print (s @ t) w"
  by (simp add: print_def)

lemma print_nreads: "(print s w)\<lparr>nreads := n\<rparr> = print s (w\<lparr>nreads := n\<rparr>)" "print [] w = w"
  by (simp_all add: print_def)

lemma sint_small: "n < 2 ^ 63 \<Longrightarrow> sint (of_nat n :: u64) = int n"
  by (simp add: signed_of_nat signed_take_bit_int_eq_self)

interpretation cksum_stream: stream_sum "cksum_piece table" "(0, 0)" "\<lambda>m. (foldl (cksum_byte table) 0 m, of_nat (length m))"
  by unfold_locales (simp_all add: cksum_piece_def)

lemma cksum_file_text:
  assumes "reads_ok w" "0 < bufsz" "small_files w [f]"
  shows "\<exists>n. cksum_file bufsz table (Some f) (c, w) = (if files w f = None then 1 else c, print (cksum_text w f) (w\<lparr>nreads := n\<rparr>))"
proof (cases "files w f")
  case None
  then show ?thesis using assms(3)
    by (intro exI [of _ "nreads w"]) (simp add: cksum_file_def cksum_text_def small_files_def open_or_warn_stdin_def print_nreads)
next
  case (Some bs)
  have len: "length bs < 2 ^ 63" and f: "f \<noteq> ''-''" using assms(3) Some by (simp_all add: small_files_def)
  obtain n where n: "read_loop bufsz (cksum_piece table) bs w (0, 0) = (True, [], w\<lparr>nreads := n\<rparr>, foldl (cksum_byte table) 0 bs, of_nat (length bs))"
    using cksum_stream.read_loop_sum [OF assms(1,2)] by blast
  have "show_int (int (length bs)) = show_nat (length bs)" by (simp add: show_int_def)
  with Some f n cksum_value [OF len] sint_small [OF len] show ?thesis
    by (intro exI [of _ n]) (simp add: cksum_file_def cksum_text_def open_or_warn_stdin_def consume_def Let_def)
qed

lemma cksum_files_text:
  assumes "reads_ok w" "0 < bufsz" "small_files w fs"
  shows "\<exists>n. fold (\<lambda>f. cksum_file bufsz table (Some f)) fs (c, w)
    = (if None \<in> files w ` set fs then 1 else c, print (concat (map (cksum_text w) fs)) (w\<lparr>nreads := n\<rparr>))"
  using assms
proof (induction fs arbitrary: c w)
  case Nil
  show ?case by (intro exI [of _ "nreads w"]) (simp add: print_nreads)
next
  case (Cons f fs)
  obtain n where n: "cksum_file bufsz table (Some f) (c, w) = (if files w f = None then 1 else c, print (cksum_text w f) (w\<lparr>nreads := n\<rparr>))"
    using cksum_file_text [of w bufsz f c] Cons.prems by (auto simp: small_files_def)
  let ?w = "print (cksum_text w f) (w\<lparr>nreads := n\<rparr>)" and ?c = "if files w f = None then 1 else c"
  have "cksum_text ?w = cksum_text w" by (simp add: fun_eq_iff cksum_text_def)
  moreover obtain n' where "fold (\<lambda>f. cksum_file bufsz table (Some f)) fs (?c, ?w)
      = (if None \<in> files ?w ` set fs then 1 else ?c, print (concat (map (cksum_text ?w) fs)) (?w\<lparr>nreads := n'\<rparr>))"
    using Cons.IH [of ?w ?c] Cons.prems by (auto simp: small_files_def)
  ultimately show ?case using n by (intro exI [of _ n']) (auto simp: print_nreads print_print)
qed

subsection \<open>The older sums\<close>

text \<open>The sum of Berkeley Unix rotates 16 bits to the right before each addition; the other one is the sum of the bytes, kept to 32 bits,
  modulo 65535, where a sum that is not 0 is reduced to 65535 instead of 0.\<close>

definition bsd_sum :: "byte list \<Rightarrow> u16" where
  "bsd_sum bs = foldl (\<lambda>s b. word_rotr 1 s + ucast b) 0 bs"

definition sysv_sum :: "byte list \<Rightarrow> nat" where
  "sysv_sum bs = (let n = sum_list (map unat bs) mod 2 ^ 32 in if n = 0 then 0 else Suc ((n - 1) mod 65535))"

lemma and_low16: "w AND 0xffff = take_bit 16 (w :: u32)"
  by (simp add: take_bit_eq_mask mask_eq_exp_minus_1)

lemma rotr16: "word_rotr 1 s = drop_bit 1 s + push_bit 15 s" for s :: u16
proof -
  have "word_rotr 1 s = drop_bit 1 s OR push_bit 15 s"
  proof (rule bit_word_eqI)
    fix i
    assume "i < LENGTH(16)"
    then have "i = 15 \<or> i < 15" by auto
    then show "bit (word_rotr 1 s) i = bit (drop_bit 1 s OR push_bit 15 s) i"
      by (auto simp: bit_word_rotr_iff bit_or_iff bit_drop_bit_eq bit_push_bit_iff dest: bit_imp_le_length)
  qed
  moreover have "drop_bit 1 s AND push_bit 15 s = 0"
    by (rule bit_word_eqI) (auto simp: bit_and_iff bit_drop_bit_eq bit_push_bit_iff dest: bit_imp_le_length)
  ultimately show ?thesis by (simp add: disjunctive_add_eq_or)
qed

lemma bsd_byte_step: "bsd_byte (ucast s) b = ucast (word_rotr 1 s + ucast b :: u16)"
proof -
  let ?n = "unat s div 2 + 32768 * (unat s mod 2) + unat b"
  have s: "unat s < 65536" using unsigned_less [of s, where 'a = nat] by simp
  have b: "unat b < 256" using unsigned_less [of b, where 'a = nat] by simp
  have "unat (push_bit 15 s) = 32768 * (unat s mod 2)"
    using mod_mult_mult2 [of "unat s" 32768 2] by (simp add: unat_word_ariths push_bit_eq_mult)
  moreover have "unat (drop_bit 1 s) = unat s div 2" by (simp add: drop_bit_eq_div unat_div)
  moreover have "unat (ucast b :: u16) = unat b" using b by (simp add: unsigned_ucast_eq take_bit_eq_mod)
  ultimately have rot: "unat (word_rotr 1 s + ucast b) = ?n mod 65536"
    unfolding rotr16 by (simp only: unat_word_ariths mod_simps) simp
  have "unat (push_bit 15 (ucast s AND 1 :: u32)) = 32768 * (unat s mod 2)"
    using s by (simp add: unat_word_ariths push_bit_eq_mult and_one_eq unat_mod unsigned_ucast_eq take_bit_eq_mod)
  moreover have "unat (drop_bit 1 (ucast s) :: u32) = unat s div 2"
    using s by (simp add: drop_bit_eq_div unat_div unsigned_ucast_eq take_bit_eq_mod)
  moreover have "unat (ucast b :: u32) = unat b" using b by (simp add: unsigned_ucast_eq take_bit_eq_mod)
  ultimately have "unat (bsd_byte (ucast s) b) = (?n mod 2 ^ 32) mod 65536"
    unfolding bsd_byte_def and_low16 unsigned_take_bit_eq take_bit_eq_mod by (simp only: unat_word_ariths mod_simps) simp
  with rot show ?thesis by (simp add: word_eq_iff_unsigned [where ?'a = nat] unsigned_ucast_eq take_bit_eq_mod mod_mod_cancel)
qed

lemma bsd_fold: "foldl bsd_byte (ucast s) bs = ucast (foldl (\<lambda>s b. word_rotr 1 s + ucast b) s bs)" for s :: u16
  by (induction bs arbitrary: s) (simp_all only: foldl.simps bsd_byte_step)

lemma sysv_add: "foldl (\<lambda>s b. s + ucast b) s (rev bs) = s + of_nat (sum_list (map unat bs))" for s :: u32
  by (induction bs arbitrary: s) (simp_all add: algebra_simps)

lemma sysv_fold_sum:
  assumes "n < 2 ^ 32"
  shows "unat (sysv_fold (of_nat n)) = (if n = 0 then 0 else Suc ((n - 1) mod 65535))"
proof -
  define a b where "a = n div 65536" and "b = n mod 65536"
  have n: "n = 65535 * a + (a + b)" "a < 65536" "b < 65536" using assms by (auto simp: a_def b_def)
  have low: "unat (w AND 0xffff) = unat w mod 65536" for w :: u32 by (simp add: and_low16 take_bit_eq_mod unat_mod)
  have high: "unat (drop_bit 16 w) = unat w div 65536" for w :: u32 by (simp add: drop_bit_eq_div unat_div)
  have all: "w AND 0xffffffff = w" for w :: u32
  proof -
    have "(0xffffffff :: u32) = - 1" by simp
    then show ?thesis by (simp only: and.right_neutral)
  qed
  define r :: u32 where "r = (of_nat n AND 0xffff) + drop_bit 16 (of_nat n AND 0xffffffff)"
  have w: "unat (of_nat n :: u32) = n" using assms by (simp add: unsigned_of_nat take_bit_nat_eq_self)
  have r: "unat r = a + b" unfolding r_def all using n(2,3) by (simp only: unat_word_ariths low high w) (simp add: a_def b_def)
  have "unat (sysv_fold (of_nat n)) = unat ((r AND 0xffff) + drop_bit 16 r)" by (simp add: sysv_fold_def r_def Let_def)
  also have "\<dots> = (a + b) mod 65536 + (a + b) div 65536" using n(2,3) by (simp only: unat_word_ariths low high r) simp
  also have "\<dots> = (if n = 0 then 0 else Suc ((n - 1) mod 65535))"
  proof (cases "a + b = 0")
    case False
    then have "n - 1 = (a + b - 1) + a * 65535" using n(1) by simp
    then have "(n - 1) mod 65535 = (a + b - 1) mod 65535" by (metis mod_mult_self1)
    moreover have "(a + b - 1) mod 65535 = (if a + b < 65536 then a + b - 1 else a + b - 65536)"
      using n(2,3) False by (auto simp: mod_if)
    moreover have "(a + b) mod 65536 + (a + b) div 65536 = (if a + b < 65536 then a + b else a + b - 65535)"
      using n(2,3) by (auto simp: mod_if div_if)
    moreover have "Suc (a + b - 65536) = a + b - 65535" if "\<not> a + b < 65536" using that by linarith
    ultimately show ?thesis using False n(1) by auto
  qed (use n in simp)
  finally show ?thesis .
qed

lemma sum_bound: "sum_list (map unat bs) \<le> 255 * length bs" for bs :: "byte list"
proof (induction bs)
  case (Cons b bs)
  then show ?case using unsigned_less [of b, where 'a = nat] by simp
qed simp

text \<open>Up to \<open>2 ^ 24\<close> bytes the 32 bits do not overflow.\<close>

lemma sysv_sum_small:
  assumes "length bs \<le> 2 ^ 24"
  shows "sysv_sum bs mod 65535 = sum_list (map unat bs) mod 65535"
proof -
  have "(if m = 0 then 0 else Suc ((m - 1) mod 65535)) mod 65535 = m mod 65535" for m :: nat
    by (cases m) (simp_all add: mod_Suc_eq)
  moreover have "sum_list (map unat bs) mod 2 ^ 32 = sum_list (map unat bs)" using sum_bound [of bs] assms by simp
  ultimately show ?thesis unfolding sysv_sum_def Let_def by (simp only:)
qed

text \<open>What is printed for a file.\<close>

definition sum_text :: "nat \<Rightarrow> string \<Rightarrow> byte list \<Rightarrow> string" where
  "sum_text type file bs =
     (if SUM_SYSV \<le> type then show_nat (sysv_sum bs) @ '' '' @ show_nat ((length bs + 511) div 512)
      else pad_left CHR ''0'' 5 (show_nat (unat (bsd_sum bs))) @ '' '' @ pad_left CHR '' '' 5 (show_nat ((length bs + 1023) div 1024)))
     @ '' '' @ (if type < PRINT_NAME then [] else file) @ [CHR 0x0A]"

interpretation sum_stream: stream_sum "sum_piece type" "(0, 0)"
    "\<lambda>m. (if SUM_SYSV \<le> type then of_nat (sum_list (map unat m)) else ucast (bsd_sum m), of_nat (length m))" for type
proof
  show "(if SUM_SYSV \<le> type then of_nat (sum_list (map unat (m @ p))) else ucast (bsd_sum (m @ p)), of_nat (length (m @ p)))
      = sum_piece type p (if SUM_SYSV \<le> type then of_nat (sum_list (map unat m)) else ucast (bsd_sum m), of_nat (length m))" for m p
    using bsd_fold [of "bsd_sum m" p] by (simp add: sum_piece_def sysv_add bsd_sum_def)
qed (simp add: bsd_sum_def)

lemma blocks: "n < 2 ^ 63 \<Longrightarrow> unat ((of_nat n + 511 :: u64) div 512) = (n + 511) div 512"
  "n < 2 ^ 63 \<Longrightarrow> unat ((of_nat n + 1023 :: u64) div 1024) = (n + 1023) div 1024"
  by (simp_all add: unat_div unat_word_ariths unsigned_of_nat take_bit_nat_eq_self)

lemma of_nat_mod32: "(of_nat (n mod 2 ^ 32) :: u32) = of_nat n"
  by (simp add: word_eq_iff_unsigned [where ?'a = nat] unsigned_of_nat take_bit_eq_mod)

lemma sum_file_text:
  assumes "reads_ok w" "0 < bufsiz" "open_or_warn_stdin file w = Some bs" "length bs < 2 ^ 63"
  shows "\<exists>n. sum_file bufsiz file type w = (True, print (sum_text type file bs) (consume file [] (w\<lparr>nreads := n\<rparr>)))"
proof -
  obtain n where n: "read_loop bufsiz (sum_piece type) bs w (0, 0) =
      (True, [], w\<lparr>nreads := n\<rparr>, if SUM_SYSV \<le> type then of_nat (sum_list (map unat bs)) else ucast (bsd_sum bs), of_nat (length bs))"
    using sum_stream.read_loop_sum [OF assms(1,2)] by blast
  have "unat (sysv_fold (of_nat (sum_list (map unat bs)))) = sysv_sum bs"
    using sysv_fold_sum [of "sum_list (map unat bs) mod 2 ^ 32"] by (simp add: sysv_sum_def of_nat_mod32 [simplified] Let_def)
  moreover have "unat (ucast (bsd_sum bs) :: u32) = unat (bsd_sum bs)"
    using unsigned_less [of "bsd_sum bs", where 'a = nat] by (simp add: unsigned_ucast_eq take_bit_nat_eq_self)
  ultimately show ?thesis using n assms(3) blocks [OF assms(4)]
    by (intro exI [of _ n]) (simp add: sum_file_def sum_line_def sum_text_def Let_def)
qed

subsection \<open>Properties\<close>

definition sample_files :: sum_world where
  "sample_files = \<lparr>files = [''a'' \<mapsto> bytes_of ''123456789''], stdin = bytes_of ''xyz'', read_env = \<lambda>t. Some (t mod 3), nreads = 0, stdout = []\<rparr>"

text \<open>
  C36: \<open>cksum\<close> prints a line for every file that can be opened, with its size and a sum that depends on the content alone, however the reads
  cut the file, and exits with 1 when a file could not be opened. The complement of the sum is the only 32-bit remainder of the message,
  followed by the octets of its length and 32 zero bits, on division by the polynomial 0x104C11DB7 over the field with two elements. The files are named (not \<open>-\<close>), their
  sizes fit a signed 64-bit integer, and no read fails.
\<close>

theorem cksum_remainder:
  assumes "reads_ok w" "0 < bufsz" "argv \<noteq> []" "small_files w argv"
  shows "(\<exists>n. cksum_main bufsz argv w
      = (if None \<in> files w ` set argv then 1 else 0, print (concat (map (cksum_text w) argv)) (w\<lparr>nreads := n\<rparr>)))
    \<and> ((\<exists>qs. gf2_mult qs crc_polynomial = push_bit 32 (message_number (bs @ length_bytes (length bs))) XOR unat r)
      \<longleftrightarrow> r = NOT (posix_crc bs))"
proof
  show "\<exists>n. cksum_main bufsz argv w
      = (if None \<in> files w ` set argv then 1 else 0, print (concat (map (cksum_text w) argv)) (w\<lparr>nreads := n\<rparr>))"
    using cksum_files_text [OF assms(1,2,4), of 0] assms(3) by (auto simp: cksum_main_def Let_def)
qed (rule posix_crc_remainder)

theorem cksum_remainder_witness:
  "fst (cksum_main 1025 [''a'', ''b''] sample_files) = 1 \<and> stdout (snd (cksum_main 1025 [''a'', ''b''] sample_files)) = ''930766865 9 a'' @ [CHR 0x0A]"
proof -
  have "reads_ok sample_files" "small_files sample_files [''a'', ''b'']"
    by (simp_all add: reads_ok_def small_files_def sample_files_def bytes_of_def)
  with cksum_remainder [of sample_files 1025 "[''a'', ''b'']"] obtain n where
    "cksum_main 1025 [''a'', ''b''] sample_files = (if None \<in> files sample_files ` set [''a'', ''b''] then 1 else 0,
       print (concat (map (cksum_text sample_files) [''a'', ''b''])) (sample_files\<lparr>nreads := n\<rparr>))" by auto
  moreover have "files sample_files ''b'' = None" "stdout sample_files = []" by (simp_all add: sample_files_def)
  moreover have "concat (map (cksum_text sample_files) [''a'', ''b'']) = ''930766865 9 a'' @ [CHR 0x0A]"
  proof -
    have "posix_crc (bytes_of ''123456789'') = 930766865" by code_simp
    moreover have "length (bytes_of ''123456789'') = 9" by (simp add: bytes_of_def)
    ultimately show ?thesis using digit_chars by (simp add: cksum_text_def sample_files_def show_nat.simps)
  qed
  ultimately show ?thesis by simp
qed

text \<open>
  C37: \<open>sum\<close> prints the rotated 16-bit sum of a file and its size in kilobytes, and with \<open>-s\<close> the sum of its bytes and its size in
  blocks of 512 bytes, however the reads cut it, for every file (not named \<open>-\<close>) whose size fits a signed 64-bit integer and whose reads do not fail. The sum of the bytes is kept to 32 bits and then reduced modulo
  65535; so it is the sum modulo 65535 for files of up to \<open>2 ^ 24\<close> bytes (\<open>sysv_sum_small\<close>), and wraps around first for larger ones. With \<open>-s\<close> and no file the line ends in
  a dash, the name that should not be printed.
\<close>

theorem sum_values:
  assumes "reads_ok w" "0 < bufsiz" "f \<noteq> ''-''" "files w f = Some bs" "length bs < 2 ^ 63" "length (stdin w) < 2 ^ 63"
  shows "\<exists>i j k. sum_main bufsiz False False [f] w = (0, print (sum_text SUM_BSD f bs) (w\<lparr>nreads := i\<rparr>))
    \<and> sum_main bufsiz True False [f] w = (0, print (sum_text (SUM_SYSV + 1) f bs) (w\<lparr>nreads := j\<rparr>))
    \<and> sum_main bufsiz True False [] w = (0, print (show_nat (sysv_sum (stdin w)) @ '' '' @ show_nat ((length (stdin w) + 511) div 512) @ '' -'' @ [CHR 0x0A])
          (w\<lparr>nreads := k, stdin := []\<rparr>))"
proof -
  have f: "open_or_warn_stdin f w = Some bs" and d: "open_or_warn_stdin ''-'' w = Some (stdin w)"
    using assms(3,4) by (simp_all add: open_or_warn_stdin_def)
  obtain i where "sum_file bufsiz f SUM_BSD w = (True, print (sum_text SUM_BSD f bs) (consume f [] (w\<lparr>nreads := i\<rparr>)))"
    using sum_file_text [OF assms(1,2) f assms(5)] by blast
  moreover obtain j where "sum_file bufsiz f (SUM_SYSV + 1) w = (True, print (sum_text (SUM_SYSV + 1) f bs) (consume f [] (w\<lparr>nreads := j\<rparr>)))"
    using sum_file_text [OF assms(1,2) f assms(5)] by blast
  moreover obtain k where "sum_file bufsiz ''-'' SUM_SYSV w = (True, print (sum_text SUM_SYSV ''-'' (stdin w)) (consume ''-'' [] (w\<lparr>nreads := k\<rparr>)))"
    using sum_file_text [OF assms(1,2) d assms(6)] by blast
  ultimately show ?thesis using assms(3)
    by (intro exI [of _ i] exI [of _ j] exI [of _ k])
      (simp add: sum_main_def consume_def sum_text_def SUM_SYSV_def SUM_BSD_def PRINT_NAME_def)
qed

theorem sum_values_witness:
  "\<exists>w' w''. sum_main 1024 False False [''a''] sample_files = (0, w') \<and> stdout w' = ''53615     1 '' @ [CHR 0x0A]
   \<and> sum_main 1024 True False [] sample_files = (0, w'') \<and> stdout w'' = ''363 1 -'' @ [CHR 0x0A]"
proof -
  have "reads_ok sample_files" by (simp add: reads_ok_def sample_files_def)
  moreover have "files sample_files ''a'' = Some (bytes_of ''123456789'')" "stdin sample_files = bytes_of ''xyz''" "stdout sample_files = []"
    by (simp_all add: sample_files_def)
  moreover have "length (bytes_of ''123456789'') < 2 ^ 63" "length (bytes_of ''xyz'') < 2 ^ 63" by (simp_all add: bytes_of_def)
  moreover have "sum_text SUM_BSD ''a'' (bytes_of ''123456789'') = ''53615     1 '' @ [CHR 0x0A]"
  proof -
    have "bsd_sum (bytes_of ''123456789'') = 53615" by code_simp
    moreover have "length (bytes_of ''123456789'') = 9" by (simp add: bytes_of_def)
    moreover have "replicate 4 CHR '' '' = ''    ''" by (simp add: numeral_eq_Suc)
    ultimately show ?thesis using digit_chars
      by (simp add: sum_text_def SUM_BSD_def SUM_SYSV_def PRINT_NAME_def show_nat.simps pad_left_def)
  qed
  moreover have "show_nat (sysv_sum (bytes_of ''xyz'')) @ '' '' @ show_nat ((length (bytes_of ''xyz'') + 511) div 512) @ '' -'' @ [CHR 0x0A] = ''363 1 -'' @ [CHR 0x0A]"
  proof -
    have "sysv_sum (bytes_of ''xyz'') = 363" by (simp add: sysv_sum_def bytes_of_def)
    moreover have "length (bytes_of ''xyz'') = 3" by (simp add: bytes_of_def)
    ultimately show ?thesis using digit_chars by (simp add: show_nat.simps)
  qed
  ultimately show ?thesis
    using sum_values [of sample_files 1024 "''a''" "bytes_of ''123456789''"] by (fastforce simp: print_def)
qed

end
