(* ===== verification/Uucode.thy ===== *)
theory Uucode
  imports Stream_IO
begin

text \<open>
  \<^verbatim>\<open>busybox/libbb/uuencode.c\<close>, \<^verbatim>\<open>coreutils/uuencode.c\<close> and \<^verbatim>\<open>coreutils/uudecode.c\<close>: the two encodings of binary files as text. Characters are
  unsigned, as the build asks for. The mode of a file, the file mode mask and the files that can be created are parameters; the options
  have been read.
\<close>

subsection \<open>The tables\<close>

definition bb_uuenc_tbl_base64 :: string where
  "bb_uuenc_tbl_base64 = ''ABCDEFGHIJKLMNOPQRSTUVWXYZabcdefghijklmnopqrstuvwxyz0123456789+/='' @ [CHR 0x0A, CHR 0x00]"

definition bb_uuenc_tbl_std :: string where
  "bb_uuenc_tbl_std = ''`!'' @ CHR 0x22 # ''#$%&'' @ CHR 0x27 # ''()*+,-./0123456789:;<=>?@ABCDEFGHIJKLMNOPQRSTUVWXYZ['' @ CHR 0x5C # '']^_`''"

subsection \<open>Encoding a buffer\<close>

definition quad :: "string \<Rightarrow> byte \<Rightarrow> byte \<Rightarrow> byte \<Rightarrow> string" where
  "quad tbl s0 s1 s2 =
     [tbl ! unat (drop_bit 2 s0), tbl ! unat (push_bit 4 (s0 AND 3) + drop_bit 4 s1),
      tbl ! unat (push_bit 2 (s1 AND 0xf) + drop_bit 6 s2), tbl ! unat (s2 AND 0x3f)]"

text \<open>The loop: the characters and what is left of the length, 0, -1 or -2.\<close>

fun quads :: "string \<Rightarrow> byte list \<Rightarrow> string \<times> int" where
  "quads tbl [] = ([], 0)"
| "quads tbl [s0] = (quad tbl s0 0 0, -2)"
| "quads tbl [s0, s1] = (quad tbl s0 s1 0, -1)"
| "quads tbl (s0 # s1 # s2 # s) = (case quads tbl s of (p, len) \<Rightarrow> (quad tbl s0 s1 s2 @ p, len))"

definition bb_uuencode :: "string \<Rightarrow> byte list \<Rightarrow> string" where
  "bb_uuencode tbl s = (case quads tbl s of (p, len) \<Rightarrow> take (length p - nat (- len)) p @ replicate (nat (- len)) (tbl ! 64))"

subsection \<open>uuencode\<close>

function full_read :: "nat \<Rightarrow> byte list \<Rightarrow> byte list \<Rightarrow> sum_world \<Rightarrow> byte list option \<times> sum_world" where
  "full_read len buf rest w =
     (if len = 0 then (Some buf, w)
      else case safe_read len rest w of
        (None, w') \<Rightarrow> (if buf \<noteq> [] then Some buf else None, w')
      | (Some p, w') \<Rightarrow> if p = [] then (Some buf, w') else full_read (len - length p) (buf @ p) (drop (length p) rest) w')"
  by pat_completeness auto
termination
  by (relation "measure (\<lambda>(len, buf, rest, w). length rest)") (auto simp: safe_read_def map_option_case split: option.splits)

declare full_read.simps [simp del]

lemma full_read_prefix: "full_read len buf rest w = (Some q, w') \<Longrightarrow> \<exists>n. q = buf @ take n rest"
proof (induction len buf rest w rule: full_read.induct)
  case (1 len buf rest w)
  show ?case
  proof (cases "len = 0 \<or> fst (safe_read len rest w) = None \<or> fst (safe_read len rest w) = Some []")
    case True
    then have "q = buf @ take 0 rest" using 1(2) by (subst (asm) full_read.simps) (auto split: prod.splits option.splits if_splits)
    then show ?thesis by blast
  next
    case False
    then obtain p w1 where p: "safe_read len rest w = (Some p, w1)" "p \<noteq> []" "len \<noteq> 0" by (cases "safe_read len rest w") auto
    then obtain n where n: "q = (buf @ p) @ take n (drop (length p) rest)" using 1 by (subst (asm) (2) full_read.simps) auto
    obtain m where "p = take m rest" using p(1) by (auto simp: safe_read_def)
    then have "p = take (length p) rest" by simp (metis append_eq_conv_conj append_take_drop_id length_take)
    then have "q = buf @ take (length p + n) rest" using n by (simp add: take_add)
    then show ?thesis by blast
  qed
qed

lemma full_read_some: "(Some q, w') = full_read len [] rest w \<Longrightarrow> q \<noteq> [] \<Longrightarrow> rest \<noteq> []"
  by (drule sym) (auto dest: full_read_prefix)

definition SRC_BUF_SIZE :: nat where "SRC_BUF_SIZE = 45"

function uuencode_loop :: "string \<Rightarrow> byte list \<Rightarrow> sum_world \<Rightarrow> bool \<times> byte list \<times> sum_world" where
  "uuencode_loop tbl rest w =
     (case full_read SRC_BUF_SIZE [] rest w of
        (None, w') \<Rightarrow> (False, rest, w')
      | (Some src_buf, w') \<Rightarrow>
          if src_buf = [] then (True, rest, w')
          else uuencode_loop tbl (drop (length src_buf) rest)
            (print ([CHR 0x0A] @ (if tbl = bb_uuenc_tbl_std then [tbl ! length src_buf] else []) @ bb_uuencode tbl src_buf) w'))"
  by pat_completeness auto
termination
  by (relation "measure (\<lambda>(tbl, rest, w). length rest)") (auto dest: full_read_some)

declare uuencode_loop.simps [simp del]

fun show_oct :: "nat \<Rightarrow> string" where
  "show_oct n = (if n < 8 then [digit_char n] else show_oct (n div 8) @ [digit_char (n mod 8)])"

declare show_oct.simps [simp del]

text \<open>One argument names the file for the decoder, two the file to read and that name.\<close>

definition uuencode_main :: "(string \<Rightarrow> u32) \<Rightarrow> u32 \<Rightarrow> bool \<Rightarrow> string list \<Rightarrow> sum_world \<Rightarrow> int \<times> sum_world" where
  "uuencode_main st_mode_of umask opt_m argv w =
     (let tbl = (if opt_m then bb_uuenc_tbl_base64 else bb_uuenc_tbl_std);
          src = (if tl argv \<noteq> [] then files w (hd argv) else Some (stdin w));
          mode = (if tl argv \<noteq> [] then st_mode_of (hd argv) AND 0x1ff else 0x1b6 AND NOT umask);
          name = (if tl argv \<noteq> [] then argv ! 1 else hd argv) in
      case src of
        None \<Rightarrow> (1, w)
      | Some bs \<Rightarrow>
          (case uuencode_loop tbl bs (print (''begin'' @ (if opt_m then ''-base64'' else []) @ '' '' @ show_oct (unat mode) @ '' '' @ name) w) of
             (ok, rest, w') \<Rightarrow>
               let w'' = (if tl argv \<noteq> [] then w' else w'\<lparr>stdin := rest\<rparr>) in
               if ok then (0, print (if opt_m then [CHR 0x0A] @ ''===='' @ [CHR 0x0A] else [CHR 0x0A] @ ''`'' @ [CHR 0x0A] @ ''end'' @ [CHR 0x0A]) w'')
               else (1, w'')))"

subsection \<open>The standard format\<close>

definition byte_of :: "char \<Rightarrow> byte" where
  "byte_of c = of_char c"

text \<open>The characters of a line as numbers of six bits; the terminating zero stays.\<close>

definition six_of :: "char \<Rightarrow> byte" where
  "six_of c = (byte_of c - 0x20) AND 0x3f"

definition sixbits :: "string \<Rightarrow> byte list" where
  "sixbits line = map six_of line @ [0]"

definition merge1 :: "byte \<Rightarrow> byte \<Rightarrow> byte" where "merge1 a b = push_bit 2 a OR drop_bit 4 b"
definition merge2 :: "byte \<Rightarrow> byte \<Rightarrow> byte" where "merge2 a b = push_bit 4 a OR drop_bit 2 b"
definition merge3 :: "byte \<Rightarrow> byte \<Rightarrow> byte" where "merge3 a b = push_bit 6 a OR b"

text \<open>The loop over the groups of four characters of a line from \<open>line_ptr\<close> on.\<close>

function decode_groups :: "byte list \<Rightarrow> nat \<Rightarrow> int \<Rightarrow> byte list" where
  "decode_groups line line_ptr encoded_len =
     merge1 (line ! line_ptr) (line ! (line_ptr + 1)) #
       (if encoded_len - 1 = 0 then []
        else merge2 (line ! (line_ptr + 1)) (line ! (line_ptr + 2)) #
          (if encoded_len - 2 = 0 then []
           else merge3 (line ! (line_ptr + 2)) (line ! (line_ptr + 3)) #
             (if 0 < encoded_len - 4 then decode_groups line (line_ptr + 4) (encoded_len - 4) else [])))"
  by pat_completeness auto
termination by (relation "measure (\<lambda>(line, p, n). nat n)") auto

declare decode_groups.simps [simp del]

datatype uu_error = Short_File | Line_Too_Long | No_Begin | No_Input | No_Output

text \<open>What was written, and \<open>None\<close> or the message the program died with.\<close>

function read_stduu :: "string \<Rightarrow> byte list \<Rightarrow> uu_error option \<times> byte list" where
  "read_stduu src out =
     (case xmalloc_fgetline src of
        None \<Rightarrow> (Some Short_File, out)
      | Some (line, rest) \<Rightarrow>
          if strcmp line ''end'' = 0 then (None, out)
          else let six = sixbits line; str_len = int (length line); encoded_len = int (unat (six ! 0)) * 4 div 3 in
            if str_len \<le> encoded_len then (Some Short_File, out)
            else if encoded_len \<le> 0 then read_stduu rest out
            else if 60 < encoded_len then (Some Line_Too_Long, out)
            else read_stduu rest (out @ decode_groups six 1 encoded_len))"
  by pat_completeness auto
termination
  by (relation "measure (\<lambda>(src, out). length src)")
    (auto simp: xmalloc_fgetline_def split: if_splits prod.splits dest: bb_get_chunk_rest)

declare read_stduu.simps [simp del]

subsection \<open>The format with base 64\<close>

text \<open>The position that \<open>strchr\<close> finds; it also finds the terminating zero of the table.\<close>

fun strchr_at :: "string \<Rightarrow> char \<Rightarrow> nat option" where
  "strchr_at [] c = None"
| "strchr_at (x # xs) c = (if x = c then Some 0 else map_option Suc (strchr_at xs c))"

definition merge_quad :: "byte list \<Rightarrow> byte list" where
  "merge_quad t =
     (if 1 < length t then [merge1 (t ! 0) (t ! 1)] else []) @ (if 2 < length t then [merge2 (t ! 1) (t ! 2)] else [])
     @ (if 3 < length t then [merge3 (t ! 2) (t ! 3)] else [])"

text \<open>One step for each character; \<open>translated\<close> holds the \<open>count\<close> digits of the group so far.\<close>

fun read_base64 :: "string \<Rightarrow> nat \<Rightarrow> byte list \<Rightarrow> byte list \<Rightarrow> uu_error option \<times> byte list" where
  "read_base64 [] term_count translated out = (Some Short_File, out)"
| "read_base64 (ch # src) term_count translated out =
     (case strchr_at bb_uuenc_tbl_base64 ch of
        None \<Rightarrow> read_base64 src term_count translated out
      | Some i \<Rightarrow>
          if ch = CHR ''='' then
            (if term_count = 0 then read_base64 src term_count [] (out @ merge_quad translated)
             else read_base64 src (term_count + 1) translated out)
          else if ch = CHR 0x0A then
            (if term_count = 5 then (None, out) else read_base64 src 1 translated out)
          else let translated = translated @ [of_nat i] in
            if length translated < 4 then read_base64 src 0 translated out
            else read_base64 src 0 [] (out @ merge_quad translated))"

subsection \<open>uudecode\<close>

definition isalnum_c :: "char \<Rightarrow> bool" where
  "isalnum_c c \<longleftrightarrow> isdigit_c c \<or> (65 \<le> (of_char c :: nat) \<and> (of_char c :: nat) \<le> 90) \<or> (97 \<le> (of_char c :: nat) \<and> (of_char c :: nat) \<le> 122)"

fun octal :: "nat \<Rightarrow> string \<Rightarrow> nat \<times> string" where
  "octal acc [] = (acc, [])"
| "octal acc (c # cs) = (if isdigit_c c \<and> digit_val c < 8 then octal (8 * acc + nat (digit_val c)) cs else (acc, c # cs))"

text \<open>\<open>bb_strtou\<close> with base 8 on a 32-bit machine, where it is \<open>bb_strtoul\<close>; all ones for an error.\<close>

definition bb_strtou8 :: "string \<Rightarrow> u32" where
  "bb_strtou8 arg =
     (case arg of [] \<Rightarrow> - 1
      | c # _ \<Rightarrow> if \<not> isalnum_c c then - 1
          else case octal 0 arg of (v, endptr) \<Rightarrow>
            if 2 ^ 32 \<le> v \<or> endptr \<noteq> [] \<and> isalnum_c (hd endptr) then - 1 else of_nat v)"

definition strchr_after :: "string \<Rightarrow> char \<Rightarrow> string option" where
  "strchr_after s c = (case dropWhile (\<lambda>x. x \<noteq> c) s of [] \<Rightarrow> None | _ # r \<Rightarrow> Some r)"

text \<open>Where the data went: the file and the mode it was given, or standard output.\<close>

datatype uu_dest = To_stdout | To_file string u32

definition decode_to :: "(string \<Rightarrow> bool) \<Rightarrow> bool \<Rightarrow> string \<Rightarrow> u32 \<Rightarrow> string \<Rightarrow> uu_error option \<times> (uu_dest \<times> byte list) option" where
  "decode_to creatable base64 outname mode rest =
     (if outname \<noteq> ''-'' \<and> \<not> creatable outname then (Some No_Output, None)
      else case (if base64 then read_base64 rest 1 [] [] else read_stduu rest []) of (r, out) \<Rightarrow>
        (r, Some (if outname \<noteq> ''-'' then To_file outname (mode AND 0x1ff) else To_stdout, out)))"

function uudecode_loop :: "(string \<Rightarrow> bool) \<Rightarrow> string option \<Rightarrow> string \<Rightarrow> uu_error option \<times> (uu_dest \<times> byte list) option" where
  "uudecode_loop creatable outname src =
     (case xmalloc_fgetline src of
        None \<Rightarrow> (Some No_Begin, None)
      | Some (line, rest) \<Rightarrow>
          let base64 = strncmp_eq line ''begin-base64 '' 13 in
          if \<not> base64 \<and> \<not> strncmp_eq line ''begin '' 6 then uudecode_loop creatable outname rest
          else let line_ptr = drop (if base64 then 13 else 6) line; mode = bb_strtou8 line_ptr in
            case (case outname of None \<Rightarrow> strchr_after line_ptr CHR '' '' | _ \<Rightarrow> outname) of
              None \<Rightarrow> (Some No_Begin, None)
            | Some outname \<Rightarrow> decode_to creatable base64 outname mode rest)"
  by pat_completeness auto
termination
  by (relation "measure (\<lambda>(c, o', src). length src)")
    (auto simp: xmalloc_fgetline_def split: if_splits prod.splits dest: bb_get_chunk_rest)

declare uudecode_loop.simps [simp del]

definition uudecode_main :: "(string \<Rightarrow> bool) \<Rightarrow> string option \<Rightarrow> string list \<Rightarrow> sum_world \<Rightarrow> uu_error option \<times> (uu_dest \<times> byte list) option" where
  "uudecode_main creatable outname argv w =
     (case open_or_warn_stdin (if argv = [] then ''-'' else hd argv) w of
        None \<Rightarrow> (Some No_Input, None)
      | Some bs \<Rightarrow> uudecode_loop creatable outname (text_of bs))"

end
