(* ===== verification/Uucode_Props.thy ===== *)
theory Uucode_Props
  imports Uucode
begin

text \<open>
  Decoding inverts encoding: the bits of a group, the groups of a line, the lines of a file, and the file with its first line.
\<close>

subsection \<open>Groups\<close>

definition digit_a :: "byte \<Rightarrow> byte" where "digit_a s0 = drop_bit 2 s0"
definition digit_b :: "byte \<Rightarrow> byte \<Rightarrow> byte" where "digit_b s0 s1 = push_bit 4 (s0 AND 3) + drop_bit 4 s1"
definition digit_c :: "byte \<Rightarrow> byte \<Rightarrow> byte" where "digit_c s1 s2 = push_bit 2 (s1 AND 0xf) + drop_bit 6 s2"
definition digit_d :: "byte \<Rightarrow> byte" where "digit_d s2 = s2 AND 0x3f"

lemmas digit_defs = digit_a_def digit_b_def digit_c_def digit_d_def

lemma less8: "i < 8 \<longleftrightarrow> i \<in> {0, 1, 2, 3, 4, 5, 6, 7 :: nat}"
  by auto

lemma low_masks: "s AND 3 = take_bit 2 s" "s AND 0xf = take_bit 4 s" "s AND 0x3f = take_bit 6 s" for s :: byte
  by (simp_all add: take_bit_eq_mask mask_eq_exp_minus_1)

lemma digit_or:
  "digit_b s0 s1 = push_bit 4 (take_bit 2 s0) OR drop_bit 4 s1" "digit_c s1 s2 = push_bit 2 (take_bit 4 s1) OR drop_bit 6 s2"
proof -
  have "push_bit 4 (take_bit 2 s0) AND drop_bit 4 s1 = 0" "push_bit 2 (take_bit 4 s1) AND drop_bit 6 s2 = 0"
    by (rule bit_word_eqI; auto simp: bit_and_iff bit_push_bit_iff bit_drop_bit_eq bit_take_bit_iff dest: bit_imp_le_length)+
  then show "digit_b s0 s1 = push_bit 4 (take_bit 2 s0) OR drop_bit 4 s1" "digit_c s1 s2 = push_bit 2 (take_bit 4 s1) OR drop_bit 6 s2"
    by (simp_all only: digit_b_def digit_c_def low_masks disjunctive_add_eq_or)
qed

lemma bit_digits:
  "bit (digit_a s0) i \<longleftrightarrow> bit s0 (i + 2)"
  "bit (digit_b s0 s1) i \<longleftrightarrow> (4 \<le> i \<and> i < 6 \<and> bit s0 (i - 4)) \<or> bit s1 (i + 4)"
  "bit (digit_c s1 s2) i \<longleftrightarrow> (2 \<le> i \<and> i < 6 \<and> bit s1 (i - 2)) \<or> bit s2 (i + 6)"
  "bit (digit_d s2) i \<longleftrightarrow> i < 6 \<and> bit s2 i"
  by (auto simp: digit_a_def digit_d_def digit_or low_masks bit_or_iff bit_push_bit_iff bit_drop_bit_eq bit_take_bit_iff add.commute)

lemma six_bits: "(\<And>i. bit x i \<Longrightarrow> i < 6) \<Longrightarrow> unat x < 64" for x :: byte
proof -
  assume *: "\<And>i. bit x i \<Longrightarrow> i < 6"
  then have "x = take_bit 6 x" by (intro bit_word_eqI) (auto simp: bit_take_bit_iff)
  then have "unat x = take_bit 6 (unat x)" by (metis unsigned_take_bit_eq)
  then show ?thesis using take_bit_nat_less_exp [of 6 "unat x"] by simp
qed

lemma digits_small: "unat (digit_a s0) < 64" "unat (digit_b s0 s1) < 64" "unat (digit_c s1 s2) < 64" "unat (digit_d s2) < 64"
  by (rule six_bits, auto simp: bit_digits dest: bit_imp_le_length)+

lemma merges [simp]: "merge1 (digit_a s0) (digit_b s0 s1) = s0" "merge2 (digit_b s0 s1) (digit_c s1 s2) = s1" "merge3 (digit_c s1 s2) (digit_d s2) = s2"
proof -
  note defs = merge1_def merge2_def merge3_def bit_or_iff bit_push_bit_iff bit_drop_bit_eq bit_digits
  show "merge1 (digit_a s0) (digit_b s0 s1) = s0"
  proof (rule bit_word_eqI)
    fix i
    show "bit (merge1 (digit_a s0) (digit_b s0 s1)) i = bit s0 i"
      by (cases "2 \<le> i") (auto simp: defs simp del: add_2_eq_Suc add_2_eq_Suc' dest: bit_imp_le_length)
  qed
  show "merge2 (digit_b s0 s1) (digit_c s1 s2) = s1"
    by (rule bit_word_eqI) (auto simp: defs dest: bit_imp_le_length)
  show "merge3 (digit_c s1 s2) (digit_d s2) = s2"
    by (rule bit_word_eqI) (auto simp: defs dest: bit_imp_le_length)
qed

text \<open>The digits of a buffer without the padding.\<close>

fun digits64 :: "byte list \<Rightarrow> byte list" where
  "digits64 [] = []"
| "digits64 [s0] = [digit_a s0, digit_b s0 0]"
| "digits64 [s0, s1] = [digit_a s0, digit_b s0 s1, digit_c s1 0]"
| "digits64 (s0 # s1 # s2 # s) = [digit_a s0, digit_b s0 s1, digit_c s1 s2, digit_d s2] @ digits64 s"

definition padding :: "byte list \<Rightarrow> nat" where
  "padding s = (3 - length s mod 3) mod 3"

lemma padding_simps [simp]: "padding [] = 0" "padding [a] = 2" "padding [a, b] = 1" "padding (a # b # c # s) = padding s"
  by (simp_all add: padding_def)

lemma quad_digits: "quad tbl s0 s1 s2 = map (\<lambda>x. tbl ! unat x) [digit_a s0, digit_b s0 s1, digit_c s1 s2, digit_d s2]"
  by (simp add: quad_def digit_defs)

lemma quads_padding: "snd (quads tbl s) = - int (padding s) \<and> padding s \<le> length (fst (quads tbl s))"
  by (induction tbl s rule: quads.induct) (auto simp: quad_def split: prod.splits)

lemma uuencode_digits: "bb_uuencode tbl s = map (\<lambda>x. tbl ! unat x) (digits64 s) @ replicate (padding s) (tbl ! 64)"
proof (induction tbl s rule: quads.induct)
  case (4 tbl s0 s1 s2 s)
  then show ?case using quads_padding [of tbl s]
    by (auto simp: bb_uuencode_def quad_digits Suc_diff_le split: prod.splits)
qed (simp_all add: bb_uuencode_def quad_digits numeral_2_eq_2)

lemma digits64_small: "x \<in> set (digits64 s) \<Longrightarrow> unat x < 64"
  by (induction s rule: digits64.induct) (auto simp: digits_small)

lemma length_digits64: "int (length s) * 4 div 3 \<le> int (length (digits64 s))"
  by (induction s rule: digits64.induct) auto

subsection \<open>Lines of the standard format\<close>

lemma std_table:
  "list_all (\<lambda>n. six_of (bb_uuenc_tbl_std ! n) = of_nat n mod 64 \<and> bb_uuenc_tbl_std ! n \<notin> {CHR ''e'', CHR 0x00, CHR 0x0A}) [0..<65]"
  by code_simp

lemma std_digit:
  assumes "unat x < 64"
  shows "six_of (bb_uuenc_tbl_std ! unat x) = x"
proof -
  have "unat x \<in> set [0..<65]" using assms by simp
  with std_table have "six_of (bb_uuenc_tbl_std ! unat x) = of_nat (unat x) mod 64" unfolding list_all_iff by blast
  then show ?thesis using assms by (simp add: word_eq_iff_unsigned [where ?'a = nat] unat_mod)
qed

lemma sixbits_uuencode: "sixbits (bb_uuencode bb_uuenc_tbl_std s) = digits64 s @ replicate (Suc (padding s)) 0"
proof -
  have "map six_of (map (\<lambda>x. bb_uuenc_tbl_std ! unat x) (digits64 s)) = digits64 s"
    using std_digit digits64_small [of _ s] by (simp add: map_idI)
  moreover have "six_of (bb_uuenc_tbl_std ! 64) = 0" by code_simp
  ultimately show ?thesis by (simp add: sixbits_def uuencode_digits replicate_app_Cons_same)
qed

lemma decode_digits:
  assumes "s \<noteq> []"
  shows "decode_groups (pre @ digits64 s @ replicate (Suc (padding s)) 0) (length pre) (int (length s) * 4 div 3) = s"
  using assms
proof (induction s arbitrary: pre rule: digits64.induct)
  case (4 s0 s1 s2 s)
  let ?line = "pre @ digits64 (s0 # s1 # s2 # s) @ replicate (Suc (padding (s0 # s1 # s2 # s))) 0"
  have line: "?line = (pre @ [digit_a s0, digit_b s0 s1, digit_c s1 s2, digit_d s2]) @ digits64 s @ replicate (Suc (padding s)) 0" by simp
  have len: "int (length (s0 # s1 # s2 # s)) * 4 div 3 = int (length s) * 4 div 3 + 4" by simp
  show ?case
  proof (cases "s = []")
    case True
    then show ?thesis by (simp add: decode_groups.simps [of _ "length pre"] nth_append)
  next
    case False
    then have pos: "0 < int (length s) * 4 div 3" by (cases s) auto
    from "4.IH" [of "pre @ [digit_a s0, digit_b s0 s1, digit_c s1 s2, digit_d s2]"] False
    have "decode_groups ?line (length pre + 4) (int (length s) * 4 div 3) = s" unfolding line by (simp add: numeral_eq_Suc)
    then show ?thesis using pos unfolding len by (simp add: decode_groups.simps [of _ "length pre"] nth_append)
  qed
qed (simp_all add: decode_groups.simps nth_append)

definition std_line :: "byte list \<Rightarrow> string" where
  "std_line s = bb_uuenc_tbl_std ! length s # bb_uuencode bb_uuenc_tbl_std s"

lemma std_chars: "n < 65 \<Longrightarrow> bb_uuenc_tbl_std ! n \<notin> {CHR ''e'', CHR 0x00, CHR 0x0A}"
  using std_table unfolding list_all_iff by auto

lemma std_line_plain:
  assumes "length s \<le> 45"
  shows "plain (std_line s)" "hd (std_line s) \<noteq> CHR ''e''"
proof -
  have "set (std_line s) \<subseteq> (\<lambda>n. bb_uuenc_tbl_std ! n) ` {..<65}"
    using assms digits64_small [of _ s] by (fastforce simp: std_line_def uuencode_digits)
  with std_chars show "plain (std_line s)" by (fastforce simp: plain_def)
  show "hd (std_line s) \<noteq> CHR ''e''" using std_chars [of "length s"] assms by (simp add: std_line_def)
qed

lemma not_end: "plain l \<Longrightarrow> hd l \<noteq> CHR ''e'' \<Longrightarrow> strcmp l ''end'' \<noteq> 0"
  by (subst strcmp_0) (auto simp: plain_def)

lemma read_std_line:
  assumes "length s \<le> 45" "s \<noteq> []"
  shows "read_stduu (std_line s @ CHR 0x0A # rest) out = read_stduu rest (out @ s)"
proof -
  have small: "length s < 65" "unat (of_nat (length s) :: byte) = length s" "uint (of_nat (length s) :: byte) = int (length s)"
    using assms by (simp_all add: unsigned_of_nat take_bit_nat_eq_self)
  have six: "sixbits (std_line s) = of_nat (length s) # digits64 s @ replicate (Suc (padding s)) 0"
    using std_digit [of "of_nat (length s)"] assms small sixbits_uuencode [of s] by (simp add: std_line_def sixbits_def)
  have "0 < length s" "length s \<le> 45" using assms by simp_all
  then have e: "0 < int (length s) * 4 div 3" "int (length s) * 4 div 3 \<le> 60" by linarith+
  have "int (length (std_line s)) > int (length s) * 4 div 3" using length_digits64 [of s] by (simp add: std_line_def uuencode_digits)
  moreover have "decode_groups (sixbits (std_line s)) 1 (int (length s) * 4 div 3) = s"
    using decode_digits [OF assms(2), of "[of_nat (length s)]"] by (simp add: six)
  ultimately show ?thesis
    using e small std_line_plain [OF assms(1)] not_end
    by (subst read_stduu.simps) (simp add: fgetline_line six Let_def)
qed

lemma read_std_lines:
  "\<forall>s \<in> set ss. s \<noteq> [] \<and> length s \<le> 45 \<Longrightarrow>
    read_stduu (concat (map (\<lambda>s. std_line s @ [CHR 0x0A]) ss) @ ''`'' @ CHR 0x0A # ''end'' @ [CHR 0x0A]) out = (None, out @ concat ss)"
proof (induction ss arbitrary: out)
  case Nil
  have "plain ''`''" "plain ''end''" "strcmp ''end'' ''end'' = 0" "strcmp ''`'' ''end'' \<noteq> 0" by (auto simp: plain_def)
  moreover have "sixbits ''`'' = [0, 0]" by code_simp
  ultimately show ?case
    using fgetline_line [of "''`''" "''end'' @ [CHR 0x0A]"] fgetline_line [of "''end''" "[]"] by (simp add: read_stduu.simps)
qed (simp add: read_std_line)

subsection \<open>Lines with base 64\<close>

lemma base64_table:
  "list_all (\<lambda>n. strchr_at bb_uuenc_tbl_base64 (bb_uuenc_tbl_base64 ! n) = Some n \<and> bb_uuenc_tbl_base64 ! n \<notin> {CHR ''='', CHR 0x0A}) [0..<64]"
  "strchr_at bb_uuenc_tbl_base64 CHR ''='' = Some 64" "strchr_at bb_uuenc_tbl_base64 CHR 0x0A = Some 65" "bb_uuenc_tbl_base64 ! 64 = CHR ''=''"
  by code_simp+

lemma read_digit:
  assumes "unat x < 64"
  shows "read_base64 (bb_uuenc_tbl_base64 ! unat x # src) t ds out =
    (if length ds < 3 then read_base64 src 0 (ds @ [x]) out else read_base64 src 0 [] (out @ merge_quad (ds @ [x])))"
proof -
  have "unat x \<in> set [0..<64]" using assms by simp
  with base64_table(1) have "strchr_at bb_uuenc_tbl_base64 (bb_uuenc_tbl_base64 ! unat x) = Some (unat x)"
    "bb_uuenc_tbl_base64 ! unat x \<noteq> CHR ''=''" "bb_uuenc_tbl_base64 ! unat x \<noteq> CHR 0x0A"
    unfolding list_all_iff by blast+
  then show ?thesis by (simp add: Let_def)
qed

lemma read_pad: "read_base64 (CHR ''='' # src) 0 ds out = read_base64 src 0 [] (out @ merge_quad ds)"
  by (simp add: base64_table)

lemma read_newline: "t \<noteq> 5 \<Longrightarrow> read_base64 (CHR 0x0A # src) t ds out = read_base64 src 1 ds out"
  by (simp add: base64_table)

lemma read_base64_line:
  "s \<noteq> [] \<Longrightarrow> read_base64 (bb_uuencode bb_uuenc_tbl_base64 s @ src) t [] out = read_base64 src 0 [] (out @ s)"
proof (induction s arbitrary: t out rule: digits64.induct)
  case (4 s0 s1 s2 s)
  have "read_base64 (bb_uuencode bb_uuenc_tbl_base64 (s0 # s1 # s2 # s) @ src) t [] out
      = read_base64 (bb_uuencode bb_uuenc_tbl_base64 s @ src) 0 [] (out @ [s0, s1, s2])"
    by (simp add: uuencode_digits read_digit digits_small merge_quad_def numeral_3_eq_3 numeral_2_eq_2 del: read_base64.simps)
  then show ?case using "4.IH" [of 0 "out @ [s0, s1, s2]"] by (cases "s = []") (simp_all add: uuencode_digits del: read_base64.simps)
qed (simp_all add: uuencode_digits read_digit read_pad digits_small merge_quad_def base64_table numeral_2_eq_2 del: read_base64.simps)

lemma read_base64_lines:
  "\<forall>s \<in> set ss. s \<noteq> [] \<Longrightarrow>
    read_base64 (concat (map (\<lambda>s. bb_uuencode bb_uuenc_tbl_base64 s @ [CHR 0x0A]) ss) @ ''===='' @ [CHR 0x0A]) 1 [] out = (None, out @ concat ss)"
proof (induction ss arbitrary: out)
  case Nil
  show ?case by (simp add: base64_table)
qed (simp add: read_base64_line read_newline del: read_base64.simps)

subsection \<open>The encoder\<close>

fun chunks :: "byte list \<Rightarrow> byte list list" where
  "chunks bs = (if bs = [] then [] else take 45 bs # chunks (drop 45 bs))"

declare chunks.simps [simp del]

lemma chunks_ok: "s \<in> set (chunks bs) \<Longrightarrow> s \<noteq> [] \<and> length s \<le> 45"
proof (induction bs rule: chunks.induct)
  case (1 bs)
  then show ?case by (subst (asm) (2) chunks.simps) (auto split: if_splits)
qed

lemma concat_chunks: "concat (chunks bs) = bs"
proof (induction bs rule: chunks.induct)
  case (1 bs)
  then show ?case by (subst chunks.simps) auto
qed

lemma full_read_all:
  "reads_ok w \<Longrightarrow> \<exists>n. full_read len buf rest w = (Some (buf @ take len rest), w\<lparr>nreads := n\<rparr>)"
proof (induction len buf rest w rule: full_read.induct)
  case (1 len buf rest w)
  obtain k where "read_env w (nreads w) = Some k" using 1(2) by (auto simp: reads_ok_def)
  then have r: "safe_read len rest w = (Some (take (min len (max 1 k)) rest), w\<lparr>nreads := nreads w + 1\<rparr>)" by (simp add: safe_read_def)
  let ?p = "take (min len (max 1 k)) rest" and ?w = "w\<lparr>nreads := nreads w + 1\<rparr>"
  show ?case
  proof (cases "len = 0 \<or> rest = []")
    case True
    then show ?thesis using r by (subst full_read.simps) (auto intro: exI [of _ "nreads w"] exI [of _ "nreads w + 1"])
  next
    case False
    then have p: "?p \<noteq> []" by auto
    obtain n where "full_read (len - length ?p) (buf @ ?p) (drop (length ?p) rest) ?w
        = (Some ((buf @ ?p) @ take (len - length ?p) (drop (length ?p) rest)), ?w\<lparr>nreads := n\<rparr>)"
      using 1(1) [OF _ r [symmetric] refl p] False 1(2) by auto
    moreover have "?p @ take (len - length ?p) (drop (length ?p) rest) = take len rest"
    proof -
      have "?p = take (length ?p) rest" by simp (metis append_eq_conv_conj append_take_drop_id length_take)
      moreover have "length ?p \<le> len" by simp
      ultimately show ?thesis by (metis take_add le_add_diff_inverse)
    qed
    ultimately show ?thesis using False p r by (subst full_read.simps) (auto intro: exI [of _ n])
  qed
qed

definition body :: "bool \<Rightarrow> byte list \<Rightarrow> string" where
  "body m bs = concat (map (\<lambda>s. CHR 0x0A # (if m then bb_uuencode bb_uuenc_tbl_base64 s else std_line s)) (chunks bs))"

lemma tables_differ: "bb_uuenc_tbl_base64 \<noteq> bb_uuenc_tbl_std"
  by code_simp

lemma uuencode_loop_body:
  "reads_ok w \<Longrightarrow> \<exists>n. uuencode_loop (if m then bb_uuenc_tbl_base64 else bb_uuenc_tbl_std) rest w = (True, [], print (body m rest) (w\<lparr>nreads := n\<rparr>))"
proof (induction rest arbitrary: w rule: chunks.induct)
  case (1 rest)
  let ?tbl = "if m then bb_uuenc_tbl_base64 else bb_uuenc_tbl_std"
  obtain n where n: "full_read SRC_BUF_SIZE [] rest w = (Some (take 45 rest), w\<lparr>nreads := n\<rparr>)"
    using full_read_all [OF 1(2), of SRC_BUF_SIZE "[]" rest] by (auto simp: SRC_BUF_SIZE_def)
  show ?case
  proof (cases "rest = []")
    case True
    then show ?thesis using n by (intro exI [of _ n]) (simp add: uuencode_loop.simps body_def chunks.simps print_def)
  next
    case False
    let ?line = "CHR 0x0A # (if m then bb_uuencode bb_uuenc_tbl_base64 (take 45 rest) else std_line (take 45 rest))"
    have d: "drop (min (length rest) 45) rest = drop 45 rest" by (simp add: min_def)
    have "uuencode_loop ?tbl rest w = uuencode_loop ?tbl (drop 45 rest) (print ?line (w\<lparr>nreads := n\<rparr>))"
      using n False tables_differ by (subst uuencode_loop.simps) (simp add: std_line_def d)
    moreover obtain n' where "uuencode_loop ?tbl (drop 45 rest) (print ?line (w\<lparr>nreads := n\<rparr>))
        = (True, [], print (body m (drop 45 rest)) ((print ?line (w\<lparr>nreads := n\<rparr>))\<lparr>nreads := n'\<rparr>))"
      using 1(1) [OF False, of "print ?line (w\<lparr>nreads := n\<rparr>)"] 1(2) by auto
    moreover have "body m rest = ?line @ body m (drop 45 rest)" using False by (simp add: body_def chunks.simps [of rest])
    ultimately show ?thesis by (intro exI [of _ n']) (simp add: print_def)
  qed
qed

text \<open>The line breaks stand before the lines; seen from behind the first one they end them.\<close>

lemma body_lines:
  "body m bs @ CHR 0x0A # t = CHR 0x0A # concat (map (\<lambda>s. (if m then bb_uuencode bb_uuenc_tbl_base64 s else std_line s) @ [CHR 0x0A]) (chunks bs)) @ t"
proof -
  have "concat (map (\<lambda>s. c # f s) ss) @ c # t = c # concat (map (\<lambda>s. f s @ [c]) ss) @ t" for c f and ss :: "byte list list"
    by (induction ss) simp_all
  then show ?thesis by (simp add: body_def)
qed

subsection \<open>The first line\<close>

lemma octal_digit: "d < 8 \<Longrightarrow> isdigit_c (digit_char d) \<and> digit_val (digit_char d) = int d"
  by (simp add: digit_char_simps)

lemma octal_show: "octal 0 (show_oct n @ r) = octal n r"
proof (induction n arbitrary: r rule: show_oct.induct)
  case (1 n)
  show ?case
  proof (cases "n < 8")
    case True
    then show ?thesis by (subst show_oct.simps) (simp add: octal_digit)
  next
    case False
    then have "octal 0 (show_oct n @ r) = octal 0 (show_oct (n div 8) @ digit_char (n mod 8) # r)" by (subst show_oct.simps) simp
    also have "\<dots> = octal (n div 8) (digit_char (n mod 8) # r)" using 1 False by simp
    finally show ?thesis by (simp add: octal_digit)
  qed
qed

lemma show_oct_first: "\<exists>d r. show_oct n = digit_char d # r \<and> d < 8"
proof (induction n rule: show_oct.induct)
  case (1 n)
  show ?case
  proof (cases "n < 8")
    case False
    with 1 obtain d r where "show_oct (n div 8) = digit_char d # r" "d < 8" by blast
    then show ?thesis using False by (subst show_oct.simps) auto
  qed (auto simp: show_oct.simps [of n])
qed

lemma show_oct_digits: "c \<in> set (show_oct n) \<Longrightarrow> isdigit_c c"
proof (induction n rule: show_oct.induct)
  case (1 n)
  then show ?case by (subst (asm) (2) show_oct.simps) (auto simp: octal_digit split: if_splits)
qed

lemma strtou8_show:
  assumes "n < 2 ^ 32"
  shows "bb_strtou8 (show_oct n @ CHR '' '' # name) = of_nat n"
proof -
  obtain d r where "show_oct n = digit_char d # r" "d < 8" using show_oct_first by blast
  moreover have "octal 0 (show_oct n @ CHR '' '' # name) = (n, CHR '' '' # name)" by (simp add: octal_show isdigit_c_def)
  moreover have "\<not> isalnum_c CHR '' ''" by (simp add: isalnum_c_def isdigit_c_def)
  ultimately show ?thesis using assms by (simp add: bb_strtou8_def isalnum_c_def octal_digit)
qed

lemma digit_plain: "isdigit_c c \<Longrightarrow> c \<noteq> CHR 0x00 \<and> c \<noteq> CHR 0x0A \<and> c \<noteq> CHR '' ''"
  by (auto simp: isdigit_c_def)

definition first_line :: "bool \<Rightarrow> nat \<Rightarrow> string \<Rightarrow> string" where
  "first_line m n name = ''begin'' @ (if m then ''-base64'' else []) @ '' '' @ show_oct n @ '' '' @ name"

lemma first_line_plain: "plain name \<Longrightarrow> plain (first_line m n name)"
  using show_oct_digits [of _ n] digit_plain by (fastforce simp: plain_def first_line_def)

lemma name_after: "strchr_after (show_oct n @ CHR '' '' # name) CHR '' '' = Some name"
proof -
  have "dropWhile (\<lambda>x. x \<noteq> CHR '' '') (show_oct n @ CHR '' '' # name) = CHR '' '' # name"
    using show_oct_digits [of _ n] digit_plain by (subst dropWhile_append2) auto
  then show ?thesis by (simp add: strchr_after_def)
qed

text \<open>The text of an encoded file.\<close>

definition encoded :: "bool \<Rightarrow> nat \<Rightarrow> string \<Rightarrow> byte list \<Rightarrow> string" where
  "encoded m n name bs = first_line m n name @ body m bs @ CHR 0x0A # (if m then ''===='' else ''`'' @ CHR 0x0A # ''end'') @ [CHR 0x0A]"

lemma decode_encoded:
  assumes "plain name" "n < 512" "name = ''-'' \<or> creatable name"
  shows "uudecode_loop creatable None (encoded m n name bs) = (None, Some (if name = ''-'' then To_stdout else To_file name (of_nat n), bs))"
proof -
  let ?tail = "if m then ''===='' @ [CHR 0x0A] else ''`'' @ CHR 0x0A # ''end'' @ [CHR 0x0A]"
  let ?rest = "concat (map (\<lambda>s. (if m then bb_uuencode bb_uuenc_tbl_base64 s else std_line s) @ [CHR 0x0A]) (chunks bs)) @ ?tail"
  have "encoded m n name bs = first_line m n name @ CHR 0x0A # ?rest"
    using body_lines [of m bs ?tail] by (cases m) (simp_all add: encoded_def)
  then have line: "xmalloc_fgetline (encoded m n name bs) = Some (first_line m n name, ?rest)"
    using fgetline_line [OF first_line_plain [OF assms(1)]] by simp
  have data: "(if m then read_base64 ?rest 1 [] [] else read_stduu ?rest []) = (None, bs)"
    using read_base64_lines [of "chunks bs" "[]"] read_std_lines [of "chunks bs" "[]"] chunks_ok [of _ bs]
    by (cases m) (simp_all add: concat_chunks del: read_base64.simps)
  have mode: "(of_nat n :: u32) AND 0x1ff = of_nat n"
  proof -
    have "(of_nat n :: u32) AND 0x1ff = take_bit 9 (of_nat n)" by (simp add: take_bit_eq_mask mask_eq_exp_minus_1)
    then show ?thesis using assms(2)
      by (simp add: word_eq_iff_unsigned [where ?'a = nat] unsigned_take_bit_eq unsigned_of_nat take_bit_nat_eq_self)
  qed
  have "strncmp_eq (first_line m n name) ''begin-base64 '' 13 = m" "strncmp_eq (first_line False n name) ''begin '' 6"
    "drop (if m then 13 else 6) (first_line m n name) = show_oct n @ CHR '' '' # name"
    by (cases m; simp add: strncmp_eq_def first_line_def)+
  then show ?thesis using line data mode assms strtou8_show [of n name] name_after [of n name]
    by (subst uudecode_loop.simps) (cases m; simp add: decode_to_def Let_def del: read_base64.simps)
qed

lemma encode_main:
  assumes "reads_ok w" "files w f = Some bs"
  shows "\<exists>n. uuencode_main modes umask m [f, name] w = (0, print (encoded m (unat (modes f AND 0x1ff)) name bs) (w\<lparr>nreads := n\<rparr>))"
    "\<exists>n. uuencode_main modes umask m [name] w = (0, print (encoded m (unat (0x1b6 AND NOT umask)) name (stdin w)) (w\<lparr>nreads := n, stdin := []\<rparr>))"
proof -
  let ?line = "\<lambda>mode :: u32. first_line m (unat mode) name"
  let ?loop = "uuencode_loop (if m then bb_uuenc_tbl_base64 else bb_uuenc_tbl_std)"
  have loop: "\<exists>n. ?loop bs (print s w) = (True, [], print (body m bs) ((print s w)\<lparr>nreads := n\<rparr>))" for s bs
    using assms(1) by (intro uuencode_loop_body) simp
  from loop [of bs "?line (modes f AND 0x1ff)"]
  show "\<exists>n. uuencode_main modes umask m [f, name] w = (0, print (encoded m (unat (modes f AND 0x1ff)) name bs) (w\<lparr>nreads := n\<rparr>))"
    using assms(2) by (auto simp: uuencode_main_def first_line_def encoded_def print_def Let_def)
  from loop [of "stdin w" "?line (0x1b6 AND NOT umask)"]
  show "\<exists>n. uuencode_main modes umask m [name] w = (0, print (encoded m (unat (0x1b6 AND NOT umask)) name (stdin w)) (w\<lparr>nreads := n, stdin := []\<rparr>))"
    by (auto simp: uuencode_main_def first_line_def encoded_def print_def Let_def)
qed

subsection \<open>Properties\<close>

text \<open>
  C38: What \<open>uuencode\<close> prints for a file, in either format and however the reads cut it, is decoded by \<open>uudecode\<close> to the same bytes, under the
  name and with the permissions that were given.
\<close>

theorem uucode_roundtrip:
  assumes "reads_ok w" "files w f = Some bs" "plain name" "name \<noteq> ''-''" "creatable name" "stdout w = []" "enc \<noteq> ''-''"
  shows "\<exists>w1. uuencode_main modes umask m [f, name] w = (0, w1) \<and>
    uudecode_main creatable None [enc] (w1\<lparr>files := (files w1)(enc \<mapsto> bytes_of (stdout w1))\<rparr>) = (None, Some (To_file name (modes f AND 0x1ff), bs))"
proof -
  let ?n = "unat (modes f AND 0x1ff)"
  obtain k where k: "uuencode_main modes umask m [f, name] w = (0, print (encoded m ?n name bs) (w\<lparr>nreads := k\<rparr>))"
    using encode_main(1) [OF assms(1,2)] by blast
  have "?n < 512"
  proof -
    have "modes f AND 0x1ff = take_bit 9 (modes f)" by (simp add: take_bit_eq_mask mask_eq_exp_minus_1)
    then show ?thesis using take_bit_nat_less_exp [of 9 "unat (modes f)"] by (simp add: unsigned_take_bit_eq)
  qed
  from decode_encoded [OF assms(3) this, of creatable m bs] k assms(4-7) show ?thesis
    by (simp add: uudecode_main_def open_or_warn_stdin_def)
qed

theorem uucode_roundtrip_witness:
  "\<exists>w1. uuencode_main (\<lambda>_. 0x81a4) 0 True [''a'', ''b''] \<lparr>files = [''a'' \<mapsto> [1, 2, 255, 0]], stdin = [], read_env = \<lambda>_. Some 3, nreads = 0, stdout = []\<rparr> = (0, w1) \<and>
    uudecode_main (\<lambda>_. True) None [''c''] (w1\<lparr>files := (files w1)(''c'' \<mapsto> bytes_of (stdout w1))\<rparr>) = (None, Some (To_file ''b'' 0x1a4, [1, 2, 255, 0]))"
proof -
  let ?w = "\<lparr>files = [''a'' \<mapsto> [1, 2, 255, 0 :: byte]], stdin = [], read_env = \<lambda>_. Some 3, nreads = 0, stdout = []\<rparr>"
  have "reads_ok ?w" "files ?w ''a'' = Some [1, 2, 255, 0]" "plain ''b''" "stdout ?w = []" by (simp_all add: reads_ok_def plain_def)
  from uucode_roundtrip [OF this(1,2,3) _ _ this(4), of "\<lambda>_. True" "''c''" "\<lambda>_. 0x81a4" 0 True] show ?thesis by simp
qed

end
