(* ===== verification/Spec2Isabelle.thy ===== *)
theory Spec2Isabelle
  imports Scripts Ifwi_Check Loadfw Partition_Disk Shell_Math_Grammar Test_Grammar Hash_Sum_Props Cksum_Props Uucode_Props
begin

text \<open>
  KBoot: the RAM disk and the tools that flash and select boot images on an Intel Medfield device.

  The program's parts and how they interact. An eMMC device starts with an OSIP header (a profile of up to seven image identifiers) and keeps a
  backup copy of it in the same sector. \<^verbatim>\<open>flash_stitched/\<close> holds \<open>update_osip\<close>, which reads, updates, invalidates, backs up and
  restores that header and flashes stitched images, and \<open>ifwi_version_check\<close>, which compares a firmware file with the running
  firmware. \<^verbatim>\<open>firmware_loader/\<close> (\<open>ifwi-update\<close>) and \<^verbatim>\<open>loadfw/\<close> hand firmware files to kernel drivers. The scripts of \<^verbatim>\<open>in/\<close>
  run these tools from the shell of \<^verbatim>\<open>busybox/\<close>, whose applets do the script's arithmetic (\<open>expr\<close>, \<open>$((...))\<close>), its conditions (\<open>test\<close>) and
  the checks and encodings of files (\<open>md5sum\<close> and the SHA sums, \<open>cksum\<close>, \<open>sum\<close>, \<open>uuencode\<close>, \<open>uudecode\<close>).

  Shared theories.
  \<^item> \<open>Prelude\<close>: byte buffers (\<open>bslice\<close>, \<open>blit\<close>), little-endian words, exclusive-or sums, C division, the sum monad \<open>rbind\<close>, and the
    locale \<open>codec\<close> of encoders with round-trip laws.
  \<^item> \<open>CString\<close>: the C string functions the sources call, decimal numerals and 64-bit wrap-around.
  \<^item> \<open>Posix\<close>: the device, files and system calls. A program maps a world to a result and a world; every call that can fail
    asks the environment \<open>env\<close>, so a theorem without a hypothesis on it holds under all failures.
    Locale \<open>kept\<close> lifts a relation between worlds from system calls to programs; \<open>fd_spec\<close> counts descriptors.
  \<^item> \<open>Stream_IO\<close>: files and standard input of the applets, read in pieces the environment chooses (\<^verbatim>\<open>libbb\<close>: \<open>safe_read\<close>,
    \<open>bb_get_chunk_from_file\<close>, \<open>xmalloc_fgetline\<close>). Locale \<open>stream_sum\<close> shows that a sum that absorbs pieces does not depend on how the reads cut the file.
  \<^item> \<open>Samples\<close>: the concrete device the witnesses run on.

  The OSIP tools (\<^verbatim>\<open>flash_stitched/\<close>).
  \<^item> \<open>Osip_Layout\<close>: the structures of \<^verbatim>\<open>manage_device.h\<close> and \<^verbatim>\<open>osip.h\<close> as records with their bytes.
  \<^item> \<open>Manage_Device\<close>: \<^verbatim>\<open>manage_device.c\<close>. \<open>Osip_Utils\<close> and \<open>Flashing\<close>: \<^verbatim>\<open>osip_utils.c\<close>. \<open>Update_Osip\<close>: \<^verbatim>\<open>update_osip.c\<close>. Every function is a
    program over the world; closed forms of the runs in which no call fails carry the properties: the backup, invalidate and restore cycle, what flashing stores
    and where, the merge of a request, the checksum.
  \<^item> \<open>Confinement\<close> and \<open>Header_Props\<close>: under every failure the header commands stay in the header sector and close their descriptors; errors, overruns and the
    place of each identifier in a stored header.
  \<^item> \<open>Scripts\<close>: \<^verbatim>\<open>in/invalidate_osip.sh\<close>, \<^verbatim>\<open>in/restore_osip.sh\<close>, \<^verbatim>\<open>in/flash_stitched.sh\<close>. A command is a process: its end closes its descriptors and leaves a status
    of eight bits. The properties below follow a device through the scripts.

  Firmware.
  \<^item> \<open>Firmware_IO\<close>: streams, allocations and driver requests. \<open>Ifwi_Check\<close>: \<^verbatim>\<open>ifwi_version_check.c\<close>, the verdict of the version comparison.
    \<open>Ifwi_Update\<close>: \<^verbatim>\<open>ifwi-update.c\<close>, what every run keeps and what a good run sends to the driver. \<open>Loadfw\<close>: \<^verbatim>\<open>loadfw.c\<close>, its exits.

  Expressions (\<^verbatim>\<open>busybox/coreutils\<close> and \<^verbatim>\<open>busybox/shell\<close>). Each evaluator is proved equal to the meaning of a tree printed with the fewest parentheses, and to end on every input.
  \<^item> \<open>Expr\<close>, \<open>Expr_Grammar\<close>: \<^verbatim>\<open>expr.c\<close>. The locales \<open>shrinking\<close> and \<open>consuming\<close> state what the levels of the descent owe each other. Fuel: the number
    of arguments and one, since each recursion consumes one.
  \<^item> \<open>Test_Applet\<close>, \<open>Test_Grammar\<close>: \<^verbatim>\<open>test.c\<close>. Fuel: four levels for each argument, and four.
  \<^item> \<open>Shell_Math\<close>, \<open>Shell_Math_Run\<close>, \<open>Shell_Math_Grammar\<close>: \<^verbatim>\<open>math.c\<close>, a shift-reduce evaluator on two stacks that variables re-enter. Fuel: the number of variables
    and two, since the code refuses a variable that is being evaluated. The locale \<open>evaluator\<close> is the contract of looking a
    variable up, \<open>operand_source\<close> that of reading an operand.
  \<^item> \<open>Partition_Disk\<close>: the layout computation of \<^verbatim>\<open>in/PartitionDisk.sh\<close> through \<open>expr_main\<close>.

  Digests and encodings (\<^verbatim>\<open>busybox/libbb\<close> and \<^verbatim>\<open>busybox/coreutils\<close>).
  \<^item> \<open>Digest\<close>: the locale \<open>digest_stream\<close> of a block function fed in pieces. \<open>Sha\<close>, \<open>Sha_Spec\<close>, \<open>Sha_Digest\<close>: \<^verbatim>\<open>sha1.c\<close> against the padded message of the
    standard. \<open>Md5\<close>, \<open>Md5_Digest\<close>: the four variants of \<^verbatim>\<open>md5.c\<close>.
  \<^item> \<open>Hash_Sum\<close>, \<open>Hash_Sum_Props\<close>: \<^verbatim>\<open>md5_sha1_sum.c\<close>, printing and checking lists. \<open>Cksum\<close>, \<open>Cksum_Props\<close>: \<^verbatim>\<open>crc32.c\<close>, \<^verbatim>\<open>cksum.c\<close> against polynomial division, \<^verbatim>\<open>sum.c\<close>.
    \<open>Uucode\<close>, \<open>Uucode_Props\<close>: \<^verbatim>\<open>uuencode.c\<close> and \<^verbatim>\<open>uudecode.c\<close>, the round trip.

  Conventions. The tools are 32-bit programs: sizes, offsets and \<open>long\<close> have 32 bits; the applets use 64-bit arithmetic where the configuration does. Output on the terminal is not
  part of the state of the OSIP and firmware tools, but the memory that printing reads is: an access outside an object, a division by zero and a null dereference
  are values of \<open>fault\<close>. A descriptor is its file offset; \<open>nfds\<close> counts the open ones. The results of \<open>getopt_long\<close>, the matcher behind \<open>regcomp\<close>,
  the answers of drivers, \<open>stat\<close> and the identity of a process are arguments.

  Not modelled. The shells (\<^verbatim>\<open>ash.c\<close> but for \<open>endofname\<close>, \<^verbatim>\<open>hush.c\<close>) work on processes, signals and terminals. \<^verbatim>\<open>e2fsprogs\<close>, \<^verbatim>\<open>util-linux\<close>, \<^verbatim>\<open>modutils\<close>, \<^verbatim>\<open>networking\<close>,
  \<^verbatim>\<open>init\<close>, \<^verbatim>\<open>procps\<close>, \<^verbatim>\<open>runit\<close>, \<^verbatim>\<open>sysklogd\<close>, \<^verbatim>\<open>loginutils\<close> and \<^verbatim>\<open>console-tools\<close> change state of the kernel, of disks or of peers through ioctls and sockets.
  \<^verbatim>\<open>archival\<close>, \<^verbatim>\<open>editors\<close>, \<^verbatim>\<open>findutils\<close> and \<^verbatim>\<open>miscutils\<close> are applets the other parts only start as commands; what the scripts take from them is an argument here. The
  rest of \<^verbatim>\<open>coreutils\<close> and \<^verbatim>\<open>libbb\<close> are wrappers around single system calls, option tables and generated applet tables. \<^verbatim>\<open>in/stitch.sh\<close> and \<^verbatim>\<open>in/nand.sh\<close> run
  on the build host with its own \<open>dd\<close>; \<^verbatim>\<open>kboot-init\<close>, \<^verbatim>\<open>AutoBoot.sh\<close>, \<^verbatim>\<open>loadfw_modem.sh\<close>, \<^verbatim>\<open>loadproxy.sh\<close> and \<^verbatim>\<open>umip.sh\<close> start programs that are not in the repository or
  write to the kernel's files; the build scripts and kernel configurations hold no algorithm.
\<close>

section \<open>The OSIP scripts\<close>

text \<open>
  C1: an invalidated device is brought back. On a device whose header has the signature and an identifier with attribute
  1, \<open>invalidate_osip\<close> and then \<open>flash_stitched\<close> of a stitched image that fits behind the header sector both end with status 0.
  In between, the first identifier with attribute 1 is wiped in the header in use and the old header is the backup. At the end the header in
  use is the old one with identifier 0 taken from the image (its start block kept) under a valid checksum, the backup is cleared, the payload
  stands at the start block, every other byte behind the header sector is as before, no descriptor is left and one reboot reason was reported.
\<close>

theorem reflash_cycle:
  assumes "disk_ok w" and "h = osip_at 0 w" and "sane_OSIP h" and "sig h = OSIP_SIG"
    and "find_attribute (desc h) 1 = Some j"
    and "world.files w (base @ ''.bin'') = Some data" and "stitched data n" and "room_for (desc h ! 0) n w"
  shows "\<exists>w1 w2. invalidate_osip w = (Ret 0, w1)
    \<and> headers w1 = (stamp (h\<lparr>desc := (desc h)[j := invalidate_OSII (desc h ! j)]\<rparr>), h)
    \<and> flash_stitched [base @ ''.bin''] w1 = (Ret 0, w2)
    \<and> headers w2 = (stamp (h\<lparr>desc := (desc h)[0 := flashed_OSII data (desc h ! 0)]\<rparr>), memset_OSIP 0)
    \<and> holds_payload (desc h ! 0) (drop 512 data) (dev w) (dev w2)
    \<and> nfds w2 = nfds w \<and> osnib w2 = osnib w @ [RR_SIGNED_MOS]"
proof -
  let ?g = "stamp (h\<lparr>desc := (desc h)[j := invalidate_OSII (desc h ! j)]\<rparr>)"
  let ?f = "h\<lparr>desc := (desc h)[0 := flashed_OSII data (desc h ! 0)]\<rparr>"
  obtain c1 d1 where 1: "invalidate_osip w = (Ret 0, w\<lparr>calls := c1, dev := d1\<rparr>)" "length d1 = length (dev w)"
      "drop 512 d1 = drop 512 (dev w)" "headers (w\<lparr>dev := d1\<rparr>) = (?g, h)"
    using invalidate_osip_reliable [OF assms(1,2,3,5)] by blast
  let ?w1 = "w\<lparr>calls := c1, dev := d1\<rparr>"
  have lsb: "logical_start_block (desc ?g ! 0) = logical_start_block (desc h ! 0)"
    using sane_OSIPD(1) [OF assms(3)] by (cases j) (simp_all add: invalidate_OSII_def wf_OSIP_def layout_defs)
  have w1: "disk_ok ?w1" "osip_at 0 ?w1 = ?g" "osip_at BACKUP_LOC ?w1 = h"
    using assms(1) 1(2,4) by (simp_all add: osip_at_dev disk_ok_dev)
  have g: "sane_OSIP ?g" using assms(3) by (simp add: sane_desc)
  have room: "room_for (desc ?g ! 0) n ?w1" using assms(8) lsb 1(2) by (simp add: room_for_def)
  obtain c2 d2 where 2: "process (update_osip_main [(CHR ''u'', ''0''), (CHR ''g'', base @ ''.bin'')]) ?w1 =
        (Ret 0, ?w1\<lparr>calls := c2, dev := d2\<rparr>)" "length d2 = length d1"
      "holds_payload (desc ?g ! 0) (drop 512 data) d1 d2" "headers (?w1\<lparr>dev := d2\<rparr>) = (?g, ?f)"
    using process_update_image [OF w1(1), of base data n] w1(2,3) g assms(4,6,7) room lsb
    by (auto simp: flashed_pair_def flashed_OSII_def)
  let ?w2 = "w\<lparr>calls := c2, dev := d2\<rparr>"
  have w2: "disk_ok ?w2" "osip_at BACKUP_LOC ?w2 = ?f"
    using assms(1) 1(2) 2(2,4) by (simp_all add: osip_at_dev disk_ok_dev)
  have f: "sane_OSIP ?f" using assms(3,7) by (intro sane_desc) (simp_all add: stitched_def)
  obtain c3 d3 where 3: "process (update_osip_main [(CHR ''r'', [])]) ?w2 =
        (Ret 0, ?w2\<lparr>calls := c3, dev := d3, osnib := osnib w @ [RR_SIGNED_MOS]\<rparr>)"
      "drop 512 d3 = drop 512 d2" "headers (?w2\<lparr>dev := d3\<rparr>) = (stamp ?f, memset_OSIP 0)"
    using process_restore [OF w2(1)] w2(2) f assms(4) by auto
  have "flash_stitched [base @ ''.bin''] ?w1 = (Ret 0, w\<lparr>calls := c3, dev := d3, osnib := osnib w @ [RR_SIGNED_MOS]\<rparr>)"
    using 2(1) 3(1) by (simp add: flash_stitched_one bnd_def)
  moreover have "holds_payload (desc h ! 0) (drop 512 data) (dev w) d3"
  proof (rule iffD1 [OF holds_payload_tail holds_payload_block [OF lsb 2(3)]])
    show "length (drop 512 data) = 512 * n" using assms(7) by (simp add: stitched_def)
  qed (use 1(2,3) 3(2) assms(8) in simp_all)
  ultimately show ?thesis
    using 1(1,4) 3(3)
    by (intro exI [of _ ?w1] exI [of _ "w\<lparr>calls := c3, dev := d3, osnib := osnib w @ [RR_SIGNED_MOS]\<rparr>"]) (simp add: osip_at_def)
qed

theorem reflash_cycle_witness:
  "\<exists>w1 w2. invalidate_osip sample_boot = (Ret 0, w1)
    \<and> headers w1 = (stamp (sample_header\<lparr>desc := (desc sample_header)[1 := invalidate_OSII (desc sample_header ! 1)]\<rparr>), sample_header)
    \<and> flash_stitched [''boot.bin''] w1 = (Ret 0, w2)
    \<and> headers w2 = (stamp (sample_header\<lparr>desc := (desc sample_header)[0 := flashed_OSII sample_image (desc sample_header ! 0)]\<rparr>), memset_OSIP 0)
    \<and> holds_payload (desc sample_header ! 0) (drop 512 sample_image) (dev sample_boot) (dev w2)
    \<and> nfds w2 = nfds sample_boot \<and> osnib w2 = osnib sample_boot @ [RR_SIGNED_MOS]"
  using reflash_cycle [of sample_boot sample_header 1 "''boot''" sample_image "Suc 0"] sample_boot_facts by simp

text \<open>
  C39: the status of \<open>flash_stitched\<close> tells whether there was a backup to restore, not whether the image was flashed: 0 with a backup, even
  when the image does not exist and nothing behind the header sector changed; 255 without one, even when the image was
  flashed and its identifier stands in the header in use.
\<close>

theorem flash_stitched_status:
  assumes "disk_ok w" and "sane_OSIP (osip_at 0 w)" and "sane_OSIP (osip_at BACKUP_LOC w)"
    and "case world.files w (base @ ''.bin'') of None \<Rightarrow> True
      | Some data \<Rightarrow> stitched data n \<and> room_for (desc (osip_at 0 w) ! 0) n w"
  shows "\<exists>w'. flash_stitched [base @ ''.bin''] w = (Ret (if sig (osip_at BACKUP_LOC w) = OSIP_SIG then 0 else 255), w')
    \<and> (case world.files w (base @ ''.bin'') of None \<Rightarrow> drop 512 (dev w') = drop 512 (dev w)
       | Some data \<Rightarrow> holds_payload (desc (osip_at 0 w) ! 0) (drop 512 data) (dev w) (dev w')
           \<and> desc (osip_at 0 w') ! 0 = flashed_OSII data (desc (osip_at 0 w) ! 0))"
proof -
  let ?first = "process (update_osip_main [(CHR ''u'', ''0''), (CHR ''g'', base @ ''.bin'')])"
  let ?keeps = "\<lambda>d. (case world.files w (base @ ''.bin'') of None \<Rightarrow> drop 512 d = drop 512 (dev w)
       | Some data \<Rightarrow> holds_payload (desc (osip_at 0 w) ! 0) (drop 512 data) (dev w) d)"
  let ?new = "\<lambda>h. (case world.files w (base @ ''.bin'') of None \<Rightarrow> True
       | Some data \<Rightarrow> desc h ! 0 = flashed_OSII data (desc (osip_at 0 w) ! 0))"
  obtain s c d where 1: "?first w = (Ret s, w\<lparr>calls := c, dev := d\<rparr>)" "length d = length (dev w)" "?keeps d"
    and h: "sane_OSIP (osip_at BACKUP_LOC (w\<lparr>dev := d\<rparr>))"
      "sig (osip_at BACKUP_LOC (w\<lparr>dev := d\<rparr>)) = sig (osip_at BACKUP_LOC w)"
      "?new (if sig (osip_at BACKUP_LOC w) = OSIP_SIG then osip_at BACKUP_LOC (w\<lparr>dev := d\<rparr>) else osip_at 0 (w\<lparr>dev := d\<rparr>))"
    using first_command [OF assms] by blast
  let ?w = "w\<lparr>calls := c, dev := d\<rparr>"
  have w: "disk_ok ?w" "osip_at a ?w = osip_at a (w\<lparr>dev := d\<rparr>)" for a
    using assms(1) 1(2) by (simp_all add: disk_ok_dev osip_at_dev)
  show ?thesis
  proof (cases "sig (osip_at BACKUP_LOC w) = OSIP_SIG")
    case True
    obtain c' d' where 2: "process (update_osip_main [(CHR ''r'', [])]) ?w =
        (Ret 0, ?w\<lparr>calls := c', dev := d', osnib := osnib w @ [RR_SIGNED_MOS]\<rparr>)" "drop 512 d' = drop 512 d"
        "osip_at 0 (?w\<lparr>dev := d'\<rparr>) = stamp (osip_at BACKUP_LOC (w\<lparr>dev := d\<rparr>))"
      using process_restore [OF w(1)] h True by (auto simp: w(2))
    have "flash_stitched [base @ ''.bin''] w = (Ret 0, ?w\<lparr>calls := c', dev := d', osnib := osnib w @ [RR_SIGNED_MOS]\<rparr>)"
      using 1(1) 2(1) by (simp add: flash_stitched_one bnd_def)
    moreover have "?keeps d'" using 1(3) 2(2) by (simp add: holds_payload_def split: option.splits)
    moreover have "?new (osip_at 0 (?w\<lparr>calls := c', dev := d', osnib := osnib w @ [RR_SIGNED_MOS]\<rparr>))"
      using 2(3) h(3) True by (simp add: osip_at_def split: option.splits)
    ultimately show ?thesis
      using True by (intro exI [of _ "?w\<lparr>calls := c', dev := d', osnib := osnib w @ [RR_SIGNED_MOS]\<rparr>"]) (simp split: option.splits)
  next
    case False
    then have "flash_stitched [base @ ''.bin''] w = (Ret 255, ?w\<lparr>calls := c + 2\<rparr>)"
      using 1(1) process_restore_refuses [OF w(1)] h(2) by (simp add: flash_stitched_one bnd_def w(2))
    moreover have "?new (osip_at 0 (?w\<lparr>calls := c + 2\<rparr>))"
      using h(3) False by (simp add: osip_at_def split: option.splits)
    ultimately show ?thesis
      using 1(3) False by (intro exI [of _ "?w\<lparr>calls := c + 2\<rparr>"]) (simp split: option.splits)
  qed
qed

theorem flash_stitched_status_witness:
  "(\<exists>w'. flash_stitched [''boot.bin''] sample_boot = (Ret 255, w')
      \<and> holds_payload (desc sample_header ! 0) (drop 512 sample_image) (dev sample_boot) (dev w')
      \<and> desc (osip_at 0 w') ! 0 = flashed_OSII sample_image (desc sample_header ! 0))
    \<and> (\<exists>w'. flash_stitched [''none.bin''] (sample_world (enc_OSIP sample_header)) = (Ret 0, w')
      \<and> drop 512 (dev w') = drop 512 (dev (sample_world (enc_OSIP sample_header))))"
  using flash_stitched_status [of sample_boot "Suc 0" "''boot''"]
    flash_stitched_status [of "sample_world (enc_OSIP sample_header)" 0 "''none''"] sample_boot_facts
  by (simp add: dec_enc_OSIP no_files)

end
